(* ===== verification/Atp_Prelude.thy ===== *)
theory Atp_Prelude
  imports Main "HOL-Library.Word"
begin

text \<open>
  Shared vocabulary of the libatp development: the faults a C++ operation can end in, a
  sequencing operator for operations that may fault, \<open>size_t\<close> arithmetic with its
  wrap-around, and raw memory objects (byte lists) with bounds-checked block reads and
  writes. The collections \<open>bnd_simps\<close>, \<open>size_simps\<close> and \<open>mem_simps\<close> carry the component
  proofs.
\<close>

named_theorems bnd_simps \<open>evaluation of sequenced operations\<close>
named_theorems size_simps \<open>size_t arithmetic inside its range\<close>
named_theorems mem_simps \<open>block reads and writes of memory objects\<close>

section \<open>Faults and sequencing\<close>

text \<open>
  What a C++ call can end in besides returning: a failed \<open>assert\<close> (the build does not set
  \<open>NDEBUG\<close>), an access outside an object, a null pointer that is dereferenced, an access to
  an object that was freed, a call of \<open>free\<close> or \<open>delete\<close> on a pointer that is not the start of
  a live block, a library call whose precondition is not met (\<open>pop_front\<close> or \<open>back\<close> of an
  empty list), an uncaught \<open>std::bad_alloc\<close>, a call that the library's documentation rules
  out (\<open>Misuse\<close>, such as \<open>event_assign\<close> on a pending event), the call of an empty
  \<open>std::function\<close> (\<open>BadCall\<close>), or a failed \<open>any_cast\<close> (\<open>BadCast\<close>).
\<close>

datatype fault =
    AssertFail | OutOfBounds | NullDeref | UseAfterFree | InvalidFree | EmptyContainer | BadAlloc
  | Misuse | BadCall | BadCast

type_synonym 'a result = "fault + 'a"

definition bnd :: "'a result \<Rightarrow> ('a \<Rightarrow> 'b result) \<Rightarrow> 'b result" where
  "bnd m f = (case m of Inl e \<Rightarrow> Inl e | Inr a \<Rightarrow> f a)"

definition assert_that :: "bool \<Rightarrow> 'a result \<Rightarrow> 'a result" where
  "assert_that P m = (if P then m else Inl AssertFail)"

lemma bnd_Inr [simp, bnd_simps]: "bnd (Inr a) f = f a"
  by (simp add: bnd_def)

lemma bnd_Inl [simp, bnd_simps]: "bnd (Inl e) f = Inl e"
  by (simp add: bnd_def)

lemma bnd_eq_Inr [bnd_simps]: "bnd m f = Inr b \<longleftrightarrow> (\<exists>a. m = Inr a \<and> f a = Inr b)"
  by (cases m) auto

lemma bnd_assoc [bnd_simps]: "bnd (bnd m f) g = bnd m (\<lambda>a. bnd (f a) g)"
  by (cases m) auto

lemma assert_that_True [simp, bnd_simps]: "P \<Longrightarrow> assert_that P m = m"
  by (simp add: assert_that_def)

lemma assert_that_False [simp, bnd_simps]: "\<not> P \<Longrightarrow> assert_that P m = Inl AssertFail"
  by (simp add: assert_that_def)

lemma assert_that_eq_Inr [bnd_simps]: "assert_that P m = Inr a \<longleftrightarrow> P \<and> m = Inr a"
  by (simp add: assert_that_def)

section \<open>size\_t\<close>

text \<open>
  A \<open>size_t\<close> is a natural number below \<open>2 ^ 64\<close>; addition and subtraction wrap around.
\<close>

definition size_mod :: nat where
  "size_mod = 2 ^ 64"

definition sz_add :: "nat \<Rightarrow> nat \<Rightarrow> nat" where
  "sz_add a b = (a + b) mod size_mod"

definition sz_sub :: "nat \<Rightarrow> nat \<Rightarrow> nat" where
  "sz_sub a b = (a + (size_mod - b mod size_mod)) mod size_mod"

definition sz_neg :: "nat \<Rightarrow> nat" where
  "sz_neg a = sz_sub 0 a"

lemma size_mod_pos [simp]: "0 < size_mod"
  by (simp add: size_mod_def)

lemma sz_add_less [simp]: "sz_add a b < size_mod"
  by (simp add: sz_add_def)

lemma sz_sub_less [simp]: "sz_sub a b < size_mod"
  by (simp add: sz_sub_def)

lemma sz_add_small [size_simps]: "a + b < size_mod \<Longrightarrow> sz_add a b = a + b"
  by (simp add: sz_add_def)

lemma sz_add_0 [size_simps]: "a < size_mod \<Longrightarrow> sz_add a 0 = a"
  by (simp add: sz_add_def)

lemma sz_sub_small [size_simps]:
  assumes "b \<le> a" and "a < size_mod"
  shows "sz_sub a b = a - b"
proof -
  have "a + (size_mod - b) = (a - b) + size_mod" using assms by simp
  then have "(a + (size_mod - b)) mod size_mod = (a - b) mod size_mod" by (simp only: mod_add_self2)
  then show ?thesis using assms by (simp add: sz_sub_def)
qed

lemma sz_add_neg [size_simps]:
  assumes "b \<le> a" and "a < size_mod" and "0 < b"
  shows "sz_add a (sz_neg b) = a - b"
proof -
  have "sz_neg b = size_mod - b"
    using assms by (simp add: sz_neg_def sz_sub_def)
  moreover have "a + (size_mod - b) = (a - b) + size_mod" using assms by simp
  ultimately have "sz_add a (sz_neg b) = (a - b) mod size_mod"
    by (simp only: sz_add_def mod_add_self2)
  then show ?thesis using assms by simp
qed

lemma sz_neg_nonzero [size_simps]: "0 < b \<Longrightarrow> b < size_mod \<Longrightarrow> sz_neg b \<noteq> 0"
  by (simp add: sz_neg_def sz_sub_def)

text \<open>Conversion of a \<open>size_t\<close> to \<open>int\<close>, and back in an arithmetic expression.\<close>

definition size_to_int :: "nat \<Rightarrow> int" where
  "size_to_int n = sint (word_of_nat n :: 32 word)"

definition int_to_size :: "int \<Rightarrow> nat" where
  "int_to_size i = nat (i mod int size_mod)"

lemma size_to_int_small: "n < 2 ^ 31 \<Longrightarrow> size_to_int n = int n"
  using int_word_sint [of "int n", where 'a = 32] by (simp add: size_to_int_def)

lemma int_to_size_small: "0 \<le> i \<Longrightarrow> i < int size_mod \<Longrightarrow> int_to_size i = nat i"
  by (simp add: int_to_size_def)

text \<open>The value of an \<open>int\<close> of 32 bits after an operation with the result \<open>i\<close>.\<close>

definition int_wrap :: "int \<Rightarrow> int" where
  "int_wrap i = (i + 2 ^ 31) mod 2 ^ 32 - 2 ^ 31"

lemma int_wrap_small: "- (2 ^ 31) \<le> i \<Longrightarrow> i < 2 ^ 31 \<Longrightarrow> int_wrap i = i"
  by (simp add: int_wrap_def)

lemma int_wrap_add: "int_wrap (int_wrap i + j) = int_wrap (i + j)"
proof -
  have "(int_wrap i + j + 2 ^ 31) mod 2 ^ 32 = ((i + 2 ^ 31) mod 2 ^ 32 + j) mod 2 ^ 32" by (simp add: int_wrap_def)
  also have "\<dots> = (i + j + 2 ^ 31) mod 2 ^ 32" unfolding mod_add_left_eq by (simp add: algebra_simps)
  finally show ?thesis by (simp add: int_wrap_def)
qed

section \<open>Memory objects\<close>

text \<open>
  A memory object (an array obtained from \<open>new\<close> or \<open>calloc\<close>) is the list of its bytes; a
  pointer into it is an offset. Block copies are bounds checked. A \<open>memmove\<close> inside one
  object reads the whole source block before it writes, as the C library promises.
\<close>

type_synonym byte = "8 word"

definition mem_read :: "'a list \<Rightarrow> nat \<Rightarrow> nat \<Rightarrow> 'a list result" where
  "mem_read m off n =
     (if off + n \<le> length m then Inr (take n (drop off m)) else Inl OutOfBounds)"

definition mem_write :: "'a list \<Rightarrow> nat \<Rightarrow> 'a list \<Rightarrow> 'a list result" where
  "mem_write m off bs =
     (if off + length bs \<le> length m
      then Inr (take off m @ bs @ drop (off + length bs) m)
      else Inl OutOfBounds)"

definition mem_move :: "'a list \<Rightarrow> nat \<Rightarrow> nat \<Rightarrow> nat \<Rightarrow> 'a list result" where
  "mem_move m dst src n = bnd (mem_read m src n) (mem_write m dst)"

lemma mem_read_ok [mem_simps]:
  "off + n \<le> length m \<Longrightarrow> mem_read m off n = Inr (take n (drop off m))"
  by (simp add: mem_read_def)

lemma mem_write_ok [mem_simps]:
  "off + length bs \<le> length m \<Longrightarrow>
   mem_write m off bs = Inr (take off m @ bs @ drop (off + length bs) m)"
  by (simp add: mem_write_def)

lemma mem_write_length: "mem_write m off bs = Inr m' \<Longrightarrow> length m' = length m"
  by (auto simp: mem_write_def split: if_splits)

lemma mem_write_keeps_prefix [mem_simps]:
  assumes "mem_write m off bs = Inr m'" and "k \<le> off"
  shows "take k m' = take k m"
  using assms by (auto simp: mem_write_def split: if_splits)

lemma mem_write_block:
  assumes "mem_write m off bs = Inr m'"
  shows "take (length bs) (drop off m') = bs"
  using assms by (auto simp: mem_write_def split: if_splits)

lemma mem_write_extends:
  assumes "mem_write m off bs = Inr m'" and "lo \<le> off"
  shows "take (off + length bs - lo) (drop lo m') = take (off - lo) (drop lo m) @ bs"
proof -
  have m': "m' = take off m @ bs @ drop (off + length bs) m" and len: "off + length bs \<le> length m"
    using assms(1) by (auto simp: mem_write_def split: if_splits)
  have "drop lo m' = drop lo (take off m) @ bs @ drop (off + length bs) m"
    using len assms(2) by (simp add: m')
  moreover have "drop lo (take off m) = take (off - lo) (drop lo m)"
    by (simp add: drop_take)
  moreover have "length (take (off - lo) (drop lo m)) = off - lo"
    using len by simp
  moreover have "off + length bs - lo = (off - lo) + length bs" using assms(2) by simp
  ultimately show ?thesis by simp
qed

section \<open>C strings\<close>

text \<open>
  \<open>strlen\<close> of a pointer: the number of bytes before the first NUL, a fault when the object
  that starts at the pointer holds none.
\<close>

definition strlen :: "byte list \<Rightarrow> nat result" where
  "strlen m = (if 0 \<in> set m then Inr (length (takeWhile (\<lambda>c. c \<noteq> 0) m)) else Inl OutOfBounds)"

lemma strlen_append_zeros:
  "0 \<notin> set bs \<Longrightarrow> 0 < k \<Longrightarrow> strlen (bs @ replicate k 0) = Inr (length bs)"
  by (cases k) (auto simp: strlen_def takeWhile_append)

lemma takeWhile_nonzero_zeros:
  "takeWhile (\<lambda>c. c \<noteq> (0::byte)) (bs @ replicate k 0) = takeWhile (\<lambda>c. c \<noteq> 0) bs"
  by (induction bs) (cases k, auto)

text \<open>One element of a list changes, and with it a sum over the list.\<close>

lemma sum_list_move:
  fixes f :: "'b \<Rightarrow> nat"
  shows "i < length xs \<Longrightarrow> sum_list (map f (xs[i := v])) + f (xs ! i) = sum_list (map f xs) + f v"
proof (induction xs arbitrary: i)
  case (Cons x xs)
  then show ?case by (cases i) auto
qed simp

end
