(* ===== verification/Byte_Order.thy ===== *)
theory Byte_Order
  imports Atp_Prelude
begin

text \<open>
  Byte order conversion: the \<open>htonll\<close>/\<open>ntohll\<close> macros of \<open>net/atp_config.h\<close> (the same text
  is in \<open>app/atp_debug.h\<close>), the C library's \<open>htonl\<close>/\<open>ntohl\<close>, and how a word lies in the
  memory of the little-endian host the library is built for. The macros are shown to be byte
  reversals, so an integer written after \<open>htonll\<close> lies in memory in network order.
\<close>

unbundle bit_operations_syntax

section \<open>The conversions\<close>

definition htonll :: "64 word \<Rightarrow> 64 word" where
  "htonll x =
     drop_bit 56 (x AND 0xff00000000000000)
     OR drop_bit 40 (x AND 0x00ff000000000000)
     OR drop_bit 24 (x AND 0x0000ff0000000000)
     OR drop_bit 8 (x AND 0x000000ff00000000)
     OR push_bit 8 (x AND 0x00000000ff000000)
     OR push_bit 24 (x AND 0x0000000000ff0000)
     OR push_bit 40 (x AND 0x000000000000ff00)
     OR push_bit 56 (x AND 0x00000000000000ff)"

definition ntohll :: "64 word \<Rightarrow> 64 word" where
  "ntohll x = htonll x"

text \<open>The C library's \<open>htonl\<close> on a little-endian host swaps the four bytes.\<close>

definition htonl :: "32 word \<Rightarrow> 32 word" where
  "htonl x =
     drop_bit 24 (x AND 0xff000000)
     OR drop_bit 8 (x AND 0x00ff0000)
     OR push_bit 8 (x AND 0x0000ff00)
     OR push_bit 24 (x AND 0x000000ff)"

definition ntohl :: "32 word \<Rightarrow> 32 word" where
  "ntohl x = htonl x"

section \<open>Words in memory\<close>

text \<open>The bytes of an integer object on a little-endian host, and the integer they hold.\<close>

definition le_bytes32 :: "32 word \<Rightarrow> byte list" where
  "le_bytes32 x = map (\<lambda>i. ucast (drop_bit (8 * i) x)) [0..<4]"

definition le_bytes64 :: "64 word \<Rightarrow> byte list" where
  "le_bytes64 x = map (\<lambda>i. ucast (drop_bit (8 * i) x)) [0..<8]"

fun le_word :: "byte list \<Rightarrow> 'a::len word" where
  "le_word [] = 0"
| "le_word (b # bs) = ucast b OR push_bit 8 (le_word bs)"

text \<open>Network order: most significant byte first.\<close>

definition be_bytes32 :: "32 word \<Rightarrow> byte list" where
  "be_bytes32 x = rev (le_bytes32 x)"

definition be_bytes64 :: "64 word \<Rightarrow> byte list" where
  "be_bytes64 x = rev (le_bytes64 x)"

lemma length_le_bytes [simp]:
  "length (le_bytes32 x) = 4" "length (le_bytes64 y) = 8"
  "length (be_bytes32 x) = 4" "length (be_bytes64 y) = 8"
  by (simp_all add: le_bytes32_def le_bytes64_def be_bytes32_def be_bytes64_def)

section \<open>The conversions are byte reversals\<close>

text \<open>
  Bit \<open>n\<close> of a converted word is the bit at the same place of the mirrored byte.
\<close>

lemma byte_masks32:
  "(0xff000000 :: 32 word) = push_bit 24 (mask 8)" "(0x00ff0000 :: 32 word) = push_bit 16 (mask 8)"
  "(0x0000ff00 :: 32 word) = push_bit 8 (mask 8)" "(0x000000ff :: 32 word) = mask 8"
  by (simp_all add: mask_eq_exp_minus_1)

lemma byte_masks64:
  "(0xff00000000000000 :: 64 word) = push_bit 56 (mask 8)"
  "(0x00ff000000000000 :: 64 word) = push_bit 48 (mask 8)"
  "(0x0000ff0000000000 :: 64 word) = push_bit 40 (mask 8)"
  "(0x000000ff00000000 :: 64 word) = push_bit 32 (mask 8)"
  "(0x00000000ff000000 :: 64 word) = push_bit 24 (mask 8)"
  "(0x0000000000ff0000 :: 64 word) = push_bit 16 (mask 8)"
  "(0x000000000000ff00 :: 64 word) = push_bit 8 (mask 8)"
  "(0x00000000000000ff :: 64 word) = mask 8"
  by (simp_all add: mask_eq_exp_minus_1)

lemma bit_masked_drop:
  fixes x :: "'a::len word"
  shows "bit (drop_bit k (x AND push_bit m (mask 8))) n \<longleftrightarrow> m \<le> n + k \<and> n + k < m + 8 \<and> bit x (n + k)"
  using bit_imp_le_length [of x "n + k"] by (auto simp: bit_simps add.commute)

lemma bit_masked_push:
  fixes x :: "'a::len word"
  shows "bit (push_bit k (x AND push_bit m (mask 8))) n \<longleftrightarrow>
    n < LENGTH('a) \<and> k \<le> n \<and> m \<le> n - k \<and> n - k < m + 8 \<and> bit x (n - k)"
  using bit_imp_le_length [of x "n - k"] by (auto simp: bit_simps)

lemma bit_htonl_bytes:
  "bit (htonl x) n \<longleftrightarrow>
     (24 \<le> n + 24 \<and> n + 24 < 32 \<and> bit x (n + 24)) \<or> (16 \<le> n + 8 \<and> n + 8 < 24 \<and> bit x (n + 8))
     \<or> (n < 32 \<and> 8 \<le> n \<and> 8 \<le> n - 8 \<and> n - 8 < 16 \<and> bit x (n - 8))
     \<or> (n < 32 \<and> 24 \<le> n \<and> n - 24 < 8 \<and> bit x (n - 24))"
  unfolding htonl_def byte_masks32 bit_or_iff
  using bit_masked_drop [of 24 x 24 n] bit_masked_drop [of 8 x 16 n]
    bit_masked_push [of 8 x 8 n] bit_masked_push [of 24 x 0 n] by simp

lemma bit_htonll_bytes:
  "bit (htonll x) n \<longleftrightarrow>
     (n + 56 < 64 \<and> bit x (n + 56)) \<or> (48 \<le> n + 40 \<and> n + 40 < 56 \<and> bit x (n + 40))
     \<or> (40 \<le> n + 24 \<and> n + 24 < 48 \<and> bit x (n + 24)) \<or> (32 \<le> n + 8 \<and> n + 8 < 40 \<and> bit x (n + 8))
     \<or> (n < 64 \<and> 8 \<le> n \<and> 24 \<le> n - 8 \<and> n - 8 < 32 \<and> bit x (n - 8))
     \<or> (n < 64 \<and> 24 \<le> n \<and> 16 \<le> n - 24 \<and> n - 24 < 24 \<and> bit x (n - 24))
     \<or> (n < 64 \<and> 40 \<le> n \<and> 8 \<le> n - 40 \<and> n - 40 < 16 \<and> bit x (n - 40))
     \<or> (n < 64 \<and> 56 \<le> n \<and> n - 56 < 8 \<and> bit x (n - 56))"
  unfolding htonll_def byte_masks64 bit_or_iff
  using bit_masked_drop [of 56 x 56 n] bit_masked_drop [of 40 x 48 n] bit_masked_drop [of 24 x 40 n]
    bit_masked_drop [of 8 x 32 n] bit_masked_push [of 8 x 24 n] bit_masked_push [of 24 x 16 n]
    bit_masked_push [of 40 x 8 n] bit_masked_push [of 56 x 0 n] by simp

lemma htonl_bytes:
  "(ucast (drop_bit 0 (htonl x)) :: byte) = ucast (drop_bit 24 x)"
  "(ucast (drop_bit 8 (htonl x)) :: byte) = ucast (drop_bit 16 x)"
  "(ucast (drop_bit 16 (htonl x)) :: byte) = ucast (drop_bit 8 x)"
  "(ucast (drop_bit 24 (htonl x)) :: byte) = ucast (drop_bit 0 x)"
  by (rule bit_word_eqI; auto simp: bit_simps bit_htonl_bytes ac_simps)+

lemma htonll_bytes:
  "(ucast (drop_bit 0 (htonll x)) :: byte) = ucast (drop_bit 56 x)"
  "(ucast (drop_bit 8 (htonll x)) :: byte) = ucast (drop_bit 48 x)"
  "(ucast (drop_bit 16 (htonll x)) :: byte) = ucast (drop_bit 40 x)"
  "(ucast (drop_bit 24 (htonll x)) :: byte) = ucast (drop_bit 32 x)"
  "(ucast (drop_bit 32 (htonll x)) :: byte) = ucast (drop_bit 24 x)"
  "(ucast (drop_bit 40 (htonll x)) :: byte) = ucast (drop_bit 16 x)"
  "(ucast (drop_bit 48 (htonll x)) :: byte) = ucast (drop_bit 8 x)"
  "(ucast (drop_bit 56 (htonll x)) :: byte) = ucast (drop_bit 0 x)"
  by (rule bit_word_eqI; auto simp: bit_simps bit_htonll_bytes ac_simps)+

lemma le_bytes32_htonl: "le_bytes32 (htonl x) = be_bytes32 x"
  using htonl_bytes [of x] by (simp add: le_bytes32_def be_bytes32_def upt_rec)

lemma le_bytes64_htonll: "le_bytes64 (htonll x) = be_bytes64 x"
  using htonll_bytes [of x] by (simp add: le_bytes64_def be_bytes64_def upt_rec)

section \<open>Reading back what was stored\<close>

lemma bit_le_word:
  "bit (le_word bs :: 'a::len word) n \<longleftrightarrow>
     n < LENGTH('a) \<and> n < 8 * length bs \<and> bit (bs ! (n div 8)) (n mod 8)"
proof (induction bs arbitrary: n)
  case Nil
  then show ?case by simp
next
  case (Cons b bs)
  show ?case
  proof (cases "n < 8")
    case True
    then show ?thesis by (auto simp: bit_simps)
  next
    case False
    then have "n div 8 = Suc ((n - 8) div 8)" and "n mod 8 = (n - 8) mod 8"
      by (simp_all add: le_div_geq le_mod_geq)
    moreover have "\<not> bit b n"
      using False bit_imp_le_length [of b n] by auto
    ultimately show ?thesis
      using False Cons.IH [of "n - 8"] by (auto simp: bit_simps)
  qed
qed

lemma bit_le_bytes64: "i < 8 \<Longrightarrow> k < 8 \<Longrightarrow> bit (le_bytes64 x ! i) k \<longleftrightarrow> bit x (8 * i + k)"
  by (simp add: le_bytes64_def bit_simps)

lemma bit_le_bytes32: "i < 4 \<Longrightarrow> k < 8 \<Longrightarrow> bit (le_bytes32 x ! i) k \<longleftrightarrow> bit x (8 * i + k)"
  by (simp add: le_bytes32_def bit_simps)

lemma le_word_le_bytes64: "le_word (le_bytes64 x) = x"
proof (rule bit_word_eqI)
  fix n assume "n < LENGTH(64)"
  then have "n < 64" and "n div 8 < 8" by simp_all
  then show "bit (le_word (le_bytes64 x) :: 64 word) n = bit x n"
    by (simp add: bit_le_word bit_le_bytes64)
qed

lemma le_word_le_bytes32: "le_word (le_bytes32 x) = x"
proof (rule bit_word_eqI)
  fix n assume "n < LENGTH(32)"
  then have "n < 32" and "n div 8 < 4" by simp_all
  then show "bit (le_word (le_bytes32 x) :: 32 word) n = bit x n"
    by (simp add: bit_le_word bit_le_bytes32)
qed

lemma le_bytes64_inject: "le_bytes64 x = le_bytes64 y \<longleftrightarrow> x = y"
  by (metis le_word_le_bytes64)

lemma le_bytes32_inject: "le_bytes32 x = le_bytes32 y \<longleftrightarrow> x = y"
  by (metis le_word_le_bytes32)

text \<open>The conversions are involutions, so \<open>ntohl\<close>/\<open>ntohll\<close> undo \<open>htonl\<close>/\<open>htonll\<close>.\<close>

lemma ntohll_htonll [simp]: "ntohll (htonll x) = x"
proof -
  have "le_bytes64 (htonll (htonll x)) = le_bytes64 x"
    using htonll_bytes [of "htonll x"] htonll_bytes [of x]
    by (simp add: le_bytes64_def upt_rec)
  then show ?thesis by (simp add: ntohll_def le_bytes64_inject)
qed

lemma ntohl_htonl [simp]: "ntohl (htonl x) = x"
proof -
  have "le_bytes32 (htonl (htonl x)) = le_bytes32 x"
    using htonl_bytes [of "htonl x"] htonl_bytes [of x]
    by (simp add: le_bytes32_def upt_rec)
  then show ?thesis by (simp add: ntohl_def le_bytes32_inject)
qed

text \<open>An integer read from network-order bytes is the integer that was written.\<close>

lemma ntohll_le_word_be_bytes64 [simp]: "ntohll (le_word (be_bytes64 x)) = x"
  by (simp flip: le_bytes64_htonll add: le_word_le_bytes64)

lemma ntohl_le_word_be_bytes32 [simp]: "ntohl (le_word (be_bytes32 x)) = x"
  by (simp flip: le_bytes32_htonl add: le_word_le_bytes32)

end
