(* ===== verification/Atp_Slice.thy ===== *)
theory Atp_Slice
  imports Atp_Prelude
begin

text \<open>
  The class \<open>Slice\<close> of \<open>app/atp_slice.hpp\<close>: a pointer and a length that borrow bytes owned by
  someone else. The pointer is modelled by the bytes of its object from the pointer to the end
  of the object, so that reading past the object is a fault. How long the object lives is the
  caller's business, as the class comment says, and is not modelled.
\<close>

record slice =
  slice_data :: "byte list"
  slice_size :: nat

section \<open>Constructors and observers\<close>

definition Slice :: slice where
  "Slice = \<lparr>slice_data = [0], slice_size = 0\<rparr>"

definition Slice_ptr :: "byte list \<Rightarrow> nat \<Rightarrow> slice" where
  "Slice_ptr s n = \<lparr>slice_data = s, slice_size = n\<rparr>"

definition Slice_cstr :: "byte list \<Rightarrow> slice result" where
  "Slice_cstr s = bnd (strlen s) (\<lambda>n. Inr \<lparr>slice_data = s, slice_size = n\<rparr>)"

text \<open>A \<open>std::string\<close> is its bytes; the array behind \<open>data()\<close> has a NUL after them.\<close>

definition Slice_string :: "byte list \<Rightarrow> slice" where
  "Slice_string s = \<lparr>slice_data = s @ [0], slice_size = length s\<rparr>"

definition slice_empty :: "slice \<Rightarrow> bool" where
  "slice_empty s \<longleftrightarrow> slice_size s = 0"

definition slice_clear :: "slice \<Rightarrow> slice" where
  "slice_clear s = s\<lparr>slice_data := [0], slice_size := 0\<rparr>"

definition toString :: "slice \<Rightarrow> byte list result" where
  "toString s = mem_read (slice_data s) 0 (slice_size s)"

definition slice_at :: "slice \<Rightarrow> nat \<Rightarrow> byte result" where
  "slice_at s pos =
     assert_that (pos < slice_size s)
       (if pos < length (slice_data s) then Inr (slice_data s ! pos) else Inl OutOfBounds)"

text \<open>\<open>memcmp\<close> on two blocks of \<open>n\<close> bytes, reduced to what \<open>operator==\<close> asks of it.\<close>

definition memcmp_eq :: "byte list \<Rightarrow> byte list \<Rightarrow> nat \<Rightarrow> bool result" where
  "memcmp_eq a b n = bnd (mem_read a 0 n) (\<lambda>x. bnd (mem_read b 0 n) (\<lambda>y. Inr (x = y)))"

definition slice_eq :: "slice \<Rightarrow> slice \<Rightarrow> bool result" where
  "slice_eq x y =
     (if slice_size x = slice_size y
      then memcmp_eq (slice_data x) (slice_data y) (slice_size x) else Inr False)"

definition slice_neq :: "slice \<Rightarrow> slice \<Rightarrow> bool result" where
  "slice_neq x y = bnd (slice_eq x y) (\<lambda>e. Inr (\<not> e))"

section \<open>Well-formed slices\<close>

definition slice_wf :: "slice \<Rightarrow> bool" where
  "slice_wf s \<longleftrightarrow> slice_size s \<le> length (slice_data s)"

definition slice_bytes :: "slice \<Rightarrow> byte list" where
  "slice_bytes s = take (slice_size s) (slice_data s)"

lemma slice_wf_constructors [simp]:
  "slice_wf Slice" "slice_wf (Slice_string str)" "slice_wf (slice_clear s)"
  "n \<le> length p \<Longrightarrow> slice_wf (Slice_ptr p n)"
  by (simp_all add: slice_wf_def Slice_def Slice_string_def slice_clear_def Slice_ptr_def)

lemma Slice_cstr_wf: "Slice_cstr p = Inr s \<Longrightarrow> slice_wf s"
  by (auto simp: Slice_cstr_def strlen_def slice_wf_def bnd_simps length_takeWhile_le split: if_splits)

lemma toString_wf: "slice_wf s \<Longrightarrow> toString s = Inr (slice_bytes s)"
  by (simp add: toString_def slice_bytes_def slice_wf_def mem_simps)

lemma length_slice_bytes: "slice_wf s \<Longrightarrow> length (slice_bytes s) = slice_size s"
  by (simp add: slice_bytes_def slice_wf_def)

lemma slice_at_bytes:
  "slice_wf s \<Longrightarrow> slice_at s i = (if i < slice_size s then Inr (slice_bytes s ! i) else Inl AssertFail)"
  by (auto simp: slice_at_def slice_bytes_def slice_wf_def)

lemma Slice_cstr_bytes:
  "0 \<in> set p \<Longrightarrow> bnd (Slice_cstr p) toString = Inr (takeWhile (\<lambda>c. c \<noteq> 0) p)"
  by (simp add: Slice_cstr_def strlen_def toString_def mem_simps length_takeWhile_le flip: takeWhile_eq_take)

text \<open>Equality of slices is equality of the bytes they show.\<close>

lemma slice_eq_iff_bytes:
  assumes "slice_wf x" and "slice_wf y"
  shows "slice_eq x y = Inr (slice_bytes x = slice_bytes y)"
proof (cases "slice_size x = slice_size y")
  case True
  with assms show ?thesis
    by (simp add: slice_eq_def memcmp_eq_def mem_simps slice_wf_def slice_bytes_def)
next
  case False
  then have "slice_bytes x \<noteq> slice_bytes y"
    using assms length_slice_bytes by metis
  with False show ?thesis by (simp add: slice_eq_def)
qed

end
