(* ===== verification/Byte_Queue.thy ===== *)
theory Byte_Queue
  imports Atp_Prelude
begin

text \<open>
  The contract of a byte queue: bytes appended at one end leave at the other end in the same
  order. \<open>ByteBuffer\<close> with its writer and reader provides it, \<open>Connection\<close> relies on it for its
  read and write buffers. The laws are stated over an abstraction function into byte lists.
\<close>

text \<open>Operations of a client on a queue, and what they do to the list of pending bytes.\<close>

datatype queue_op = Append "byte list" | Remove nat

fun queue_spec :: "byte list \<Rightarrow> queue_op list \<Rightarrow> byte list" where
  "queue_spec bs [] = bs"
| "queue_spec bs (Append d # ops) = queue_spec (bs @ d) ops"
| "queue_spec bs (Remove n # ops) = queue_spec (drop n bs) ops"

text \<open>All bytes that a sequence of operations appends.\<close>

fun appended :: "queue_op list \<Rightarrow> byte list" where
  "appended [] = []"
| "appended (Append d # ops) = d @ appended ops"
| "appended (Remove n # ops) = appended ops"

text \<open>The largest number of pending bytes during the operations, from \<open>n\<close> pending bytes on.\<close>

fun queue_peak :: "nat \<Rightarrow> queue_op list \<Rightarrow> nat" where
  "queue_peak n [] = n"
| "queue_peak n (Append d # ops) = queue_peak (n + length d) ops"
| "queue_peak n (Remove k # ops) = max n (queue_peak (n - k) ops)"

lemma queue_peak_start: "n \<le> queue_peak n ops"
  by (induction n ops rule: queue_peak.induct) auto

lemma queue_spec_suffix: "\<exists>k. queue_spec bs ops = drop k (bs @ appended ops)"
proof (induction ops arbitrary: bs rule: appended.induct)
  case 1
  then show ?case by (auto intro: exI [of _ 0])
next
  case (2 d ops)
  obtain k where "queue_spec (bs @ d) ops = drop k ((bs @ d) @ appended ops)"
    using 2 by blast
  then show ?case by (metis append_assoc appended.simps(2) queue_spec.simps(2))
next
  case (3 n ops)
  obtain k where "queue_spec (drop n bs) ops = drop k (drop n bs @ appended ops)"
    using 3 by blast
  moreover have "drop n bs = drop (min n (length bs)) bs" by (simp add: min_def)
  then have "drop n bs @ appended ops = drop (min n (length bs)) (bs @ appended ops)"
    by simp
  ultimately have "queue_spec bs (Remove n # ops) = drop (k + min n (length bs)) (bs @ appended ops)"
    by simp
  then show ?case by (metis appended.simps(3))
qed

locale byte_queue =
  fixes content :: "'q \<Rightarrow> byte list"
    and invar :: "'q \<Rightarrow> bool"
    and room :: "nat \<Rightarrow> 'q \<Rightarrow> bool"
    and app :: "byte list \<Rightarrow> 'q \<Rightarrow> 'q result"
    and rm :: "nat \<Rightarrow> 'q \<Rightarrow> 'q result"
  assumes app_law:
      "invar q \<Longrightarrow> room (length d) q \<Longrightarrow> \<exists>q'. app d q = Inr q' \<and> invar q' \<and> content q' = content q @ d"
    and rm_law: "invar q \<Longrightarrow> \<exists>q'. rm n q = Inr q' \<and> invar q' \<and> content q' = drop n (content q)"
begin

text \<open>Running a sequence of operations on the queue itself.\<close>

fun run_ops :: "queue_op list \<Rightarrow> 'q \<Rightarrow> 'q result" where
  "run_ops [] q = Inr q"
| "run_ops (Append d # ops) q = bnd (app d q) (run_ops ops)"
| "run_ops (Remove n # ops) q = bnd (rm n q) (run_ops ops)"

fun room_for :: "queue_op list \<Rightarrow> 'q \<Rightarrow> bool" where
  "room_for [] q = True"
| "room_for (Append d # ops) q =
     (room (length d) q \<and> (\<forall>q'. app d q = Inr q' \<longrightarrow> room_for ops q'))"
| "room_for (Remove n # ops) q = (\<forall>q'. rm n q = Inr q' \<longrightarrow> room_for ops q')"

lemma run_ops_refines:
  "invar q \<Longrightarrow> room_for ops q \<Longrightarrow>
   \<exists>q'. run_ops ops q = Inr q' \<and> invar q' \<and> content q' = queue_spec (content q) ops"
proof (induction ops arbitrary: q rule: appended.induct)
  case 1
  then show ?case by simp
next
  case (2 d ops)
  then obtain q1 where "app d q = Inr q1" "invar q1" "content q1 = content q @ d"
    using app_law [of q d] by auto
  with "2.IH" [of q1] "2.prems" show ?case by simp
next
  case (3 n ops)
  then obtain q1 where "rm n q = Inr q1" "invar q1" "content q1 = drop n (content q)"
    using rm_law [of q n] by blast
  with "3.IH" [of q1] "3.prems" show ?case by simp
qed

lemma app_then_rm_all:
  assumes "invar q" and "room (length d) q"
  shows "\<exists>q'. bnd (app d q) (rm (length (content q))) = Inr q' \<and> invar q' \<and> content q' = d"
proof -
  obtain q1 where "app d q = Inr q1" "invar q1" "content q1 = content q @ d"
    using app_law assms by blast
  then show ?thesis using rm_law [of q1 "length (content q)"] by auto
qed

end

end
