(* ===== verification/Byte_Buffer.thy ===== *)
theory Byte_Buffer
  imports Byte_Order Atp_Slice Byte_Queue
begin

text \<open>
  \<open>net/atp_buffer.hpp\<close>: the class \<open>ByteBuffer\<close> and the two views of it, \<open>ByteBufferedWriter\<close>
  and \<open>ByteBufferedReader\<close>. A buffer is one heap array with a read index, a write index and a
  reserved header area; the bytes between the indices are the unread content.

  The operator \<open>new(std::nothrow)\<close> is a predicate \<open>ok\<close> on the requested size: an allocation of
  \<open>n\<close> bytes succeeds when \<open>ok n\<close>. All indices are \<open>size_t\<close>.
\<close>

section \<open>State\<close>

record byte_buffer =
  buff :: "byte list"
  caps :: nat
  read_index :: nat
  write_index :: nat
  reserved_prepend_size :: nat

definition RESERVED_PREPEND_SIZE :: nat where
  "RESERVED_PREPEND_SIZE = 8"

definition INIT_BUFFER_SIZE :: nat where
  "INIT_BUFFER_SIZE = 1024"

definition RETRIABLE_ERROR :: int where
  "RETRIABLE_ERROR = -11"

definition new_char :: "(nat \<Rightarrow> bool) \<Rightarrow> nat \<Rightarrow> byte list option" where
  "new_char ok n = (if ok n then Some (replicate n 0) else None)"

section \<open>ByteBuffer\<close>

definition ByteBuffer :: "(nat \<Rightarrow> bool) \<Rightarrow> nat \<Rightarrow> nat \<Rightarrow> byte_buffer result" where
  "ByteBuffer ok prepend_size initial_size =
     (let c = sz_add prepend_size initial_size in
      case new_char ok c of
        None \<Rightarrow> (if c = 0 then Inl AssertFail else Inl NullDeref)
      | Some m \<Rightarrow> Inr \<lparr>buff = m, caps = c, read_index = prepend_size, write_index = prepend_size,
                     reserved_prepend_size = prepend_size\<rparr>)"

definition swap_buff :: "byte list \<Rightarrow> byte_buffer \<Rightarrow> byte list \<times> byte_buffer" where
  "swap_buff m b = (buff b, b\<lparr>buff := m\<rparr>)"

definition updateReadWriteIndex :: "nat \<Rightarrow> nat \<Rightarrow> bool \<Rightarrow> byte_buffer \<Rightarrow> byte_buffer" where
  "updateReadWriteIndex r w increment b =
     (if increment then
        (let b1 = (if r \<noteq> 0 then b\<lparr>read_index := sz_add (read_index b) r\<rparr> else b)
         in (if w \<noteq> 0 then b1\<lparr>write_index := sz_add (write_index b1) w\<rparr> else b1))
      else
        (let b1 = (if r \<noteq> 0 then b\<lparr>read_index := r\<rparr> else b)
         in (if w \<noteq> 0 then b1\<lparr>write_index := w\<rparr> else b1)))"

definition prependableBytes :: "byte_buffer \<Rightarrow> nat" where
  "prependableBytes b = read_index b"

definition prependHeaderBytes :: "byte_buffer \<Rightarrow> nat" where
  "prependHeaderBytes b = reserved_prepend_size b"

definition writableBytes :: "byte_buffer \<Rightarrow> nat result" where
  "writableBytes b = assert_that (write_index b \<le> caps b) (Inr (caps b - write_index b))"

definition unreadBytes :: "byte_buffer \<Rightarrow> nat result" where
  "unreadBytes b = assert_that (read_index b \<le> write_index b) (Inr (write_index b - read_index b))"

definition setNewCaps :: "nat \<Rightarrow> byte_buffer \<Rightarrow> byte_buffer" where
  "setNewCaps n b = b\<lparr>caps := n\<rparr>"

definition getCaps :: "byte_buffer \<Rightarrow> nat" where
  "getCaps b = caps b"

text \<open>\<open>data()\<close>: the array from the read index on.\<close>

definition data :: "byte_buffer \<Rightarrow> byte list" where
  "data b = drop (read_index b) (buff b)"

definition reset :: "byte_buffer \<Rightarrow> byte_buffer" where
  "reset b = b\<lparr>read_index := reserved_prepend_size b, write_index := reserved_prepend_size b\<rparr>"

section \<open>ByteBufferedWriter\<close>

definition grow :: "(nat \<Rightarrow> bool) \<Rightarrow> nat \<Rightarrow> byte_buffer \<Rightarrow> byte_buffer result" where
  "grow ok len b =
     bnd (unreadBytes b) (\<lambda>unread. bnd (writableBytes b) (\<lambda>writable.
       let reserved = prependHeaderBytes b in
       if sz_add (prependableBytes b) writable < sz_add reserved len then
         (let new_size = sz_add ((2 * getCaps b) mod size_mod) len in
          case new_char ok new_size of
            None \<Rightarrow> Inl AssertFail
          | Some new_mem \<Rightarrow>
              bnd (mem_read (buff b) (read_index b) unread) (\<lambda>bs.
              bnd (mem_write new_mem reserved bs) (\<lambda>m.
                let b1 = snd (swap_buff m b);
                    b2 = updateReadWriteIndex reserved (sz_add reserved unread) False b1
                in Inr (setNewCaps new_size b2))))
       else
         assert_that (reserved < prependableBytes b)
           (bnd (mem_move (buff b) reserved (read_index b) unread) (\<lambda>m.
              let b2 = updateReadWriteIndex reserved (sz_add reserved unread) False (b\<lparr>buff := m\<rparr>) in
              bnd (unreadBytes b2) (\<lambda>u2. assert_that (u2 = unread)
                (bnd (writableBytes b2) (\<lambda>w2. assert_that (len \<le> w2) (Inr b2))))))))"

definition prependInt32 :: "32 word \<Rightarrow> byte_buffer \<Rightarrow> byte_buffer result" where
  "prependInt32 x b =
     assert_that (4 \<le> prependableBytes b)
       (let net_x = htonl x;
            b1 = updateReadWriteIndex (sz_neg 4) 0 True b
        in bnd (mem_write (buff b1) (read_index b1) (le_bytes32 net_x)) (\<lambda>m. Inr (b1\<lparr>buff := m\<rparr>)))"

definition prependInt64 :: "64 word \<Rightarrow> byte_buffer \<Rightarrow> byte_buffer result" where
  "prependInt64 x b =
     assert_that (8 \<le> prependableBytes b)
       (let net_x = htonll x;
            b1 = updateReadWriteIndex (sz_neg 8) 0 True b
        in bnd (mem_write (buff b1) (read_index b1) (le_bytes64 net_x)) (\<lambda>m. Inr (b1\<lparr>buff := m\<rparr>)))"

text \<open>\<open>append(const char*, size_t)\<close>: \<open>d\<close> is what the source pointer points at, \<open>len\<close> the length.\<close>

definition append :: "(nat \<Rightarrow> bool) \<Rightarrow> byte list \<Rightarrow> nat \<Rightarrow> byte_buffer \<Rightarrow> byte_buffer result" where
  "append ok d len b =
     bnd (writableBytes b) (\<lambda>writable.
     bnd (if writable < len then grow ok len b else Inr b) (\<lambda>b1.
     bnd (mem_read d 0 len) (\<lambda>bs.
     bnd (mem_write (buff b1) (write_index b1) bs) (\<lambda>m.
       Inr (updateReadWriteIndex 0 len True (b1\<lparr>buff := m\<rparr>))))))"

definition append_slice :: "(nat \<Rightarrow> bool) \<Rightarrow> slice \<Rightarrow> byte_buffer \<Rightarrow> byte_buffer result" where
  "append_slice ok s b = append ok (slice_data s) (slice_size s) b"

definition appendInt32 :: "(nat \<Rightarrow> bool) \<Rightarrow> 32 word \<Rightarrow> byte_buffer \<Rightarrow> byte_buffer result" where
  "appendInt32 ok x b = (let net_x = htonl x in append ok (le_bytes32 net_x) 4 b)"

definition appendInt64 :: "(nat \<Rightarrow> bool) \<Rightarrow> 64 word \<Rightarrow> byte_buffer \<Rightarrow> byte_buffer result" where
  "appendInt64 ok x b = (let net_x = htonll x in append ok (le_bytes64 net_x) 8 b)"

text \<open>
  \<open>write\<close>: \<open>n\<close> is what \<open>::send\<close> returned, \<open>retriable\<close> whether \<open>errno\<close> is \<open>EINTR\<close> or \<open>EAGAIN\<close>.
\<close>

definition writer_write :: "int \<Rightarrow> bool \<Rightarrow> int" where
  "writer_write n retriable = (if n < 0 \<and> retriable then RETRIABLE_ERROR else n)"

definition writer_writev :: int where
  "writer_writev = -1"

section \<open>ByteBufferedReader\<close>

definition decrease :: "(nat \<Rightarrow> bool) \<Rightarrow> nat \<Rightarrow> byte_buffer \<Rightarrow> byte_buffer result" where
  "decrease ok len b =
     (if len = 0 then Inr b
      else
        bnd (unreadBytes b) (\<lambda>unread0.
        bnd (writableBytes b) (\<lambda>writable0.
          let available_len = sz_sub (sz_sub (getCaps b) (prependHeaderBytes b)) unread0 in
          bnd (if writable0 < len \<and> len \<le> available_len
               then bnd (mem_move (buff b) (prependHeaderBytes b) (read_index b) unread0) (\<lambda>m.
                      assert_that (unread0 \<noteq> 0) (Inr (b\<lparr>buff := m\<rparr>)))
               else Inr b) (\<lambda>b1.
          bnd (writableBytes b1) (\<lambda>writable.
            if len \<le> writable then
              (let reserved = prependHeaderBytes b1;
                   new_size = sz_sub (sz_add (getCaps b1) reserved) len in
               case new_char ok new_size of
                 None \<Rightarrow> Inl AssertFail
               | Some new_mem \<Rightarrow>
                   bnd (unreadBytes b1) (\<lambda>unread.
                   bnd (mem_read (buff b1) (read_index b1) unread) (\<lambda>bs.
                   bnd (mem_write new_mem reserved bs) (\<lambda>m.
                     let b2 = snd (swap_buff m (setNewCaps new_size b1)) in
                     bnd (unreadBytes b2) (\<lambda>u2.
                       Inr (updateReadWriteIndex reserved (sz_add reserved u2) False b2))))))
            else Inr b1)))))"

definition remove :: "nat \<Rightarrow> byte_buffer \<Rightarrow> byte_buffer result" where
  "remove len b =
     bnd (unreadBytes b) (\<lambda>unread.
       if len < unread then Inr (updateReadWriteIndex len 0 True b) else Inr (reset b))"

definition peekInt32 :: "byte_buffer \<Rightarrow> 32 word result" where
  "peekInt32 b =
     bnd (unreadBytes b) (\<lambda>unread.
       if unread < 4 then Inr (-1)
       else bnd (mem_read (buff b) (read_index b) 4) (\<lambda>bs. Inr (ntohl (le_word bs))))"

definition peekInt64 :: "byte_buffer \<Rightarrow> 64 word result" where
  "peekInt64 b =
     bnd (unreadBytes b) (\<lambda>unread.
       if unread < 8 then Inr (-1)
       else bnd (mem_read (buff b) (read_index b) 8) (\<lambda>bs. Inr (ntohll (le_word bs))))"

definition readInt32 :: "byte_buffer \<Rightarrow> (32 word \<times> byte_buffer) result" where
  "readInt32 b =
     bnd (peekInt32 b) (\<lambda>x.
       bnd (if x \<noteq> -1 then remove 4 b else Inr b) (\<lambda>b1. Inr (x, b1)))"

definition readInt64 :: "byte_buffer \<Rightarrow> (64 word \<times> byte_buffer) result" where
  "readInt64 b =
     bnd (peekInt64 b) (\<lambda>x.
       bnd (if x \<noteq> -1 then remove 8 b else Inr b) (\<lambda>b1. Inr (x, b1)))"

text \<open>
  What \<open>::readv\<close> did: its return value, whether \<open>errno\<close> then is retriable, and the bytes the
  kernel delivered (it fills the first vector before the second).
\<close>

record readv_result =
  rv_ret :: int
  rv_retriable :: bool
  rv_bytes :: "byte list"

definition EXTRBUFFER_SIZE :: nat where
  "EXTRBUFFER_SIZE = 65536"

definition readv_iov_count :: "nat \<Rightarrow> nat" where
  "readv_iov_count writable = (if writable < EXTRBUFFER_SIZE then 2 else 1)"

definition readv_limit :: "nat \<Rightarrow> nat" where
  "readv_limit writable =
     (if readv_iov_count writable = 2 then writable + EXTRBUFFER_SIZE else writable)"

definition reader_readv :: "(nat \<Rightarrow> bool) \<Rightarrow> readv_result \<Rightarrow> byte_buffer \<Rightarrow> (int \<times> byte_buffer) result" where
  "reader_readv ok rv b =
     bnd (writableBytes b) (\<lambda>writable.
       let n = rv_ret rv;
           first = take writable (rv_bytes rv);
           rest = drop writable (rv_bytes rv);
           extrbuffer = rest @ replicate (EXTRBUFFER_SIZE - length rest) 0
       in
       if n \<le> 0 then Inr (if rv_retriable rv then RETRIABLE_ERROR else n, b)
       else
         bnd (mem_write (buff b) (write_index b) first) (\<lambda>m.
           let b0 = b\<lparr>buff := m\<rparr> in
           if nat n \<le> writable then Inr (n, updateReadWriteIndex 0 (nat n) True b0)
           else
             (let b1 = updateReadWriteIndex 0 (getCaps b0) False b0 in
              bnd (grow ok (nat n - writable) b1) (\<lambda>b2.
              bnd (Slice_cstr extrbuffer) (\<lambda>ss.
              bnd (append_slice ok ss b2) (\<lambda>b3. Inr (n, b3)))))))"

definition consume_verify :: "nat \<Rightarrow> bool \<Rightarrow> byte_buffer \<Rightarrow> (slice \<times> byte_buffer) result" where
  "consume_verify len verifiy b =
     bnd (unreadBytes b) (\<lambda>unread.
       if len \<le> unread then bnd (remove len b) (\<lambda>b1. Inr (Slice_ptr (data b) len, b1))
       else if verifiy then Inr (Slice, b)
       else bnd (remove unread b) (\<lambda>b1. Inr (Slice_ptr (data b) unread, b1)))"

definition consume :: "nat \<Rightarrow> byte_buffer \<Rightarrow> (slice \<times> byte_buffer) result" where
  "consume len b =
     bnd (unreadBytes b) (\<lambda>unread.
       if len \<le> unread then bnd (remove len b) (\<lambda>b1. Inr (Slice_ptr (data b) len, b1))
       else bnd (remove unread b) (\<lambda>b1. Inr (Slice_ptr (data b) unread, b1)))"

section \<open>Invariant and abstraction\<close>

text \<open>
  The indices are ordered and inside the array, the reserved header fits and is not empty:
  \<open>updateReadWriteIndex\<close> takes 0 for ``leave this index alone'', so a buffer constructed with
  \<open>prepend_size = 0\<close> cannot move its read index back to 0 when it grows.
\<close>

definition buf_wf :: "byte_buffer \<Rightarrow> bool" where
  "buf_wf b \<longleftrightarrow> length (buff b) = caps b \<and> caps b < size_mod
     \<and> read_index b \<le> write_index b \<and> write_index b \<le> caps b
     \<and> 0 < reserved_prepend_size b \<and> reserved_prepend_size b \<le> caps b"

text \<open>The unread bytes, in order.\<close>

definition content :: "byte_buffer \<Rightarrow> byte list" where
  "content b = take (write_index b - read_index b) (drop (read_index b) (buff b))"

text \<open>An append of \<open>n\<close> bytes may have to allocate \<open>2 * caps + n\<close> bytes.\<close>

definition room :: "(nat \<Rightarrow> bool) \<Rightarrow> nat \<Rightarrow> byte_buffer \<Rightarrow> bool" where
  "room ok n b \<longleftrightarrow> 2 * caps b + n < size_mod \<and> ok (2 * caps b + n)"

text \<open>
  How far the array can have grown when at most \<open>m\<close> bytes were ever unread: \<open>grow\<close> takes a new array
  of twice the size plus the length asked for, and only when the old one cannot hold the header, the
  unread bytes and the new ones.
\<close>

definition caps_bound :: "nat \<Rightarrow> byte_buffer \<Rightarrow> nat" where
  "caps_bound m b = max (caps b) (3 * m + 2 * reserved_prepend_size b)"

named_theorems buf_simps \<open>observers of a well-formed buffer\<close>

lemma unreadBytes_wf [buf_simps]: "buf_wf b \<Longrightarrow> unreadBytes b = Inr (write_index b - read_index b)"
  by (simp add: unreadBytes_def buf_wf_def)

lemma writableBytes_wf [buf_simps]: "buf_wf b \<Longrightarrow> writableBytes b = Inr (caps b - write_index b)"
  by (simp add: writableBytes_def buf_wf_def)

lemma length_content [buf_simps]: "buf_wf b \<Longrightarrow> length (content b) = write_index b - read_index b"
  by (auto simp: content_def buf_wf_def)

text \<open>\<open>updateReadWriteIndex\<close> as one record update, for each way it is called.\<close>

lemma update_index_incr:
  "updateReadWriteIndex r w True b =
     b\<lparr>read_index := (if r = 0 then read_index b else sz_add (read_index b) r),
       write_index := (if w = 0 then write_index b else sz_add (write_index b) w)\<rparr>"
  by (cases b) (simp add: updateReadWriteIndex_def)

lemma update_index_set:
  "updateReadWriteIndex r w False b =
     b\<lparr>read_index := (if r = 0 then read_index b else r),
       write_index := (if w = 0 then write_index b else w)\<rparr>"
  by (cases b) (simp add: updateReadWriteIndex_def)

lemmas index_defs = update_index_incr update_index_set prependableBytes_def prependHeaderBytes_def
  getCaps_def setNewCaps_def swap_buff_def reset_def

lemma ByteBuffer_wf:
  assumes "0 < p" and "p + n < size_mod" and "ok (p + n)"
  shows "\<exists>b. ByteBuffer ok p n = Inr b \<and> buf_wf b \<and> content b = [] \<and> caps b = p + n
    \<and> reserved_prepend_size b = p"
  using assms by (simp add: ByteBuffer_def new_char_def size_simps buf_wf_def content_def Let_def)

subsection \<open>Moving the content\<close>

text \<open>Both branches of \<open>grow\<close> end in this state: the content copied to offset \<open>reserved\<close>.\<close>

lemma relocated:
  assumes "mem_write m0 r bs = Inr m" and "0 < r" and "length m0 < size_mod"
    and "reserved_prepend_size b = r"
  shows "buf_wf (b\<lparr>buff := m, caps := length m0, read_index := r, write_index := r + length bs\<rparr>)"
    and "content (b\<lparr>buff := m, caps := length m0, read_index := r, write_index := r + length bs\<rparr>) = bs"
proof -
  have "length m = length m0" using assms mem_write_length by blast
  moreover have "r + length bs \<le> length m0"
    using assms by (auto simp: mem_write_def split: if_splits)
  ultimately show "buf_wf (b\<lparr>buff := m, caps := length m0, read_index := r, write_index := r + length bs\<rparr>)"
    using assms by (simp add: buf_wf_def)
  show "content (b\<lparr>buff := m, caps := length m0, read_index := r, write_index := r + length bs\<rparr>) = bs"
    using mem_write_block [OF assms(1)] by (simp add: content_def)
qed

lemma grow_new_block:
  assumes wf: "buf_wf b" and "room ok len b"
    and small: "read_index b + (caps b - write_index b) < reserved_prepend_size b + len"
  shows "\<exists>b'. grow ok len b = Inr b' \<and> buf_wf b' \<and> content b' = content b
    \<and> caps b' = 2 * caps b + len \<and> reserved_prepend_size b' = reserved_prepend_size b
    \<and> len \<le> caps b' - write_index b'"
proof -
  let ?r = "reserved_prepend_size b"
  have n: "2 * caps b + len < size_mod" and ok: "ok (2 * caps b + len)"
    using assms by (auto simp: room_def)
  have i: "?r \<le> caps b" "0 < ?r" "write_index b \<le> caps b" "read_index b \<le> write_index b"
    "length (buff b) = caps b"
    using wf by (auto simp: buf_wf_def)
  let ?m0 = "replicate (2 * caps b + len) (0 :: byte)"
  have lc: "length (content b) \<le> caps b" using wf i by (simp add: buf_simps)
  then obtain m where m: "mem_write ?m0 ?r (content b) = Inr m"
    using i by (simp add: mem_write_def)
  let ?b' = "b\<lparr>buff := m, caps := length ?m0, read_index := ?r, write_index := ?r + length (content b)\<rparr>"
  have read: "mem_read (buff b) (read_index b) (write_index b - read_index b) = Inr (content b)"
    using i by (simp add: mem_simps content_def)
  have "grow ok len b = Inr ?b'"
    using wf i n ok small m read lc
    by (simp add: grow_def buf_simps index_defs new_char_def size_simps Let_def)
  moreover have "len \<le> caps ?b' - write_index ?b'" using i lc by simp
  ultimately show ?thesis
    using relocated [OF m, of b] i n by simp
qed

lemma grow_move_down:
  assumes wf: "buf_wf b" and "caps b + len < size_mod" and tight: "caps b - write_index b < len"
    and big: "reserved_prepend_size b + len \<le> read_index b + (caps b - write_index b)"
  shows "\<exists>b'. grow ok len b = Inr b' \<and> buf_wf b' \<and> content b' = content b
    \<and> caps b' = caps b \<and> reserved_prepend_size b' = reserved_prepend_size b
    \<and> len \<le> caps b' - write_index b'"
proof -
  let ?r = "reserved_prepend_size b"
  have i: "?r \<le> caps b" "0 < ?r" "write_index b \<le> caps b" "read_index b \<le> write_index b"
    "length (buff b) = caps b" "caps b < size_mod"
    using wf by (auto simp: buf_wf_def)
  have rlt: "?r < read_index b" using tight big by simp
  then have "?r + length (content b) \<le> length (buff b)"
    using i wf by (simp add: buf_simps)
  then obtain m where m: "mem_write (buff b) ?r (content b) = Inr m"
    by (simp add: mem_simps)
  let ?b' = "b\<lparr>buff := m, caps := length (buff b), read_index := ?r, write_index := ?r + length (content b)\<rparr>"
  have same: "b\<lparr>buff := m, read_index := ?r, write_index := ?r + (write_index b - read_index b)\<rparr> = ?b'"
    using wf i by (simp add: buf_simps)
  have mv: "mem_move (buff b) ?r (read_index b) (write_index b - read_index b) = Inr m"
    using i m by (simp add: mem_move_def mem_simps content_def)
  have wf': "buf_wf ?b'" and ct: "content ?b' = content b"
    using relocated [OF m, of b] i by auto
  have fit: "len \<le> caps ?b' - write_index ?b'" using i big wf by (simp add: buf_simps)
  have "grow ok len b = Inr ?b'"
    using wf i big rlt mv wf' fit assms(2) buf_simps(1) [OF wf'] buf_simps(2) [OF wf']
    by (simp add: grow_def buf_simps index_defs size_simps Let_def same)
  then show ?thesis using wf' ct fit i by simp
qed

text \<open>
  \<open>grow\<close> keeps the content and makes room, by a new block or by moving the content down.
\<close>

lemma grow_ok:
  assumes wf: "buf_wf b" and rm: "room ok len b" and tight: "caps b - write_index b < len"
  shows "\<exists>b'. grow ok len b = Inr b' \<and> buf_wf b' \<and> content b' = content b
    \<and> caps b' \<le> 2 * caps b + len \<and> reserved_prepend_size b' = reserved_prepend_size b
    \<and> len \<le> caps b' - write_index b' \<and> caps b' \<le> caps_bound (length (content b) + len) b"
proof (cases "read_index b + (caps b - write_index b) < reserved_prepend_size b + len")
  case True
  moreover have "caps b < length (content b) + reserved_prepend_size b + len" using True wf by (simp add: length_content)
  ultimately show ?thesis using grow_new_block [OF wf rm] by (force simp: caps_bound_def)
next
  case False
  moreover have "caps b + len < size_mod" using rm by (simp add: room_def)
  ultimately show ?thesis using grow_move_down [OF wf _ tight, of ok] by (force simp: caps_bound_def)
qed

subsection \<open>Appending and removing\<close>

lemma put_bytes:
  assumes wf: "buf_wf b" and len: "length bs \<le> caps b - write_index b"
  shows "\<exists>m. mem_write (buff b) (write_index b) bs = Inr m
    \<and> buf_wf (updateReadWriteIndex 0 (length bs) True (b\<lparr>buff := m\<rparr>))
    \<and> content (updateReadWriteIndex 0 (length bs) True (b\<lparr>buff := m\<rparr>)) = content b @ bs"
proof -
  have i: "write_index b \<le> caps b" "read_index b \<le> write_index b" "length (buff b) = caps b"
    "caps b < size_mod" using wf by (auto simp: buf_wf_def)
  then obtain m where m: "mem_write (buff b) (write_index b) bs = Inr m"
    using len by (simp add: mem_simps)
  have "length m = caps b" using mem_write_length [OF m] i by simp
  moreover have "sz_add (write_index b) (length bs) = write_index b + length bs"
    using i len by (simp add: size_simps)
  moreover have "take (write_index b + length bs - read_index b) (drop (read_index b) m) = content b @ bs"
    using mem_write_extends [OF m i(2)] by (simp add: content_def)
  ultimately show ?thesis
    using m wf i len by (auto simp: index_defs buf_wf_def content_def)
qed

lemma append_fits:
  assumes wf: "buf_wf b" and fit: "len \<le> caps b - write_index b" and src: "len \<le> length d"
  shows "\<exists>b'. append ok d len b = Inr b' \<and> buf_wf b' \<and> content b' = content b @ take len d
    \<and> caps b' = caps b \<and> reserved_prepend_size b' = reserved_prepend_size b"
proof -
  have l: "length (take len d) = len" using src by simp
  then obtain m where m: "mem_write (buff b) (write_index b) (take len d) = Inr m"
    and res: "buf_wf (updateReadWriteIndex 0 len True (b\<lparr>buff := m\<rparr>))"
      "content (updateReadWriteIndex 0 len True (b\<lparr>buff := m\<rparr>)) = content b @ take len d"
    using put_bytes [OF wf, of "take len d"] fit by (metis (full_types))
  have "append ok d len b = Inr (updateReadWriteIndex 0 len True (b\<lparr>buff := m\<rparr>))"
    using m src wf fit by (simp add: append_def buf_simps mem_simps)
  then show ?thesis using res by (simp add: index_defs)
qed

lemma append_ok:
  assumes wf: "buf_wf b" and rm: "room ok len b" and src: "len \<le> length d"
  shows "\<exists>b'. append ok d len b = Inr b' \<and> buf_wf b' \<and> content b' = content b @ take len d
    \<and> caps b' \<le> 2 * caps b + len \<and> reserved_prepend_size b' = reserved_prepend_size b
    \<and> caps b' \<le> caps_bound (length (content b) + len) b"
proof (cases "caps b - write_index b < len")
  case True
  obtain b1 where b1: "grow ok len b = Inr b1" and wf1: "buf_wf b1" and c1: "content b1 = content b"
    and f1: "len \<le> caps b1 - write_index b1" and k1: "caps b1 \<le> 2 * caps b + len"
      "reserved_prepend_size b1 = reserved_prepend_size b" "caps b1 \<le> caps_bound (length (content b) + len) b"
    using grow_ok [OF wf rm True] by blast
  have "append ok d len b = append ok d len b1"
    using True b1 f1 wf wf1 by (simp add: append_def buf_simps)
  then show ?thesis using append_fits [OF wf1 f1 src, of ok] c1 k1 by auto
next
  case False
  then show ?thesis using append_fits [OF wf _ src, of ok] by (fastforce simp: caps_bound_def)
qed

lemma remove_ok:
  assumes wf: "buf_wf b"
  shows "\<exists>b'. remove n b = Inr b' \<and> buf_wf b' \<and> content b' = drop n (content b)
    \<and> caps b' = caps b \<and> reserved_prepend_size b' = reserved_prepend_size b"
proof (cases "n < write_index b - read_index b")
  case True
  have "drop n (content b) = take (write_index b - (read_index b + n)) (drop (read_index b + n) (buff b))"
    by (simp add: content_def drop_take add.commute)
  then show ?thesis
    using True wf by (auto simp: remove_def buf_simps index_defs buf_wf_def content_def size_simps)
next
  case False
  then have "drop n (content b) = []" using wf by (simp add: buf_simps)
  then show ?thesis
    using False wf by (auto simp: remove_def buf_simps index_defs buf_wf_def content_def)
qed

interpretation bbuf: byte_queue content buf_wf "room ok" "\<lambda>d. append ok d (length d)" remove for ok
proof unfold_locales
  show "\<exists>q'. append ok d (length d) q = Inr q' \<and> buf_wf q' \<and> content q' = content q @ d"
    if "buf_wf q" "room ok (length d) q" for q d
    using append_ok [OF that, of d] by auto
  show "\<exists>q'. remove n q = Inr q' \<and> buf_wf q' \<and> content q' = drop n (content q)" if "buf_wf q" for q n
    using remove_ok [OF that] by blast
qed

lemma consume_ok:
  assumes wf: "buf_wf b"
  shows "\<exists>s b'. consume n b = Inr (s, b') \<and> slice_wf s \<and> slice_bytes s = take n (content b)
    \<and> slice_size s = min n (length (content b))
    \<and> buf_wf b' \<and> content b' = drop n (content b) \<and> caps b' = caps b"
proof -
  let ?u = "write_index b - read_index b" and ?k = "min n (write_index b - read_index b)"
  obtain b' where b': "remove ?k b = Inr b'" "buf_wf b'" "content b' = drop ?k (content b)" "caps b' = caps b"
    using remove_ok [OF wf] by blast
  have "slice_wf (Slice_ptr (data b) ?k)"
    using wf by (auto simp: data_def buf_wf_def)
  moreover have "slice_bytes (Slice_ptr (data b) ?k) = take n (content b)"
    by (simp add: slice_bytes_def Slice_ptr_def data_def content_def min.commute)
  moreover have "drop ?k (content b) = drop n (content b)"
    using wf by (auto simp: buf_simps min_def)
  moreover have "consume n b = Inr (Slice_ptr (data b) ?k, b')"
    using b' wf by (auto simp: consume_def buf_simps min_def split: if_splits)
  ultimately show ?thesis using b' wf by (auto simp: buf_simps Slice_ptr_def)
qed

subsection \<open>Integers in network order\<close>

lemma prepend_bytes:
  assumes wf: "buf_wf b" and k: "0 < length bs" "length bs \<le> read_index b"
  shows "\<exists>m. mem_write (buff b) (read_index b - length bs) bs = Inr m
    \<and> buf_wf (b\<lparr>read_index := read_index b - length bs, buff := m\<rparr>)
    \<and> content (b\<lparr>read_index := read_index b - length bs, buff := m\<rparr>) = bs @ content b"
proof -
  let ?lo = "read_index b - length bs"
  have i: "write_index b \<le> caps b" "read_index b \<le> write_index b" "length (buff b) = caps b"
    using wf by (auto simp: buf_wf_def)
  have m: "mem_write (buff b) ?lo bs = Inr (take ?lo (buff b) @ bs @ drop (read_index b) (buff b))"
    using i k by (simp add: mem_simps)
  have "drop ?lo (take ?lo (buff b) @ bs @ drop (read_index b) (buff b)) = bs @ drop (read_index b) (buff b)"
    using i by simp
  moreover have "write_index b - ?lo = length bs + (write_index b - read_index b)" using i k by simp
  ultimately have "take (write_index b - ?lo) (drop ?lo (take ?lo (buff b) @ bs @ drop (read_index b) (buff b)))
      = bs @ content b"
    by (simp add: content_def)
  then show ?thesis using m wf i k by (simp add: buf_wf_def content_def)
qed

lemma prependInt32_ok:
  assumes wf: "buf_wf b" and k: "4 \<le> read_index b"
  shows "\<exists>b'. prependInt32 x b = Inr b' \<and> buf_wf b' \<and> content b' = be_bytes32 x @ content b"
proof -
  have "sz_add (read_index b) (sz_neg 4) = read_index b - 4"
    using wf k by (intro sz_add_neg) (auto simp: buf_wf_def)
  moreover have "sz_neg 4 \<noteq> 0" by (simp add: sz_neg_nonzero size_mod_def)
  ultimately show ?thesis
    using prepend_bytes [OF wf, of "be_bytes32 x"] k
    by (auto simp: prependInt32_def index_defs le_bytes32_htonl Let_def)
qed

lemma prependInt64_ok:
  assumes wf: "buf_wf b" and k: "8 \<le> read_index b"
  shows "\<exists>b'. prependInt64 x b = Inr b' \<and> buf_wf b' \<and> content b' = be_bytes64 x @ content b"
proof -
  have "sz_add (read_index b) (sz_neg 8) = read_index b - 8"
    using wf k by (intro sz_add_neg) (auto simp: buf_wf_def)
  moreover have "sz_neg 8 \<noteq> 0" by (simp add: sz_neg_nonzero size_mod_def)
  ultimately show ?thesis
    using prepend_bytes [OF wf, of "be_bytes64 x"] k
    by (auto simp: prependInt64_def index_defs le_bytes64_htonll Let_def)
qed

lemma appendInt32_ok:
  assumes "buf_wf b" and "room ok 4 b"
  shows "\<exists>b'. appendInt32 ok x b = Inr b' \<and> buf_wf b' \<and> content b' = content b @ be_bytes32 x
    \<and> caps b' \<le> 2 * caps b + 4"
  using append_ok [OF assms, of "be_bytes32 x"] by (auto simp: appendInt32_def le_bytes32_htonl)

lemma appendInt64_ok:
  assumes "buf_wf b" and "room ok 8 b"
  shows "\<exists>b'. appendInt64 ok x b = Inr b' \<and> buf_wf b' \<and> content b' = content b @ be_bytes64 x
    \<and> caps b' \<le> 2 * caps b + 8"
  using append_ok [OF assms, of "be_bytes64 x"] by (auto simp: appendInt64_def le_bytes64_htonll)

lemma read_content_prefix:
  assumes "buf_wf b" and "k \<le> length (content b)"
  shows "mem_read (buff b) (read_index b) k = Inr (take k (content b))"
proof -
  have "k \<le> write_index b - read_index b" using assms by (simp add: buf_simps)
  moreover from this have "read_index b + k \<le> length (buff b)" using assms by (auto simp: buf_wf_def)
  ultimately show ?thesis by (simp add: mem_simps content_def min.absorb1)
qed

lemma peekInt32_ok: "buf_wf b \<Longrightarrow> content b = be_bytes32 x @ rest \<Longrightarrow> peekInt32 b = Inr x"
  using read_content_prefix [of b 4] by (simp add: peekInt32_def unreadBytes_wf flip: length_content)

lemma peekInt64_ok: "buf_wf b \<Longrightarrow> content b = be_bytes64 x @ rest \<Longrightarrow> peekInt64 b = Inr x"
  using read_content_prefix [of b 8] by (simp add: peekInt64_def unreadBytes_wf flip: length_content)

lemma peekInt32_short: "buf_wf b \<Longrightarrow> length (content b) < 4 \<Longrightarrow> peekInt32 b = Inr (-1)"
  by (simp add: peekInt32_def unreadBytes_wf flip: length_content)

lemma peekInt64_short: "buf_wf b \<Longrightarrow> length (content b) < 8 \<Longrightarrow> peekInt64 b = Inr (-1)"
  by (simp add: peekInt64_def unreadBytes_wf flip: length_content)

subsection \<open>Reading from a socket\<close>

text \<open>
  The overflow part of a read goes through \<open>Slice(const char* )\<close>, that is through \<open>strlen\<close>.
\<close>

lemma extrbuffer_cstr:
  assumes "length rest < EXTRBUFFER_SIZE \<or> 0 \<in> set rest"
  shows "\<exists>ss. Slice_cstr (rest @ replicate (EXTRBUFFER_SIZE - length rest) 0) = Inr ss \<and> slice_wf ss
    \<and> slice_size ss \<le> length rest \<and> slice_bytes ss = takeWhile (\<lambda>c. c \<noteq> 0) rest"
proof -
  let ?e = "rest @ replicate (EXTRBUFFER_SIZE - length rest) (0 :: byte)"
  have z: "0 \<in> set ?e" using assms by auto
  have tw: "takeWhile (\<lambda>c. c \<noteq> 0) ?e = takeWhile (\<lambda>c. c \<noteq> 0) rest"
    by (rule takeWhile_nonzero_zeros)
  define ss where "ss = Slice_ptr ?e (length (takeWhile (\<lambda>c. c \<noteq> 0) rest))"
  have ss: "Slice_cstr ?e = Inr ss" "slice_data ss = ?e"
    "slice_size ss = length (takeWhile (\<lambda>c. c \<noteq> 0) rest)"
    using z tw by (simp_all add: Slice_cstr_def strlen_def Slice_ptr_def ss_def)
  moreover have "slice_bytes ss = takeWhile (\<lambda>c. c \<noteq> 0) rest"
    using ss(2,3) tw by (metis slice_bytes_def takeWhile_eq_take)
  ultimately show ?thesis
    using Slice_cstr_wf by (auto simp: length_takeWhile_le)
qed

lemma fill_buffer:
  assumes wf: "buf_wf b" and len: "length bs = caps b - write_index b"
  shows "\<exists>m. mem_write (buff b) (write_index b) bs = Inr m
    \<and> buf_wf (b\<lparr>buff := m, write_index := caps b\<rparr>)
    \<and> content (b\<lparr>buff := m, write_index := caps b\<rparr>) = content b @ bs"
proof -
  have i: "write_index b \<le> caps b" "caps b < size_mod" using wf by (auto simp: buf_wf_def)
  then have "updateReadWriteIndex 0 (length bs) True (b\<lparr>buff := m\<rparr>) = b\<lparr>buff := m, write_index := caps b\<rparr>" for m
    using len by (auto simp: index_defs size_simps)
  then show ?thesis using put_bytes [OF wf, of bs] len by auto
qed

lemma readv_overflow:
  assumes wf: "buf_wf b" and w: "w = caps b - write_index b" "w < length bs"
    and rm: "room ok (length bs - w) b"
    and nul: "length bs - w < EXTRBUFFER_SIZE \<or> 0 \<in> set (drop w bs)"
  shows "\<exists>b'. reader_readv ok \<lparr>rv_ret = int (length bs), rv_retriable = e, rv_bytes = bs\<rparr> b = Inr (int (length bs), b')
    \<and> buf_wf b' \<and> content b' = content b @ take w bs @ takeWhile (\<lambda>c. c \<noteq> 0) (drop w bs)"
proof -
  let ?rest = "drop w bs"
  obtain m where m: "mem_write (buff b) (write_index b) (take w bs) = Inr m"
    and wf1: "buf_wf (b\<lparr>buff := m, write_index := caps b\<rparr>)"
    and c1: "content (b\<lparr>buff := m, write_index := caps b\<rparr>) = content b @ take w bs"
    using fill_buffer [OF wf, of "take w bs"] w by auto
  let ?b1 = "b\<lparr>buff := m, write_index := caps b\<rparr>"
  obtain b2 where b2: "grow ok (length bs - w) ?b1 = Inr b2" "buf_wf b2" "content b2 = content ?b1"
    and f2: "length bs - w \<le> caps b2 - write_index b2"
    using grow_ok [OF wf1, of ok "length bs - w"] rm w by (auto simp: room_def)
  obtain ss where ss: "Slice_cstr (?rest @ replicate (EXTRBUFFER_SIZE - length ?rest) 0) = Inr ss"
    "slice_wf ss" "slice_size ss \<le> length ?rest" "slice_bytes ss = takeWhile (\<lambda>c. c \<noteq> 0) ?rest"
    using extrbuffer_cstr [of ?rest] nul by auto
  obtain b3 where b3: "append_slice ok ss b2 = Inr b3" "buf_wf b3" "content b3 = content b2 @ slice_bytes ss"
    using append_fits [OF b2(2), of "slice_size ss" "slice_data ss" ok] ss(2,3) f2
    by (auto simp: append_slice_def slice_bytes_def slice_wf_def)
  have c0: "caps b \<noteq> 0" using wf by (auto simp: buf_wf_def)
  have "reader_readv ok \<lparr>rv_ret = int (length bs), rv_retriable = e, rv_bytes = bs\<rparr> b = Inr (int (length bs), b3)"
    using wf w m b2 ss b3 c0 by (auto simp: reader_readv_def buf_simps index_defs Let_def)
  then show ?thesis using b3 b2 c1 ss by auto
qed

lemma readv_full_faults:
  assumes wf: "buf_wf b" and w: "w = caps b - write_index b" "w < length bs"
    and rm: "room ok (length bs - w) b"
    and full: "length bs - w = EXTRBUFFER_SIZE" "0 \<notin> set (drop w bs)"
  shows "reader_readv ok \<lparr>rv_ret = int (length bs), rv_retriable = e, rv_bytes = bs\<rparr> b = Inl OutOfBounds"
proof -
  obtain m where m: "mem_write (buff b) (write_index b) (take w bs) = Inr m"
    and wf1: "buf_wf (b\<lparr>buff := m, write_index := caps b\<rparr>)"
    using fill_buffer [OF wf, of "take w bs"] w by auto
  obtain b2 where "grow ok (length bs - w) (b\<lparr>buff := m, write_index := caps b\<rparr>) = Inr b2"
    using grow_ok [OF wf1, of ok "length bs - w"] rm w by (auto simp: room_def)
  moreover have "Slice_cstr (drop w bs) = Inl OutOfBounds"
    using full by (simp add: Slice_cstr_def strlen_def)
  moreover have "caps b \<noteq> 0" using wf by (auto simp: buf_wf_def)
  ultimately show ?thesis
    using wf w m full by (auto simp: reader_readv_def buf_simps index_defs Let_def)
qed

lemma readv_fits:
  assumes wf: "buf_wf b" and bs: "bs \<noteq> []" "length bs \<le> caps b - write_index b"
  shows "\<exists>b'. reader_readv ok \<lparr>rv_ret = int (length bs), rv_retriable = e, rv_bytes = bs\<rparr> b = Inr (int (length bs), b')
    \<and> buf_wf b' \<and> content b' = content b @ bs"
  using put_bytes [OF wf bs(2)] bs wf by (auto simp: reader_readv_def buf_simps Let_def)

lemma readv_failed:
  assumes "buf_wf b" and "rv_ret rv \<le> 0"
  shows "reader_readv ok rv b = Inr (if rv_retriable rv then RETRIABLE_ERROR else rv_ret rv, b)"
  using assms by (simp add: reader_readv_def buf_simps Let_def)

subsection \<open>Shrinking\<close>

lemma decrease_shrinks:
  assumes wf: "buf_wf b" and len: "0 < len" "len \<le> caps b - write_index b"
    and size: "caps b + reserved_prepend_size b < size_mod"
    and ok: "ok (caps b + reserved_prepend_size b - len)"
  shows "\<exists>b'. decrease ok len b = Inr b' \<and> buf_wf b' \<and> content b' = content b
    \<and> caps b' = caps b + reserved_prepend_size b - len"
proof -
  let ?r = "reserved_prepend_size b" and ?n = "caps b + reserved_prepend_size b - len"
  have i: "write_index b \<le> caps b" "read_index b \<le> write_index b" "length (buff b) = caps b" "0 < ?r"
    using wf by (auto simp: buf_wf_def)
  have fits: "?r + length (content b) \<le> length (replicate ?n (0 :: byte))"
    using i len wf by (simp add: buf_simps)
  then obtain m where m: "mem_write (replicate ?n 0) ?r (content b) = Inr m"
    by (simp add: mem_simps)
  let ?b' = "b\<lparr>buff := m, caps := length (replicate ?n (0 :: byte)), read_index := ?r, write_index := ?r + length (content b)\<rparr>"
  have read: "mem_read (buff b) (read_index b) (write_index b - read_index b) = Inr (content b)"
    using i by (simp add: mem_simps content_def)
  have b2: "unreadBytes (b\<lparr>caps := ?n, buff := m\<rparr>) = Inr (write_index b - read_index b)"
    using i by (simp add: unreadBytes_def)
  have "decrease ok len b = Inr ?b'"
    using wf i len size ok m read b2
    by (simp add: decrease_def buf_simps index_defs new_char_def size_simps Let_def)
  then show ?thesis using relocated [OF m, of b] i len size by auto
qed

text \<open>
  When the tail is too short and the whole free space is enough, \<open>decrease\<close> moves the bytes but
  not the indices: the first \<open>read_index - reserved\<close> unread bytes are lost and the last ones
  appear twice.
\<close>

lemma decrease_moves_without_indices:
  assumes wf: "buf_wf b" and len: "caps b - write_index b < len"
      "len \<le> caps b - reserved_prepend_size b - length (content b)"
    and d: "d = read_index b - reserved_prepend_size b" "reserved_prepend_size b \<le> read_index b"
      "d \<le> length (content b)" "content b \<noteq> []"
  shows "\<exists>b'. decrease ok len b = Inr b' \<and> caps b' = caps b
    \<and> content b' = drop d (content b) @ drop (length (content b) - d) (content b)"
proof -
  let ?r = "reserved_prepend_size b" and ?u = "write_index b - read_index b"
  have i: "write_index b \<le> caps b" "read_index b \<le> write_index b" "length (buff b) = caps b" "0 < ?r"
    "caps b < size_mod" using wf by (auto simp: buf_wf_def)
  have u: "length (content b) = ?u" using wf by (simp add: buf_simps)
  let ?m = "take ?r (buff b) @ content b @ drop (?r + ?u) (buff b)"
  have mv: "mem_move (buff b) ?r (read_index b) ?u = Inr ?m"
    using i d u by (simp add: mem_move_def mem_simps content_def)
  have "sz_sub (sz_sub (caps b) ?r) ?u = caps b - ?r - ?u"
    using i d by (simp add: size_simps)
  then have dec: "decrease ok len b = Inr (b\<lparr>buff := ?m\<rparr>)"
    using wf i len d u mv by (auto simp: decrease_def buf_simps index_defs Let_def writableBytes_def)
  have r: "read_index b = ?r + d" using d(1,2) by simp
  have lr: "length (take ?r (buff b)) = ?r" using i d(2) by simp
  have "drop (?r + d) ?m = drop d (content b) @ drop (?r + ?u) (buff b)"
    using d(3) lr by simp
  moreover have "take d (drop (?r + ?u) (buff b)) = drop (?u - d) (content b)"
  proof -
    have "content b = take ?u (drop (?r + d) (buff b))" by (simp only: content_def r)
    moreover have "?u - d + (?r + d) = ?r + ?u" and "?u - (?u - d) = d" using d(3) u by simp_all
    ultimately show ?thesis by (simp only: drop_take drop_drop)
  qed
  moreover have "length (drop d (content b)) = ?u - d" and "?u = (?u - d) + d" using d(3) u by simp_all
  ultimately have "take ?u (drop (?r + d) ?m) = drop d (content b) @ drop (?u - d) (content b)"
    by (metis append_eq_conv_conj take_add take_append)
  then have "content (b\<lparr>buff := ?m\<rparr>) = drop d (content b) @ drop (?u - d) (content b)"
    by (simp add: content_def [of "b\<lparr>buff := ?m\<rparr>"] flip: r)
  then show ?thesis using dec u by simp
qed

section \<open>Properties\<close>

text \<open>Address space that is enough for a whole sequence of operations.\<close>

lemma append_bounded:
  assumes "buf_wf b" and "caps b \<le> K" and "3 * M + 2 * reserved_prepend_size b \<le> K" and "2 * K + M < size_mod"
    and "\<forall>n \<le> 2 * K + M. ok n" and "length (content b) + length d \<le> M"
  shows "room ok (length d) b" and "append ok d (length d) b = Inr b' \<Longrightarrow> buf_wf b' \<and> content b' = content b @ d \<and>
    caps b' \<le> K \<and> reserved_prepend_size b' = reserved_prepend_size b"
proof -
  have "2 * caps b + length d \<le> 2 * K + M" using assms(2,6) by simp
  then show rm: "room ok (length d) b" using assms(4,5) by (simp add: room_def)
  have "caps_bound (length (content b) + length d) b \<le> K" using assms(2,3,6) by (simp add: caps_bound_def)
  then show "append ok d (length d) b = Inr b' \<Longrightarrow> buf_wf b' \<and> content b' = content b @ d \<and>
    caps b' \<le> K \<and> reserved_prepend_size b' = reserved_prepend_size b"
    using append_ok [OF assms(1) rm, of d] by auto
qed

lemma bounded_run:
  assumes "2 * K + M < size_mod" and "\<forall>n \<le> 2 * K + M. ok n"
  shows "buf_wf b \<Longrightarrow> caps b \<le> K \<Longrightarrow> 3 * M + 2 * reserved_prepend_size b \<le> K \<Longrightarrow> queue_peak (length (content b)) ops \<le> M \<Longrightarrow>
    bbuf.room_for ok ops b \<and> (\<forall>b'. bbuf.run_ops ok ops b = Inr b' \<longrightarrow> caps b' \<le> K)"
proof (induction ops arbitrary: b rule: appended.induct)
  case (2 d ops)
  have "length (content b) + length d \<le> M" using "2.prems"(4) queue_peak_start [of "length (content b) + length d" ops] by simp
  note ap = append_bounded [OF "2.prems"(1-3) assms this]
  have "bbuf.room_for ok ops b1 \<and> (\<forall>b'. bbuf.run_ops ok ops b1 = Inr b' \<longrightarrow> caps b' \<le> K)" if "append ok d (length d) b = Inr b1" for b1
    using ap(2) [OF that] "2.prems" by (intro "2.IH") auto
  then show ?case using ap(1) by (auto simp: bnd_eq_Inr)
next
  case (3 n ops)
  have "bbuf.room_for ok ops b1 \<and> (\<forall>b'. bbuf.run_ops ok ops b1 = Inr b' \<longrightarrow> caps b' \<le> K)" if "remove n b = Inr b1" for b1
    using remove_ok [OF "3.prems"(1), of n] that "3.prems" by (intro "3.IH") auto
  then show ?case by (auto simp: bnd_eq_Inr)
qed auto

text \<open>
  C1. A \<open>ByteBuffer\<close> is a byte queue: any sequence of appends and removes, however long, run on a
  well-formed buffer ends without a fault in a well-formed buffer whose unread bytes are those of the
  list specification (appended bytes come out in order, none is lost or duplicated). The array stays
  within a bound that depends only on its first size and on the largest number of bytes that were
  unread at a time; the bound is such that \<open>size_t\<close> does not overflow, and the allocator serves
  sizes up to about twice the bound.
\<close>

theorem buffer_refines_queue:
  assumes "buf_wf b" and "M = queue_peak (length (content b)) ops" and "K = caps_bound M b"
    and "2 * K + M < size_mod" and "\<forall>n \<le> 2 * K + M. ok n"
  shows "\<exists>b'. bbuf.run_ops ok ops b = Inr b' \<and> buf_wf b' \<and> content b' = queue_spec (content b) ops \<and> caps b' \<le> K"
proof -
  have "caps b \<le> K" "3 * M + 2 * reserved_prepend_size b \<le> K" using assms(3) by (simp_all add: caps_bound_def)
  then have "bbuf.room_for ok ops b \<and> (\<forall>b'. bbuf.run_ops ok ops b = Inr b' \<longrightarrow> caps b' \<le> K)"
    using assms(2) by (intro bounded_run [OF assms(4,5) assms(1)]) simp_all
  then show ?thesis using bbuf.run_ops_refines [OF assms(1)] by blast
qed

definition sample_buffer :: byte_buffer where
  "sample_buffer = \<lparr>buff = [0, 0, 0, 0, 0, 0, 0, 0, 1, 2, 3, 0], caps = 12, read_index = 8, write_index = 11,
     reserved_prepend_size = 8\<rparr>"

lemma sample_buffer_wf [simp]: "buf_wf sample_buffer"
  by (simp add: sample_buffer_def buf_wf_def size_mod_def)

lemma sample_buffer_fields [simp]:
  "caps sample_buffer = 12" "read_index sample_buffer = 8" "write_index sample_buffer = 11"
  "reserved_prepend_size sample_buffer = 8" "content sample_buffer = [1, 2, 3]"
  by (simp_all add: sample_buffer_def content_def)

theorem buffer_refines_queue_witness:
  "\<exists>b'. bbuf.run_ops (\<lambda>_. True) [Append [4, 5], Remove 2, Append [6]] sample_buffer = Inr b'
     \<and> buf_wf b' \<and> content b' = [3, 4, 5, 6]"
  using buffer_refines_queue [of sample_buffer 5 "[Append [4, 5], Remove 2, Append [6]]" 31 "\<lambda>_. True"]
  by (auto simp: size_mod_def caps_bound_def)

lemma readInt32_ok:
  assumes "buf_wf b" and "content b = be_bytes32 x @ rest"
  shows "\<exists>b'. readInt32 b = Inr (x, b') \<and> buf_wf b' \<and> content b' = (if x = -1 then content b else rest)"
  using peekInt32_ok [OF assms] remove_ok [OF assms(1), of 4] assms by (auto simp: readInt32_def)

lemma readInt64_ok:
  assumes "buf_wf b" and "content b = be_bytes64 x @ rest"
  shows "\<exists>b'. readInt64 b = Inr (x, b') \<and> buf_wf b' \<and> content b' = (if x = -1 then content b else rest)"
  using peekInt64_ok [OF assms] remove_ok [OF assms(1), of 8] assms by (auto simp: readInt64_def)

text \<open>
  C33. Integers travel in network order and come back unchanged: \<open>appendInt32 x\<close> and
  \<open>appendInt64 y\<close> on an empty buffer leave the big-endian bytes of \<open>x\<close> and \<open>y\<close> in it, and
  \<open>readInt32\<close> and \<open>readInt64\<close> then return \<open>x\<close> and \<open>y\<close> and empty the buffer; the one value that
  does not survive is \<open>-1\<close>, which the readers take for their error code.
\<close>

theorem int_round_trip:
  assumes "buf_wf b" and "content b = []" and "4 * caps b + 16 < size_mod"
    and "\<And>n. n < size_mod \<Longrightarrow> ok n" and "x \<noteq> -1" and "y \<noteq> -1"
  shows "\<exists>b1 b2 b3 b4. appendInt32 ok x b = Inr b1 \<and> appendInt64 ok y b1 = Inr b2
    \<and> content b2 = be_bytes32 x @ be_bytes64 y
    \<and> readInt32 b2 = Inr (x, b3) \<and> readInt64 b3 = Inr (y, b4) \<and> content b4 = []"
proof -
  obtain b1 where b1: "appendInt32 ok x b = Inr b1" "buf_wf b1" "content b1 = be_bytes32 x" "caps b1 \<le> 2 * caps b + 4"
    using appendInt32_ok [OF assms(1), of ok x] assms by (auto simp: room_def)
  then obtain b2 where b2: "appendInt64 ok y b1 = Inr b2" "buf_wf b2" "content b2 = be_bytes32 x @ be_bytes64 y"
    using appendInt64_ok [OF b1(2), of ok y] assms by (auto simp: room_def)
  obtain b3 where b3: "readInt32 b2 = Inr (x, b3)" "buf_wf b3" "content b3 = be_bytes64 y"
    using readInt32_ok [OF b2(2,3)] assms(5) by auto
  obtain b4 where "readInt64 b3 = Inr (y, b4)" "content b4 = []"
    using readInt64_ok [OF b3(2), of y "[]"] b3(3) assms(6) by auto
  then show ?thesis using b1 b2 b3 by blast
qed

lemma empty_buffer_exists: "\<exists>b. buf_wf b \<and> content b = [] \<and> caps b = 12"
  using remove_ok [OF sample_buffer_wf, of 3] by auto

theorem int_round_trip_witness:
  "\<exists>b b1 b2 b3 b4. appendInt32 (\<lambda>_. True) 258 b = Inr b1 \<and> appendInt64 (\<lambda>_. True) 7 b1 = Inr b2
     \<and> content b2 = [0, 0, 1, 2, 0, 0, 0, 0, 0, 0, 0, 7]
     \<and> readInt32 b2 = Inr (258, b3) \<and> readInt64 b3 = Inr (7, b4) \<and> content b4 = []"
proof -
  obtain b where b: "buf_wf b" "content b = []" "caps b = 12"
    using empty_buffer_exists by blast
  have "be_bytes32 258 = [0, 0, 1, 2]" "be_bytes64 7 = [0, 0, 0, 0, 0, 0, 0, 7]"
    by (simp_all add: be_bytes32_def le_bytes32_def be_bytes64_def le_bytes64_def upt_rec drop_bit_eq_div)
  then have "\<exists>b1 b2 b3 b4. appendInt32 (\<lambda>_. True) 258 b = Inr b1 \<and> appendInt64 (\<lambda>_. True) 7 b1 = Inr b2
     \<and> content b2 = [0, 0, 1, 2, 0, 0, 0, 0, 0, 0, 0, 7]
     \<and> readInt32 b2 = Inr (258, b3) \<and> readInt64 b3 = Inr (7, b4) \<and> content b4 = []"
    using int_round_trip [OF b(1,2), of "\<lambda>_. True" 258 7] b(3) by (simp add: size_mod_def)
  then show ?thesis by blast
qed

text \<open>
  The reserved header: when four (eight) bytes lie free before the content,
  \<open>prependInt32\<close> (\<open>prependInt64\<close>) moves the read index down by exactly that much, although it
  adds a negated \<open>size_t\<close>, and puts the big-endian value in front of the content, which is
  otherwise untouched; with less room the \<open>assert\<close> aborts.
\<close>

lemma prepend_header:
  assumes "buf_wf b"
  shows "(4 \<le> read_index b \<longrightarrow>
      (\<exists>b'. prependInt32 x b = Inr b' \<and> buf_wf b' \<and> content b' = be_bytes32 x @ content b))
    \<and> (8 \<le> read_index b \<longrightarrow>
      (\<exists>b'. prependInt64 y b = Inr b' \<and> buf_wf b' \<and> content b' = be_bytes64 y @ content b))
    \<and> (read_index b < 4 \<longrightarrow> prependInt32 x b = Inl AssertFail)
    \<and> (read_index b < 8 \<longrightarrow> prependInt64 y b = Inl AssertFail)"
  using prependInt32_ok [OF assms, of x] prependInt64_ok [OF assms, of y]
  by (simp add: prependInt32_def prependInt64_def prependableBytes_def)

lemma prepend_header_witness:
  "\<exists>b'. prependInt32 3 sample_buffer = Inr b' \<and> buf_wf b' \<and> content b' = [0, 0, 0, 3, 1, 2, 3]"
proof -
  have "be_bytes32 3 = [0, 0, 0, 3]"
    by (simp add: be_bytes32_def le_bytes32_def upt_rec drop_bit_eq_div)
  then show ?thesis using prepend_header [OF sample_buffer_wf, of 3 0] by simp
qed

text \<open>
  C34. \<open>readv\<close> on a readable socket: what fits behind the write index is appended unchanged; what
  the kernel put into the overflow array is appended only up to its first NUL byte, because the
  array is passed on as a C string; the return value counts all received bytes either way. When
  the overflow array is full and has no NUL the \<open>strlen\<close> leaves it.
\<close>

theorem readv_appends:
  assumes "buf_wf b" and "bs \<noteq> []" and "w = caps b - write_index b"
    and "room ok (length bs - w) b" and "length bs \<le> readv_limit w"
  shows "(length bs - w < EXTRBUFFER_SIZE \<or> 0 \<in> set (drop w bs) \<longrightarrow>
      (\<exists>b'. reader_readv ok \<lparr>rv_ret = int (length bs), rv_retriable = e, rv_bytes = bs\<rparr> b
           = Inr (int (length bs), b') \<and> buf_wf b'
         \<and> content b' = content b @ take w bs @ takeWhile (\<lambda>c. c \<noteq> 0) (drop w bs)))
    \<and> (length bs - w = EXTRBUFFER_SIZE \<and> 0 \<notin> set (drop w bs) \<longrightarrow>
      reader_readv ok \<lparr>rv_ret = int (length bs), rv_retriable = e, rv_bytes = bs\<rparr> b = Inl OutOfBounds)"
proof (intro conjI impI)
  assume nul: "length bs - w < EXTRBUFFER_SIZE \<or> 0 \<in> set (drop w bs)"
  show "\<exists>b'. reader_readv ok \<lparr>rv_ret = int (length bs), rv_retriable = e, rv_bytes = bs\<rparr> b
      = Inr (int (length bs), b') \<and> buf_wf b'
      \<and> content b' = content b @ take w bs @ takeWhile (\<lambda>c. c \<noteq> 0) (drop w bs)"
  proof (cases "w < length bs")
    case True
    then show ?thesis using readv_overflow [OF assms(1,3) True assms(4) nul] by blast
  next
    case False
    then show ?thesis using readv_fits [OF assms(1,2), of ok e] assms(3) by auto
  qed
next
  assume full: "length bs - w = EXTRBUFFER_SIZE \<and> 0 \<notin> set (drop w bs)"
  then have "w < length bs" by (auto simp: EXTRBUFFER_SIZE_def)
  then show "reader_readv ok \<lparr>rv_ret = int (length bs), rv_retriable = e, rv_bytes = bs\<rparr> b = Inl OutOfBounds"
    using readv_full_faults [OF assms(1,3) _ assms(4)] full by blast
qed

theorem readv_appends_witness:
  "\<exists>b'. reader_readv (\<lambda>_. True) \<lparr>rv_ret = 5, rv_retriable = False, rv_bytes = [4, 5, 6, 0, 7]\<rparr> sample_buffer
       = Inr (5, b') \<and> buf_wf b' \<and> content b' = [1, 2, 3, 4, 5, 6]"
proof -
  have "\<exists>b'. reader_readv (\<lambda>_. True) \<lparr>rv_ret = int (length [4, 5, 6, 0, 7 :: byte]), rv_retriable = False,
       rv_bytes = [4, 5, 6, 0, 7]\<rparr> sample_buffer = Inr (int (length [4, 5, 6, 0, 7 :: byte]), b')
     \<and> buf_wf b' \<and> content b' = content sample_buffer @ take 1 [4, 5, 6, 0, 7]
         @ takeWhile (\<lambda>c. c \<noteq> 0) (drop 1 [4, 5, 6, 0, 7])"
    using readv_appends [of sample_buffer "[4, 5, 6, 0, 7]" 1 "\<lambda>_. True" False]
    by (simp add: room_def size_mod_def readv_limit_def readv_iov_count_def EXTRBUFFER_SIZE_def)
  then show ?thesis by simp
qed

text \<open>
  \<open>consume n\<close> hands out the first \<open>n\<close> unread bytes (all of them when there are fewer) as a
  slice inside the buffer's array and removes exactly these; with \<open>verifiy\<close> set, a request for
  more than there is returns an empty slice and leaves the buffer alone.
\<close>

lemma consume_takes_prefix:
  assumes "buf_wf b"
  shows "\<exists>s b'. consume n b = Inr (s, b') \<and> toString s = Inr (take n (content b))
      \<and> buf_wf b' \<and> content b' = drop n (content b)
      \<and> (n \<le> length (content b) \<longrightarrow> consume_verify n v b = Inr (s, b'))
      \<and> (length (content b) < n \<longrightarrow> consume_verify n True b = Inr (Slice, b))
      \<and> (length (content b) < n \<longrightarrow> consume_verify n False b = Inr (s, b'))"
proof -
  obtain s b' where "consume n b = Inr (s, b')" "slice_wf s" "slice_bytes s = take n (content b)"
    "buf_wf b'" "content b' = drop n (content b)"
    using consume_ok [OF assms] by blast
  then show ?thesis
    using assms by (auto simp: toString_wf consume_def consume_verify_def buf_simps)
qed

lemma consume_takes_prefix_witness:
  "\<exists>s b'. consume 2 sample_buffer = Inr (s, b') \<and> toString s = Inr [1, 2] \<and> content b' = [3]"
  using consume_takes_prefix [OF sample_buffer_wf, of 2 True] by auto

text \<open>
  \<open>decrease\<close>: a request not larger than the free tail reallocates a smaller array and keeps
  the content. A request that only the free space on both sides could serve moves the bytes to
  the front of the array without moving the indices: the leading \<open>d\<close> unread bytes are gone and
  the trailing \<open>d\<close> bytes appear twice.
\<close>

lemma decrease_effect:
  assumes "buf_wf b" and "0 < len" and "caps b + reserved_prepend_size b < size_mod"
    and "\<And>n. n < size_mod \<Longrightarrow> ok n" and "reserved_prepend_size b \<le> read_index b"
    and "d = read_index b - reserved_prepend_size b" and "d \<le> length (content b)" and "content b \<noteq> []"
    and "len \<le> caps b - reserved_prepend_size b - length (content b)"
  shows "\<exists>b'. decrease ok len b = Inr b' \<and>
    content b' = (if len \<le> caps b - write_index b then content b
                  else drop d (content b) @ drop (length (content b) - d) (content b))"
proof (cases "len \<le> caps b - write_index b")
  case True
  moreover have "ok (caps b + reserved_prepend_size b - len)" using assms(3,4) by simp
  ultimately show ?thesis using decrease_shrinks [OF assms(1,2) True assms(3), of ok] by auto
next
  case False
  then show ?thesis
    using decrease_moves_without_indices [OF assms(1) _ assms(9,6,5,7,8), of ok] by auto
qed

definition consumed_buffer :: byte_buffer where
  "consumed_buffer = \<lparr>buff = [0, 1, 2, 3, 4], caps = 5, read_index = 2, write_index = 5,
     reserved_prepend_size = 1\<rparr>"

lemma decrease_effect_witness:
  "\<exists>b'. content consumed_buffer = [2, 3, 4] \<and> decrease (\<lambda>_. True) 1 consumed_buffer = Inr b'
     \<and> content b' = [3, 4, 4]"
proof -
  have c: "content consumed_buffer = [2, 3, 4]"
    by (simp add: consumed_buffer_def content_def)
  have "\<exists>b'. decrease (\<lambda>_. True) 1 consumed_buffer = Inr b' \<and>
    content b' = (if 1 \<le> caps consumed_buffer - write_index consumed_buffer then content consumed_buffer
                  else drop 1 (content consumed_buffer) @ drop (length (content consumed_buffer) - 1) (content consumed_buffer))"
    by (rule decrease_effect) (simp_all add: c, simp_all add: consumed_buffer_def buf_wf_def size_mod_def)
  moreover have "\<not> 1 \<le> caps consumed_buffer - write_index consumed_buffer"
    by (simp add: consumed_buffer_def)
  ultimately show ?thesis by (simp add: c)
qed

text \<open>
  A buffer constructed with \<open>prepend_size = 0\<close> loses data when it grows: as many unread bytes
  as had been consumed before.
\<close>

lemma headerless_grow_loses:
  assumes "length (buff b) = caps b" and "read_index b < write_index b" and "write_index b \<le> caps b"
    and "reserved_prepend_size b = 0" and rm: "room ok len b"
    and "read_index b + (caps b - write_index b) < len"
  shows "\<exists>b'. grow ok len b = Inr b' \<and> content b' = drop (read_index b) (content b)"
proof -
  have n: "2 * caps b + len < size_mod" and ok: "ok (2 * caps b + len)"
    using rm by (auto simp: room_def)
  have read: "mem_read (buff b) (read_index b) (write_index b - read_index b) = Inr (content b)"
    using assms by (simp add: mem_simps content_def)
  have lc: "length (content b) = write_index b - read_index b"
    using assms by (auto simp: content_def)
  let ?m = "content b @ replicate (2 * caps b + len - length (content b)) 0"
  have m: "mem_write (replicate (2 * caps b + len) 0) 0 (content b) = Inr ?m"
    using assms lc by (simp add: mem_simps)
  let ?b' = "b\<lparr>buff := ?m, write_index := length (content b), caps := 2 * caps b + len\<rparr>"
  have "grow ok len b = Inr ?b'"
    using assms n ok read m lc
    by (simp add: grow_def unreadBytes_def writableBytes_def index_defs new_char_def size_simps Let_def)
  moreover have "content ?b' = drop (read_index b) (content b)"
    by (simp add: content_def)
  ultimately show ?thesis by blast
qed

lemma headerless_grow_loses_witness:
  "\<exists>b0 b1 b2 b3. ByteBuffer (\<lambda>_. True) 0 4 = Inr b0 \<and> append (\<lambda>_. True) [1, 2, 3, 4] 4 b0 = Inr b1
     \<and> remove 1 b1 = Inr b2 \<and> content b2 = [2, 3, 4] \<and> grow (\<lambda>_. True) 4 b2 = Inr b3 \<and> content b3 = [3, 4]"
proof -
  let ?b2 = "\<lparr>buff = [1, 2, 3, 4], caps = 4, read_index = 1, write_index = 4, reserved_prepend_size = 0\<rparr>"
  have c: "content ?b2 = [2, 3, 4]" by (simp add: content_def)
  have zeros: "replicate 4 (0 :: byte) = [0, 0, 0, 0]" by (simp add: numeral_eq_Suc)
  have "\<exists>b3. grow (\<lambda>_. True) 4 ?b2 = Inr b3 \<and> content b3 = drop (read_index ?b2) (content ?b2)"
    by (rule headerless_grow_loses) (simp_all add: room_def size_mod_def)
  moreover have "ByteBuffer (\<lambda>_. True) 0 4 = Inr (?b2\<lparr>buff := [0, 0, 0, 0], read_index := 0, write_index := 0\<rparr>)"
    using zeros by (simp add: ByteBuffer_def new_char_def sz_add_def size_mod_def)
  moreover have "append (\<lambda>_. True) [1, 2, 3, 4] 4 (?b2\<lparr>buff := [0, 0, 0, 0], read_index := 0, write_index := 0\<rparr>)
      = Inr (?b2\<lparr>read_index := 0\<rparr>)"
    by (simp add: append_def writableBytes_def mem_read_def mem_write_def index_defs sz_add_def size_mod_def)
  moreover have "remove 1 (?b2\<lparr>read_index := 0\<rparr>) = Inr ?b2"
    by (simp add: remove_def unreadBytes_def index_defs sz_add_def size_mod_def)
  ultimately show ?thesis using c by auto
qed

end
