(* ===== verification/Buffer_Program.thy ===== *)
theory Buffer_Program
  imports Byte_Buffer
begin

text \<open>
  \<open>examples/atp_buffer_benchmark.cpp\<close>: a length-prefixed message put together and taken apart in
  one buffer, without the log lines.
\<close>

section \<open>A framed message\<close>

fun append_times :: "(nat \<Rightarrow> bool) \<Rightarrow> byte list \<Rightarrow> nat \<Rightarrow> nat \<Rightarrow> byte_buffer \<Rightarrow> byte_buffer result" where
  "append_times ok d k 0 b = Inr b"
| "append_times ok d k (Suc n) b = bnd (writableBytes b) (\<lambda>_. bnd (append ok d k b) (append_times ok d k n))"

text \<open>
  \<open>main\<close> with its two constants, the text and \<open>count\<close>, as arguments (the program has
  \<open>"12345678"\<close> and 5). The text is appended \<open>count\<close> times, its length goes in front, the free space is given back, and the
  reader takes the length and then the body.
\<close>

definition buffer_main :: "(nat \<Rightarrow> bool) \<Rightarrow> byte list \<Rightarrow> nat \<Rightarrow> (64 word \<times> byte list) result" where
  "buffer_main ok d count =
     bnd (ByteBuffer ok 8 2) (\<lambda>b0.
     bnd (strlen d) (\<lambda>k.
     bnd (append_times ok d k count b0) (\<lambda>b1.
     bnd (prependInt64 (of_nat (count * k)) b1) (\<lambda>b2.
     bnd (peekInt64 b2) (\<lambda>len.
     bnd (writableBytes b2) (\<lambda>w.
     bnd (decrease ok w b2) (\<lambda>b3.
     bnd (readInt64 b3) (\<lambda>(n, b4).
     bnd (consume (unat n) b4) (\<lambda>(s, _).
     bnd (toString s) (\<lambda>t. Inr (len, t)))))))))))"

lemma grow_read_index:
  assumes "grow ok len b = Inr b'" and "0 < reserved_prepend_size b"
  shows "read_index b' = reserved_prepend_size b"
  using assms
  by (auto simp: grow_def bnd_eq_Inr assert_that_eq_Inr updateReadWriteIndex_def setNewCaps_def swap_buff_def prependHeaderBytes_def Let_def
      split: if_splits option.splits)

lemma append_read_index:
  assumes "append ok d len b = Inr b'" and "buf_wf b" and "read_index b = reserved_prepend_size b"
  shows "read_index b' = reserved_prepend_size b"
  using assms grow_read_index [of ok len b]
  by (auto simp: append_def bnd_eq_Inr updateReadWriteIndex_def buf_wf_def Let_def split: if_splits)

lemma append_times_ok:
  assumes "k \<le> length d" and "2 * K + M < size_mod" and "\<forall>n \<le> 2 * K + M. ok n"
  shows "buf_wf b \<Longrightarrow> read_index b = reserved_prepend_size b \<Longrightarrow> caps b \<le> K \<Longrightarrow> 3 * M + 2 * reserved_prepend_size b \<le> K \<Longrightarrow>
    length (content b) + n * k \<le> M \<Longrightarrow>
    \<exists>b'. append_times ok d k n b = Inr b' \<and> buf_wf b' \<and> content b' = content b @ concat (replicate n (take k d)) \<and>
      reserved_prepend_size b' = reserved_prepend_size b \<and> read_index b' = reserved_prepend_size b \<and> caps b' \<le> K"
proof (induction n arbitrary: b)
  case (Suc n)
  have "2 * caps b + k \<le> 2 * K + M" using Suc.prems(3,5) by simp
  then have "room ok k b" using assms(2,3) by (simp add: room_def)
  from append_ok [OF Suc.prems(1) this assms(1)] obtain b1 where b1: "append ok d k b = Inr b1" "buf_wf b1" "content b1 = content b @ take k d"
    "reserved_prepend_size b1 = reserved_prepend_size b" "caps b1 \<le> caps_bound (length (content b) + k) b" by blast
  have "caps_bound (length (content b) + k) b \<le> K" using Suc.prems(3-5) by (simp add: caps_bound_def)
  moreover have "read_index b1 = reserved_prepend_size b1" using append_read_index [OF b1(1) Suc.prems(1,2)] b1(4) by simp
  moreover have "length (content b1) + n * k \<le> M" using Suc.prems(5) b1(3) assms(1) by simp
  ultimately obtain b' where "append_times ok d k n b1 = Inr b'" "buf_wf b'" "content b' = content b1 @ concat (replicate n (take k d))"
    "reserved_prepend_size b' = reserved_prepend_size b1" "read_index b' = reserved_prepend_size b1" "caps b' \<le> K"
    using Suc.IH [OF b1(2)] b1(4,5) Suc.prems(4) by auto
  then show ?case using b1 Suc.prems(1) by (auto simp: buf_simps)
qed simp

lemma decrease_keeps:
  assumes "buf_wf b" and "caps b + reserved_prepend_size b < size_mod" and "\<forall>n \<le> caps b + reserved_prepend_size b. ok n"
  shows "\<exists>b'. decrease ok (caps b - write_index b) b = Inr b' \<and> buf_wf b' \<and> content b' = content b"
proof (cases "caps b - write_index b = 0")
  case True
  then show ?thesis using assms(1) by (simp add: decrease_def)
next
  case False
  then show ?thesis using decrease_shrinks [OF assms(1), of "caps b - write_index b" ok] assms(2,3) by auto
qed

text \<open>
  C32. A length-prefixed message survives the buffer: for every text and every number of appends such
  that the length of the message fits the program's \<open>int\<close>, the length that the reader sees and the
  body it then takes are exactly what was put in, with a growing array, a header written in front and
  the free space given back in between. The allocator serves sizes up to seven times the length of the
  message and some more.
\<close>

theorem framed_message_read_back:
  assumes "0 \<in> set d" and "k = length (takeWhile (\<lambda>c. c \<noteq> 0) d)" and "count * k < 2 ^ 31"
    and "\<forall>n \<le> 7 * (count * k) + 32. ok n"
  shows "buffer_main ok d count = Inr (of_nat (count * k), concat (replicate count (take k d)))"
proof -
  obtain b0 where b0: "ByteBuffer ok 8 2 = Inr b0" "buf_wf b0" "content b0 = []" "caps b0 = 10" "reserved_prepend_size b0 = 8"
    using ByteBuffer_wf [of 8 2 ok] assms(4) by (auto simp: size_mod_def)
  have r0: "read_index b0 = reserved_prepend_size b0" using b0(1) by (auto simp: ByteBuffer_def Let_def bnd_eq_Inr split: option.splits if_splits)
  have sl: "strlen d = Inr k" using assms(1,2) by (simp add: strlen_def)
  have kd: "k \<le> length d" using assms(2) by (simp add: length_takeWhile_le)
  let ?K = "3 * (count * k) + 16" and ?M = "count * k"
  let ?body = "concat (replicate count (take k d))" and ?x = "of_nat (count * k) :: 64 word"
  obtain b1 where b1: "append_times ok d k count b0 = Inr b1" "buf_wf b1" "content b1 = ?body" "reserved_prepend_size b1 = 8" "read_index b1 = 8"
    "caps b1 \<le> ?K"
    using append_times_ok [OF kd, of ?K ?M ok b0 count] b0 r0 assms(3,4) by (auto simp: size_mod_def)
  have lb: "length ?body = count * k" using kd by (simp add: length_concat sum_list_replicate)
  have small: "count * k < 2 ^ 31" by (rule assms(3))
  obtain b2 where b2: "prependInt64 ?x b1 = Inr b2" "buf_wf b2" "content b2 = be_bytes64 ?x @ ?body" using prependInt64_ok [OF b1(2)] b1(3,5) by auto
  have f2: "caps b2 = caps b1" "reserved_prepend_size b2 = 8"
    using b2(1) b1(4) by (auto simp: prependInt64_def assert_that_eq_Inr bnd_eq_Inr updateReadWriteIndex_def Let_def)
  obtain b3 where b3: "decrease ok (caps b2 - write_index b2) b2 = Inr b3" "buf_wf b3" "content b3 = be_bytes64 ?x @ ?body"
    using decrease_keeps [OF b2(2), of ok] f2 b1(6) assms(3,4) b2(3) by (auto simp: size_mod_def)
  have ux: "unat ?x = count * k" using small by (simp add: unat_of_nat del: of_nat_mult)
  have "unat (- 1 :: 64 word) = 2 ^ 64 - 1" by (simp add: unsigned_minus_1_eq_mask mask_eq_exp_minus_1)
  then have ne: "?x \<noteq> - 1" using small ux by (auto simp del: of_nat_mult)
  obtain b4 where b4: "readInt64 b3 = Inr (?x, b4)" "buf_wf b4" "content b4 = ?body" using readInt64_ok [OF b3(2,3)] ne by auto
  obtain s b5 where s: "consume (unat ?x) b4 = Inr (s, b5)" "slice_wf s" "slice_bytes s = ?body"
    using consume_ok [OF b4(2), of "unat ?x"] b4(3) lb ux by auto
  show ?thesis using b0(1) sl b1(1) b2 b3(1) b4(1) s toString_wf [OF s(2)] peekInt64_ok [OF b2(2,3)]
    by (simp add: buffer_main_def buf_simps)
qed

definition sample_text :: "byte list" where
  "sample_text = map (\<lambda>c. of_nat (of_char c)) ''12345678'' @ [0]"

lemma sample_text: "0 \<in> set sample_text" "takeWhile (\<lambda>c. c \<noteq> 0) sample_text = take 8 sample_text" "length sample_text = 9"
  by (simp_all add: sample_text_def)

theorem framed_message_read_back_witness:
  "buffer_main (\<lambda>_. True) sample_text 5 = Inr (40, concat (replicate 5 (take 8 sample_text)))"
  using framed_message_read_back [OF sample_text(1), of 8 5 "\<lambda>_. True"] by (simp add: sample_text)

end
