(* ===== verification/Memory_Pool.thy ===== *)
theory Memory_Pool
  imports Atp_Prelude
begin

text \<open>
  \<open>app/atp_memory_pool.cpp\<close> and \<open>app/atp_memory_policy.cpp\<close>: bump-pointer pools that grow by
  chunks, and the pool helper, a factory that caches released pools in sixteen size classes.

  Pools are objects in an explicit store (address to object), because users hold pointers to
  them while the helper moves the same pointers between its lists; \<open>heap\<close> is the set of live
  blocks of the C heap (base address to size), so that a wrong \<open>free\<close> is visible. What the
  system allocator answers is an argument of the operations that call it.
\<close>

unbundle bit_operations_syntax

section \<open>Constants\<close>

definition ATP_MEMORY_POOL_NAME :: nat where
  "ATP_MEMORY_POOL_NAME = 64"

definition ATP_MEMORY_POOL_ALIGN :: nat where
  "ATP_MEMORY_POOL_ALIGN = 8"

definition ATP_MEMORY_POOL_CACHING_SIZE :: nat where
  "ATP_MEMORY_POOL_CACHING_SIZE = 16"

text \<open>\<open>sizeof(pool_chunk_t)\<close> and \<open>sizeof(pool_t)\<close> on a 64-bit host.\<close>

definition sizeof_chunk :: nat where
  "sizeof_chunk = 40"

definition sizeof_pool :: nat where
  "sizeof_pool = 128"

definition pool_size_array :: "nat list" where
  "pool_size_array =
     [256, 512, 1024, 2048,
      4096, 8192, 12288, 16484,
      20480, 24567, 28672, 32768,
      40960, 49125, 57344, 65535]"

section \<open>The size class of a request\<close>

function search_loop :: "nat \<Rightarrow> int \<Rightarrow> int \<Rightarrow> int \<Rightarrow> int" where
  "search_loop v pos left right =
     (if left \<le> right then
        (let mid = (left + right) div 2 in
         if v \<le> pool_size_array ! nat mid then search_loop v mid left (mid - 1)
         else search_loop v pos (mid + 1) right)
      else pos)"
  by pat_completeness auto
termination
  by (relation "measure (\<lambda>(v, pos, left, right). nat (right + 1 - left))") auto

definition atp_binary_search :: "nat \<Rightarrow> int" where
  "atp_binary_search v =
     (let left = 0; right = int ATP_MEMORY_POOL_CACHING_SIZE - 1 in
      if v \<le> pool_size_array ! nat left then left
      else if pool_size_array ! nat right < v then int ATP_MEMORY_POOL_CACHING_SIZE
      else search_loop v 0 left right)"

declare search_loop.simps [simp del]

lemma length_pool_size_array [simp]: "length pool_size_array = 16"
  by (simp add: pool_size_array_def)

lemma sorted_pool_size_array: "sorted pool_size_array"
  by (simp add: pool_size_array_def)

lemma pool_size_array_mono: "i \<le> j \<Longrightarrow> j < 16 \<Longrightarrow> pool_size_array ! i \<le> pool_size_array ! j"
  using sorted_pool_size_array by (simp add: sorted_iff_nth_mono)

text \<open>
  The loop invariant: below \<open>left\<close> every class is too small, above \<open>right\<close> the next class is
  \<open>pos\<close>, which is large enough.
\<close>

lemma search_loop_least:
  assumes "0 \<le> left" and "left \<le> right + 1" and "right \<le> 15"
    and "\<And>i. i < nat left \<Longrightarrow> pool_size_array ! i < v"
    and "right < 15 \<Longrightarrow> pos = right + 1 \<and> v \<le> pool_size_array ! nat pos"
    and "v \<le> pool_size_array ! 15"
  shows "\<exists>p < 16. search_loop v pos left right = int p \<and> v \<le> pool_size_array ! p
    \<and> (\<forall>i < p. pool_size_array ! i < v)"
  using assms
proof (induction v pos left right rule: search_loop.induct)
  case (1 v pos left right)
  show ?case
  proof (cases "left \<le> right")
    case False
    then have "left = right + 1" using "1.prems" by simp
    moreover have "right < 15"
    proof (rule ccontr)
      assume "\<not> right < 15"
      then have "left = 16" using "1.prems"(3) \<open>left = right + 1\<close> by simp
      then show False using "1.prems"(4) [of 15] "1.prems"(6) by simp
    qed
    ultimately have "pos = left" and "v \<le> pool_size_array ! nat left" and "nat left < 16"
      using "1.prems"(5) by auto
    moreover have "search_loop v pos left right = pos"
      using False by (simp add: search_loop.simps)
    ultimately show ?thesis using "1.prems"(1,4) by (auto intro!: exI [of _ "nat left"])
  next
    case True
    let ?mid = "(left + right) div 2"
    have m: "left \<le> ?mid" "?mid \<le> right" using True by auto
    show ?thesis
    proof (cases "v \<le> pool_size_array ! nat ?mid")
      case fits: True
      then show ?thesis
        using "1.IH"(1) [OF True refl fits] "1.prems" m True
        by (simp add: search_loop.simps [of v pos left right] Let_def)
    next
      case small: False
      have "pool_size_array ! i < v" if "i < nat (?mid + 1)" for i
        using pool_size_array_mono [of i "nat ?mid"] that small m "1.prems"(1,3) by linarith
      moreover have "right < 15 \<Longrightarrow> v \<le> pool_size_array ! nat (right + 1)" using "1.prems"(5) by auto
      ultimately show ?thesis
        using "1.IH"(2) [OF True refl small] "1.prems" m True small
        by (simp add: search_loop.simps [of v pos left right] Let_def)
    qed
  qed
qed

lemma atp_binary_search_least:
  "\<exists>p \<le> 16. atp_binary_search v = int p \<and> (p < 16 \<longrightarrow> v \<le> pool_size_array ! p)
     \<and> (\<forall>i < p. pool_size_array ! i < v)"
proof -
  consider "v \<le> pool_size_array ! 0" | "pool_size_array ! 15 < v"
    | "pool_size_array ! 0 < v" "v \<le> pool_size_array ! 15" by linarith
  then show ?thesis
  proof cases
    case 1
    then show ?thesis by (simp add: atp_binary_search_def)
  next
    case 2
    then have "pool_size_array ! i < v" if "i < 16" for i
      using pool_size_array_mono [of i 15] that by simp
    moreover from this [of 0] have "\<not> v \<le> pool_size_array ! 0" by simp
    ultimately show ?thesis using 2
      by (auto simp: atp_binary_search_def ATP_MEMORY_POOL_CACHING_SIZE_def)
  next
    case 3
    then show ?thesis
      using search_loop_least [of 0 15 v 0]
      by (auto simp: atp_binary_search_def ATP_MEMORY_POOL_CACHING_SIZE_def)
  qed
qed

section \<open>Alignment\<close>

text \<open>\<open>ATP_ALIGN_PTR\<close>: the negated pointer masked with \<open>ALIGNMENT - 1\<close> is the distance to the next multiple.\<close>

definition ATP_ALIGN_PTR :: "nat \<Rightarrow> nat \<Rightarrow> nat" where
  "ATP_ALIGN_PTR ptr alignment = nat (int ptr + ((- int ptr) AND (int alignment - 1)))"

text \<open>The rounding in \<open>pool_alloc_from_chunk\<close>; \<open>~(8 - 1)\<close> is \<open>2 ^ 64 - 8\<close> as a \<open>size_t\<close>.\<close>

definition align_size :: "nat \<Rightarrow> nat" where
  "align_size sz =
     (if sz AND (ATP_MEMORY_POOL_ALIGN - 1) \<noteq> 0
      then sz_add sz ATP_MEMORY_POOL_ALIGN AND (size_mod - ATP_MEMORY_POOL_ALIGN)
      else sz)"

lemma and_7: "(n :: nat) AND 7 = n mod 8"
proof -
  have "(7 :: nat) = mask 3" by (simp add: mask_eq_exp_minus_1)
  then show ?thesis by (simp only: take_bit_eq_mask [symmetric] take_bit_eq_mod) simp
qed

lemma int_and_7: "(i :: int) AND 7 = i mod 8"
proof -
  have "(7 :: int) = mask 3" by (simp add: mask_eq_exp_minus_1)
  then show ?thesis by (simp only: take_bit_eq_mask [symmetric] take_bit_eq_mod) simp
qed

lemma and_not_7:
  assumes "n < size_mod"
  shows "n AND (size_mod - 8) = 8 * (n div 8)"
proof -
  have "size_mod - 8 = push_bit 3 (mask 61 :: nat)"
    by (simp add: size_mod_def push_bit_eq_mult mask_eq_exp_minus_1)
  then have "n AND (size_mod - 8) = push_bit 3 (drop_bit 3 n AND mask 61)"
    by (intro bit_eqI) (auto simp: bit_simps)
  also have "\<dots> = 8 * ((n div 8) mod 2 ^ 61)"
    by (simp only: take_bit_eq_mask [symmetric] take_bit_eq_mod drop_bit_eq_div push_bit_eq_mult) simp
  also have "(n div 8) mod 2 ^ 61 = n div 8"
    using assms by (intro mod_less) (simp add: size_mod_def less_mult_imp_div_less)
  finally show ?thesis .
qed

lemma align_size_up:
  assumes "sz + 8 < size_mod"
  shows "8 dvd align_size sz" and "sz \<le> align_size sz" and "align_size sz < sz + 8"
proof -
  have "align_size sz = (if sz mod 8 = 0 then sz else 8 * ((sz + 8) div 8))"
    using assms by (simp add: align_size_def ATP_MEMORY_POOL_ALIGN_def and_7 and_not_7 size_simps)
  then show "8 dvd align_size sz" "sz \<le> align_size sz" "align_size sz < sz + 8"
    by (presburger)+
qed

text \<open>Near the top of the range the rounding wraps around to 0.\<close>

lemma align_size_wraps:
  assumes "size_mod - 8 < sz" and "sz < size_mod"
  shows "align_size sz = 0"
proof -
  have "sz mod 8 \<noteq> 0" using assms by (auto simp: size_mod_def) presburger
  moreover have "sz_add sz 8 = sz + 8 - size_mod"
    using assms by (simp add: sz_add_def mod_if [of "sz + 8"]) (simp add: size_mod_def)
  moreover have "sz + 8 - size_mod < 8" "sz + 8 - size_mod < size_mod"
    using assms by (simp_all add: size_mod_def)
  ultimately show ?thesis
    by (simp add: align_size_def ATP_MEMORY_POOL_ALIGN_def and_7 and_not_7)
qed

lemma ATP_ALIGN_PTR_8: "ATP_ALIGN_PTR p 8 = 8 * ((p + 7) div 8)"
proof -
  have "int p + (- int p) mod 8 = int (8 * ((p + 7) div 8))" by presburger
  then show ?thesis by (simp add: ATP_ALIGN_PTR_def int_and_7)
qed

lemma ATP_ALIGN_PTR_up:
  "8 dvd ATP_ALIGN_PTR p 8" "p \<le> ATP_ALIGN_PTR p 8" "ATP_ALIGN_PTR p 8 < p + 8"
  unfolding ATP_ALIGN_PTR_8 by presburger+

lemma ATP_ALIGN_PTR_aligned: "8 dvd p \<Longrightarrow> ATP_ALIGN_PTR p 8 = p"
  unfolding ATP_ALIGN_PTR_8 by presburger

section \<open>Chunks, pools and the pool helper\<close>

text \<open>
  \<open>ck_self\<close> is the address of the chunk header itself; \<open>pl_data\<close> is the size class that
  \<open>create_pool\<close> stores in \<open>data_\<close>; \<open>pl_name\<close> is the array \<open>name_\<close>. The links of the tail queues
  are lists.
\<close>

record pool_chunk =
  ck_self :: nat
  ck_buf :: nat
  ck_cur :: nat
  ck_end :: nat

record pool =
  pl_name :: "byte list"
  pl_capacity :: nat
  pl_incr_size :: nat
  pl_data :: int
  pl_chunks :: "pool_chunk list"

datatype factory_policy = default_policy | new_policy

record pool_helper =
  ph_policy :: factory_policy
  ph_capacity :: nat
  ph_max_capacity :: nat
  ph_used_count :: nat
  ph_used_size :: nat
  ph_used :: "nat list"
  ph_free :: "nat list list"
  pools :: "nat \<Rightarrow> pool option"
  heap :: "nat \<Rightarrow> nat option"

text \<open>
  The answer of the system allocator to one request: nothing, or a block and the bytes it holds
  where a pool keeps its name (zeros for \<open>calloc\<close>, anything for \<open>new\<close>).
\<close>

type_synonym answer = "(nat \<times> byte list) option"

subsection \<open>Accounting and the two policies\<close>

definition on_chunk_free :: "nat \<Rightarrow> pool_helper \<Rightarrow> pool_helper" where
  "on_chunk_free sz ph = ph\<lparr>ph_used_size := sz_sub (ph_used_size ph) sz\<rparr>"

definition on_chunk_alloc :: "nat \<Rightarrow> pool_helper \<Rightarrow> pool_helper" where
  "on_chunk_alloc sz ph = ph\<lparr>ph_used_size := sz_add (ph_used_size ph) sz\<rparr>"

definition chunk_alloc :: "answer \<Rightarrow> nat \<Rightarrow> pool_helper \<Rightarrow> (answer \<times> pool_helper) result" where
  "chunk_alloc ans sz ph =
     (let ph1 = on_chunk_alloc sz ph in
      case ans of
        None \<Rightarrow> Inr (None, ph1)
      | Some (a, g) \<Rightarrow> Inr (Some (a, replicate ATP_MEMORY_POOL_NAME 0), ph1\<lparr>heap := (heap ph1)(a \<mapsto> sz)\<rparr>))"

definition chunk_free :: "nat \<Rightarrow> nat \<Rightarrow> pool_helper \<Rightarrow> pool_helper result" where
  "chunk_free a sz ph =
     (let ph1 = on_chunk_free sz ph in
      if heap ph1 a = None then Inl InvalidFree else Inr (ph1\<lparr>heap := (heap ph1)(a := None)\<rparr>))"

definition chunk_new :: "answer \<Rightarrow> nat \<Rightarrow> pool_helper \<Rightarrow> (answer \<times> pool_helper) result" where
  "chunk_new ans sz ph =
     (let ph1 = on_chunk_alloc sz ph in
      case ans of
        None \<Rightarrow> Inl BadAlloc
      | Some (a, g) \<Rightarrow> Inr (Some (a, g), ph1\<lparr>heap := (heap ph1)(a \<mapsto> sz)\<rparr>))"

definition chunk_delete :: "nat \<Rightarrow> nat \<Rightarrow> pool_helper \<Rightarrow> pool_helper result" where
  "chunk_delete a sz ph =
     (let ph1 = on_chunk_free sz ph in
      if heap ph1 a = None then Inl InvalidFree else Inr (ph1\<lparr>heap := (heap ph1)(a := None)\<rparr>))"

definition policy_alloc :: "answer \<Rightarrow> nat \<Rightarrow> pool_helper \<Rightarrow> (answer \<times> pool_helper) result" where
  "policy_alloc ans sz ph =
     (case ph_policy ph of default_policy \<Rightarrow> chunk_alloc ans sz ph | new_policy \<Rightarrow> chunk_new ans sz ph)"

definition policy_free :: "nat \<Rightarrow> nat \<Rightarrow> pool_helper \<Rightarrow> pool_helper result" where
  "policy_free a sz ph =
     (case ph_policy ph of default_policy \<Rightarrow> chunk_free a sz ph | new_policy \<Rightarrow> chunk_delete a sz ph)"

subsection \<open>Allocation from a pool\<close>

definition set_pool :: "nat \<Rightarrow> pool \<Rightarrow> pool_helper \<Rightarrow> pool_helper" where
  "set_pool pa p ph = ph\<lparr>pools := (pools ph)(pa \<mapsto> p)\<rparr>"

definition pool_alloc_from_chunk :: "pool_chunk \<Rightarrow> nat \<Rightarrow> nat option \<times> pool_chunk" where
  "pool_alloc_from_chunk chunk size0 =
     (if size0 = 0 then (None, chunk)
      else
        (let sz = align_size size0;
             curr_chunk_size = sz_sub (ck_end chunk) (ck_cur chunk)
         in if sz \<le> curr_chunk_size
            then (Some (ck_cur chunk), chunk\<lparr>ck_cur := ck_cur chunk + sz\<rparr>)
            else (None, chunk)))"

text \<open>The \<open>while\<close> loop of \<open>pool_alloc_find\<close> over the chunk list.\<close>

fun traverse_chunks :: "pool_chunk list \<Rightarrow> nat \<Rightarrow> nat option \<times> pool_chunk list" where
  "traverse_chunks [] sz = (None, [])"
| "traverse_chunks (c # cs) sz =
     (case pool_alloc_from_chunk c sz of
        (Some mem, c') \<Rightarrow> (Some mem, c' # cs)
      | (None, _) \<Rightarrow> (case traverse_chunks cs sz of (r, cs') \<Rightarrow> (r, c # cs')))"

definition new_chunk_size :: "nat \<Rightarrow> nat \<Rightarrow> nat" where
  "new_chunk_size incr sz =
     (if incr < sz_add sz sizeof_chunk then
        (let counts = size_to_int (sz_add (sz_add (sz_add sz sizeof_chunk) incr) ATP_MEMORY_POOL_ALIGN div incr)
         in (incr * int_to_size counts) mod size_mod)
      else incr)"

definition create_chunk_append_pool :: "answer \<Rightarrow> nat \<Rightarrow> nat \<Rightarrow> pool_helper \<Rightarrow> (bool \<times> pool_helper) result" where
  "create_chunk_append_pool ans pa chunk_size ph =
     assert_that (sizeof_chunk \<le> chunk_size)
       (bnd (policy_alloc ans chunk_size ph) (\<lambda>(r, ph1).
          case r of
            None \<Rightarrow> Inr (False, ph1)
          | Some (a, g) \<Rightarrow>
              (case pools ph1 pa of
                 None \<Rightarrow> Inl UseAfterFree
               | Some p \<Rightarrow>
                   (let c = \<lparr>ck_self = a, ck_buf = a + sizeof_chunk,
                              ck_cur = ATP_ALIGN_PTR (a + sizeof_chunk) ATP_MEMORY_POOL_ALIGN,
                              ck_end = a + chunk_size\<rparr>
                    in Inr (True, set_pool pa (p\<lparr>pl_capacity := sz_add (pl_capacity p) chunk_size,
                                               pl_chunks := c # pl_chunks p\<rparr>) ph1)))))"

definition pool_alloc_find :: "answer \<Rightarrow> nat \<Rightarrow> nat \<Rightarrow> pool_helper \<Rightarrow> (nat option \<times> pool_helper) result" where
  "pool_alloc_find ans pa sz ph =
     (if sz = 0 then Inr (None, ph)
      else
        case pools ph pa of
          None \<Rightarrow> Inl UseAfterFree
        | Some p \<Rightarrow>
            (case traverse_chunks (pl_chunks p) sz of
               (Some mem, cs) \<Rightarrow> Inr (Some mem, set_pool pa (p\<lparr>pl_chunks := cs\<rparr>) ph)
             | (None, _) \<Rightarrow>
                 if pl_incr_size p = 0 then Inr (None, ph)
                 else
                   bnd (create_chunk_append_pool ans pa (new_chunk_size (pl_incr_size p) sz) ph)
                     (\<lambda>(created, ph1).
                        if \<not> created then Inr (None, ph1)
                        else
                          case pools ph1 pa of
                            None \<Rightarrow> Inl UseAfterFree
                          | Some p1 \<Rightarrow>
                              (case pl_chunks p1 of
                                 [] \<Rightarrow> Inl NullDeref
                               | c # cs \<Rightarrow>
                                   (case pool_alloc_from_chunk c sz of
                                      (mem, c') \<Rightarrow> Inr (mem, set_pool pa (p1\<lparr>pl_chunks := c' # cs\<rparr>) ph1))))))"

definition pool_alloc :: "answer \<Rightarrow> nat \<Rightarrow> nat \<Rightarrow> pool_helper \<Rightarrow> (nat option \<times> pool_helper) result" where
  "pool_alloc ans pa sz ph =
     (case pools ph pa of
        None \<Rightarrow> Inl UseAfterFree
      | Some p \<Rightarrow>
          (case pl_chunks p of
             [] \<Rightarrow> pool_alloc_find ans pa sz ph
           | c # cs \<Rightarrow>
               (case pool_alloc_from_chunk c sz of
                  (Some mem, c') \<Rightarrow> Inr (Some mem, set_pool pa (p\<lparr>pl_chunks := c' # cs\<rparr>) ph)
                | (None, _) \<Rightarrow> pool_alloc_find ans pa sz ph)))"

definition get_pool_capacity :: "pool \<Rightarrow> nat" where
  "get_pool_capacity p = pl_capacity p"

text \<open>The C string that starts at \<open>name_\<close>.\<close>

definition get_pool_name :: "pool \<Rightarrow> byte list result" where
  "get_pool_name p = bnd (strlen (pl_name p)) (\<lambda>n. Inr (take n (pl_name p)))"

subsection \<open>Releasing a pool for good\<close>

text \<open>
  \<open>TAILQ_FOREACH\<close> over the remaining chunks: the body frees the chunk, the loop then reads the
  link inside the chunk.
\<close>

fun free_chunks :: "pool_chunk list \<Rightarrow> pool_helper \<Rightarrow> pool_helper result" where
  "free_chunks [] ph = Inr ph"
| "free_chunks (c # cs) ph =
     bnd (policy_free (ck_self c) (sz_sub (ck_end c) (ck_buf c)) ph) (\<lambda>ph1.
       if heap ph1 (ck_self c) = None then Inl UseAfterFree else free_chunks cs ph1)"

definition release_pool2 :: "nat \<Rightarrow> pool_helper \<Rightarrow> pool_helper result" where
  "release_pool2 pa ph =
     (case pools ph pa of
        None \<Rightarrow> Inl UseAfterFree
      | Some p \<Rightarrow>
          (case pl_chunks p of
             [] \<Rightarrow> Inl NullDeref
           | first_chunk # rest \<Rightarrow>
               bnd (free_chunks rest ph) (\<lambda>ph1.
               bnd (policy_free pa (sz_sub (ck_end first_chunk) pa) ph1) (\<lambda>ph2.
                 Inr (ph2\<lparr>pools := (pools ph2)(pa := None)\<rparr>)))))"

subsection \<open>The factory\<close>

text \<open>\<open>strncpy(name_, name, strlen(name))\<close>: the bytes of the name, no terminating NUL.\<close>

definition strncpy_name :: "byte list \<Rightarrow> byte list \<Rightarrow> byte list result" where
  "strncpy_name old name = mem_write old 0 name"

definition create_pool :: "answer \<Rightarrow> byte list \<Rightarrow> nat \<Rightarrow> nat \<Rightarrow> pool_helper \<Rightarrow> (nat option \<times> pool_helper) result" where
  "create_pool ans name init_size incr_size ph =
     (let pos = atp_binary_search init_size;
          use = (\<lambda>pa p ph1. (Some pa, set_pool pa (p\<lparr>pl_data := pos\<rparr>)
                   (ph1\<lparr>ph_used := pa # ph_used ph1, ph_used_count := sz_add (ph_used_count ph1) 1\<rparr>)))
      in
      if pos = int ATP_MEMORY_POOL_CACHING_SIZE \<or> ph_free ph ! nat pos = [] then
        (let init = (if pos < int ATP_MEMORY_POOL_CACHING_SIZE then pool_size_array ! nat pos else init_size) in
         assert_that (sizeof_pool + sizeof_chunk \<le> init)
           (bnd (policy_alloc ans init ph) (\<lambda>(r, ph1).
              case r of
                None \<Rightarrow> Inr (None, ph1)
              | Some (mem, g) \<Rightarrow>
                  bnd (strncpy_name g name) (\<lambda>nm.
                    let ca = mem + sizeof_pool;
                        c = \<lparr>ck_self = ca, ck_buf = ca + sizeof_chunk,
                             ck_cur = ATP_ALIGN_PTR (ca + sizeof_chunk) ATP_MEMORY_POOL_ALIGN,
                             ck_end = mem + init\<rparr>;
                        p = \<lparr>pl_name = nm, pl_capacity = init, pl_incr_size = incr_size,
                             pl_data = pos, pl_chunks = [c]\<rparr>
                    in Inr (use mem p ph1)))))
      else
        (let pa = hd (ph_free ph ! nat pos);
             ph1 = ph\<lparr>ph_free := (ph_free ph)[nat pos := tl (ph_free ph ! nat pos)]\<rparr>
         in case pools ph1 pa of
              None \<Rightarrow> Inl UseAfterFree
            | Some p \<Rightarrow>
                bnd (strncpy_name (pl_name p) name) (\<lambda>nm.
                  let p1 = p\<lparr>pl_incr_size := incr_size, pl_name := nm\<rparr>;
                      ph2 = (if get_pool_capacity p1 < ph_capacity ph1
                             then ph1\<lparr>ph_capacity := ph_capacity ph1 - get_pool_capacity p1\<rparr>
                             else ph1\<lparr>ph_capacity := 0\<rparr>)
                  in Inr (use pa p1 ph2))))"

definition release_pool :: "nat \<Rightarrow> pool_helper \<Rightarrow> pool_helper result" where
  "release_pool pa ph =
     (case pools ph pa of
        None \<Rightarrow> Inl UseAfterFree
      | Some p \<Rightarrow>
          if pa \<notin> set (ph_used ph) then Inr ph
          else
            (let ph1 = ph\<lparr>ph_used := remove1 pa (ph_used ph), ph_used_count := sz_sub (ph_used_count ph) 1\<rparr>;
                 pos = pl_data p;
                 cap = get_pool_capacity p
             in if pos = int ATP_MEMORY_POOL_CACHING_SIZE
                   \<or> ph_max_capacity ph1 < sz_add cap (ph_capacity ph1)
                   \<or> pool_size_array ! (ATP_MEMORY_POOL_CACHING_SIZE - 1) < cap
                then release_pool2 pa ph1
                else Inr (ph1\<lparr>ph_free := (ph_free ph1)[nat pos := ph_free ph1 ! nat pos @ [pa]],
                             ph_capacity := sz_add (ph_capacity ph1) cap\<rparr>)))"

text \<open>\<open>policy = None\<close> is the null pointer.\<close>

definition pool_helper_init :: "factory_policy option \<Rightarrow> nat \<Rightarrow> pool_helper \<Rightarrow> pool_helper" where
  "pool_helper_init policy max_capacity ph =
     ph\<lparr>ph_policy := (case policy of None \<Rightarrow> default_policy | Some p \<Rightarrow> p),
        ph_capacity := 0, ph_max_capacity := max_capacity, ph_used_count := 0, ph_used_size := 0,
        ph_used := [], ph_free := replicate ATP_MEMORY_POOL_CACHING_SIZE []\<rparr>"

text \<open>The two loops of \<open>pool_helper_destroy\<close> that empty a list of pools.\<close>

fun release_list :: "nat list \<Rightarrow> pool_helper \<Rightarrow> pool_helper result" where
  "release_list [] ph = Inr ph"
| "release_list (pa # pas) ph = bnd (release_pool2 pa ph) (release_list pas)"

definition pool_helper_destroy :: "pool_helper \<Rightarrow> pool_helper result" where
  "pool_helper_destroy ph =
     bnd (release_list (ph_used ph) (ph\<lparr>ph_used := []\<rparr>)) (\<lambda>ph1.
       release_list (concat (ph_free ph))
         (ph1\<lparr>ph_free := replicate ATP_MEMORY_POOL_CACHING_SIZE []\<rparr>))"

definition get_pool_helper_reference :: "pool_helper \<Rightarrow> nat" where
  "get_pool_helper_reference ph = ph_used_count ph"

definition get_pool_helper_capacity :: "pool_helper \<Rightarrow> nat" where
  "get_pool_helper_capacity ph = ph_capacity ph"

definition get_pool_helper_max_capacity :: "pool_helper \<Rightarrow> nat" where
  "get_pool_helper_max_capacity ph = ph_max_capacity ph"

definition get_pool_helper_used_mem_size :: "pool_helper \<Rightarrow> nat" where
  "get_pool_helper_used_mem_size ph = ph_used_size ph"

end
