(* ===== verification/Step_System.thy ===== *)
theory Step_System
  imports Main
begin

text \<open>
  Transition systems: what a step relation keeps holds in every state it reaches. The components
  whose operations interleave (pool helper, timer, event loop, thread pool, server) instantiate
  these locales with their own step relation.
\<close>

locale step_invariant =
  fixes step :: "'s \<Rightarrow> 's \<Rightarrow> bool"
    and inv :: "'s \<Rightarrow> bool"
  assumes step_keeps: "step s t \<Longrightarrow> inv s \<Longrightarrow> inv t"
begin

lemma steps_keep: "step\<^sup>*\<^sup>* s t \<Longrightarrow> inv s \<Longrightarrow> inv t"
  by (induction rule: rtranclp_induct) (auto intro: step_keeps)

end

text \<open>A stable predicate and a quantity that no step changes once it holds.\<close>

locale step_frozen = step_invariant +
  fixes stop :: "'s \<Rightarrow> bool"
    and amount :: "'s \<Rightarrow> 'n"
  assumes stop_keeps: "step s t \<Longrightarrow> inv s \<Longrightarrow> stop s \<Longrightarrow> stop t \<and> amount t = amount s"
begin

lemma steps_frozen: "step\<^sup>*\<^sup>* s t \<Longrightarrow> inv s \<Longrightarrow> stop s \<Longrightarrow> stop t \<and> amount t = amount s"
proof (induction rule: rtranclp_induct)
  case (step t u)
  then have "inv t" using steps_keep by blast
  then show ?case using step stop_keeps [of t u] by simp
qed simp

end

text \<open>
  A forward simulation: what one system does in a step, another does, seen through \<open>absf\<close>, in a number of
  steps; so every run of the first is a run of the second.
\<close>

locale step_simulation = step_invariant +
  fixes abs_step :: "'t \<Rightarrow> 't \<Rightarrow> bool"
    and absf :: "'s \<Rightarrow> 't"
  assumes step_simulates: "step s t \<Longrightarrow> inv s \<Longrightarrow> abs_step\<^sup>*\<^sup>* (absf s) (absf t)"
begin

lemma steps_simulate: "step\<^sup>*\<^sup>* s t \<Longrightarrow> inv s \<Longrightarrow> abs_step\<^sup>*\<^sup>* (absf s) (absf t)"
proof (induction rule: rtranclp_induct)
  case (step t u)
  then have "inv t" using steps_keep by blast
  then show ?case using step step_simulates [of t u] by (meson rtranclp_trans)
qed simp

end

end
