(* ===== verification/Memory_Pool_Safety.thy ===== *)
theory Memory_Pool_Safety
  imports Memory_Pool Step_System
begin

text \<open>
  Properties of the memory pool: the regions handed out are aligned, inside live blocks and
  disjoint; the bookkeeping of the pool helper (lists, counters, cached capacity, live bytes) is
  an invariant of every sequence of operations; a pool that has grown cannot be released.
\<close>

section \<open>Equations of the allocator policies\<close>

definition zero_name :: "byte list" where
  "zero_name = replicate ATP_MEMORY_POOL_NAME 0"

definition block_name :: "factory_policy \<Rightarrow> byte list \<Rightarrow> byte list" where
  "block_name pol g = (case pol of default_policy \<Rightarrow> zero_name | new_policy \<Rightarrow> g)"

lemma policy_alloc_Some:
  "policy_alloc (Some (a, g)) sz ph =
     Inr (Some (a, block_name (ph_policy ph) g),
          ph\<lparr>ph_used_size := sz_add (ph_used_size ph) sz, heap := (heap ph)(a \<mapsto> sz)\<rparr>)"
  by (simp add: policy_alloc_def chunk_alloc_def chunk_new_def on_chunk_alloc_def block_name_def
      zero_name_def split: factory_policy.split)

lemma policy_free_eq:
  "policy_free a sz ph =
     (if heap ph a = None then Inl InvalidFree
      else Inr (ph\<lparr>ph_used_size := sz_sub (ph_used_size ph) sz, heap := (heap ph)(a := None)\<rparr>))"
  by (simp add: policy_free_def chunk_free_def chunk_delete_def on_chunk_free_def Let_def
      split: factory_policy.split)

lemma free_chunks_faults: "\<exists>e. free_chunks (c # cs) ph = Inl e"
  by (cases "heap ph (ck_self c)") (simp_all add: policy_free_eq)

lemma release_pool2_Inr:
  assumes "release_pool2 pa ph = Inr ph'"
  obtains p c where "pools ph pa = Some p" and "pl_chunks p = [c]" and "heap ph pa \<noteq> None"
    and "ph' = ph\<lparr>ph_used_size := sz_sub (ph_used_size ph) (sz_sub (ck_end c) pa),
                  pools := (pools ph)(pa := None), heap := (heap ph)(pa := None)\<rparr>"
proof -
  obtain p c rest where p: "pools ph pa = Some p" "pl_chunks p = c # rest"
    using assms by (auto simp: release_pool2_def split: option.splits list.splits)
  have "rest = []"
  proof (rule ccontr)
    assume "rest \<noteq> []"
    then obtain d ds where "rest = d # ds" by (cases rest) auto
    then show False
      using assms p free_chunks_faults [of d ds ph] by (auto simp: release_pool2_def)
  qed
  then show thesis
    using assms p that [of p c] by (auto simp: release_pool2_def policy_free_eq split: if_splits)
qed

section \<open>Allocation hands out disjoint aligned regions\<close>

text \<open>
  \<open>heap_wf\<close>: what the C library promises of its live blocks. They lie in the address space, start
  at multiples of eight and do not overlap.
\<close>

definition heap_wf :: "(nat \<Rightarrow> nat option) \<Rightarrow> bool" where
  "heap_wf h \<longleftrightarrow>
     (\<forall>b n. h b = Some n \<longrightarrow> 0 < b \<and> 8 dvd b \<and> b + n < size_mod) \<and>
     (\<forall>b n c m. h b = Some n \<longrightarrow> h c = Some m \<longrightarrow> b \<noteq> c \<longrightarrow> b + n \<le> c \<or> c + m \<le> b)"

text \<open>The address that an answer of the allocator names is not in use.\<close>

definition fresh :: "answer \<Rightarrow> pool_helper \<Rightarrow> bool" where
  "fresh ans ph = (case ans of None \<Rightarrow> True | Some (a, g) \<Rightarrow> heap ph a = None)"

text \<open>
  The chunks of the pool at \<open>pa\<close>: the oldest one is embedded in the pool's own block, every later
  one has a block of its own.
\<close>

definition chunk_ok :: "pool_chunk \<Rightarrow> bool" where
  "chunk_ok c \<longleftrightarrow> ck_buf c = ck_self c + sizeof_chunk \<and> ck_buf c \<le> ck_cur c \<and> ck_cur c \<le> ck_end c \<and> 8 dvd ck_cur c"

fun chunks_ok :: "(nat \<Rightarrow> nat option) \<Rightarrow> nat \<Rightarrow> pool_chunk list \<Rightarrow> bool" where
  "chunks_ok h pa [] \<longleftrightarrow> False"
| "chunks_ok h pa [c] \<longleftrightarrow>
     chunk_ok c \<and> ck_self c = pa + sizeof_pool \<and> (\<exists>n. h pa = Some n \<and> ck_end c = pa + n)"
| "chunks_ok h pa (c # d # cs) \<longleftrightarrow>
     chunk_ok c \<and> (\<exists>n. h (ck_self c) = Some n \<and> ck_end c = ck_self c + n) \<and>
     ck_self c \<noteq> pa \<and> ck_self c \<notin> ck_self ` set (d # cs) \<and> chunks_ok h pa (d # cs)"

definition chunks_apart :: "pool_chunk \<Rightarrow> pool_chunk \<Rightarrow> bool" where
  "chunks_apart c d \<longleftrightarrow> ck_end c \<le> ck_buf d \<or> ck_end d \<le> ck_buf c"

lemma chunks_ok_nonempty: "chunks_ok h pa cs \<Longrightarrow> cs \<noteq> []"
  by auto

lemma chunks_ok_chunk: "chunks_ok h pa cs \<Longrightarrow> c \<in> set cs \<Longrightarrow> chunk_ok c"
  by (induction h pa cs rule: chunks_ok.induct) auto

lemma chunks_ok_block:
  "chunks_ok h pa cs \<Longrightarrow> c \<in> set cs \<Longrightarrow>
   \<exists>b n. h b = Some n \<and> b + sizeof_chunk \<le> ck_buf c \<and> ck_end c = b + n \<and> (b = pa \<or> b = ck_self c)"
proof (induction h pa cs rule: chunks_ok.induct)
  case (2 h pa d)
  then show ?case by - (rule exI [of _ pa], auto simp: chunk_ok_def)
next
  case (3 h pa d e cs)
  show ?case
  proof (cases "c = d")
    case True
    then show ?thesis using "3.prems" by - (rule exI [of _ "ck_self c"], auto simp: chunk_ok_def)
  next
    case False
    then show ?thesis using 3 by simp
  qed
qed simp

lemma chunks_ok_apart:
  assumes "heap_wf h" and "chunks_ok h pa cs"
  shows "sorted_wrt chunks_apart cs"
  using assms
proof (induction h pa cs rule: chunks_ok.induct)
  case (3 h pa c d cs)
  have "chunks_apart c e" if e: "e \<in> set (d # cs)" for e
  proof -
    obtain b n where b: "h b = Some n" "b + sizeof_chunk \<le> ck_buf e" "ck_end e = b + n" "b = pa \<or> b = ck_self e"
      using "3.prems"(2) chunks_ok_block [of h pa "d # cs", OF _ e] by (metis chunks_ok.simps(3))
    obtain m where m: "h (ck_self c) = Some m" "ck_end c = ck_self c + m" "ck_buf c = ck_self c + sizeof_chunk"
      using "3.prems" by (auto simp: chunk_ok_def)
    have "b \<noteq> ck_self c" using "3.prems" b(4) e by auto
    then have "b + n \<le> ck_self c \<or> ck_self c + m \<le> b"
      using "3.prems"(1) b(1) m(1) unfolding heap_wf_def by blast
    then show ?thesis using b m by (auto simp: chunks_apart_def)
  qed
  then show ?case using 3 by auto
qed auto

section \<open>The cases of an allocation\<close>

lemma alloc_from_chunk_Some:
  assumes "pool_alloc_from_chunk c sz = (Some m, c')" and "ck_cur c \<le> ck_end c" and "ck_end c < size_mod"
  shows "m = ck_cur c" and "c' = c\<lparr>ck_cur := ck_cur c + align_size sz\<rparr>"
    and "ck_cur c + align_size sz \<le> ck_end c" and "0 < sz"
  using assms by (auto simp: pool_alloc_from_chunk_def Let_def size_simps split: if_splits)

lemma alloc_from_chunk_None: "pool_alloc_from_chunk c sz = (None, c') \<Longrightarrow> c' = c"
  by (auto simp: pool_alloc_from_chunk_def Let_def split: if_splits)

lemma traverse_chunks_Some:
  "traverse_chunks cs sz = (Some m, cs') \<Longrightarrow>
   \<exists>us c c' vs. cs = us @ c # vs \<and> cs' = us @ c' # vs \<and> pool_alloc_from_chunk c sz = (Some m, c')"
proof (induction cs arbitrary: cs')
  case (Cons d ds)
  show ?case
  proof (cases "pool_alloc_from_chunk d sz")
    case (Pair r d')
    show ?thesis
    proof (cases r)
      case None
      then obtain ds' where "traverse_chunks ds sz = (Some m, ds')" and cs': "cs' = d # ds'"
        using Cons.prems Pair by (auto split: prod.splits)
      from Cons.IH [OF this(1)] obtain us c c' vs where
        "ds = us @ c # vs" "ds' = us @ c' # vs" "pool_alloc_from_chunk c sz = (Some m, c')" by blast
      then show ?thesis using cs' by (intro exI [of _ "d # us"]) auto
    next
      case (Some x)
      then show ?thesis using Cons.prems Pair by (intro exI [of _ "[]"]) auto
    qed
  qed
qed simp

text \<open>The chunk that \<open>create_chunk_append_pool\<close> builds in a new block.\<close>

definition new_chunk :: "nat \<Rightarrow> nat \<Rightarrow> pool_chunk" where
  "new_chunk a n =
     \<lparr>ck_self = a, ck_buf = a + sizeof_chunk,
      ck_cur = ATP_ALIGN_PTR (a + sizeof_chunk) ATP_MEMORY_POOL_ALIGN, ck_end = a + n\<rparr>"

lemma policy_alloc_None:
  "policy_alloc None sz ph = Inr (r, ph') \<Longrightarrow>
   r = None \<and> ph' = ph\<lparr>ph_used_size := sz_add (ph_used_size ph) sz\<rparr>"
  by (auto simp: policy_alloc_def chunk_alloc_def chunk_new_def on_chunk_alloc_def Let_def
      split: factory_policy.splits)

lemma create_chunk_Inr:
  assumes "create_chunk_append_pool ans pa n ph = Inr (ok, ph')" and "pools ph pa = Some p"
  obtains (refused) "\<not> ok" and "ans = None" and "ph' = ph\<lparr>ph_used_size := sz_add (ph_used_size ph) n\<rparr>"
  | (granted) a g where "ok" and "ans = Some (a, g)" and "sizeof_chunk \<le> n"
      and "ph' = set_pool pa (p\<lparr>pl_capacity := sz_add (pl_capacity p) n, pl_chunks := new_chunk a n # pl_chunks p\<rparr>)
             (ph\<lparr>ph_used_size := sz_add (ph_used_size ph) n, heap := (heap ph)(a \<mapsto> n)\<rparr>)"
proof (cases ans)
  case None
  then show thesis
    using assms(1) refused by (auto simp: create_chunk_append_pool_def bnd_simps dest!: policy_alloc_None)
next
  case (Some ag)
  then show thesis
    using assms granted [of "fst ag" "snd ag"]
    by (cases ag) (auto simp: create_chunk_append_pool_def bnd_simps policy_alloc_Some new_chunk_def)
qed

lemma pool_alloc_Inr:
  assumes "pool_alloc ans pa sz ph = Inr (r, ph')"
  obtains (unchanged) p where "pools ph pa = Some p" and "r = None" and "ph' = ph"
  | (inplace) p us c c' vs where "pools ph pa = Some p" and "pl_chunks p = us @ c # vs"
      and "pool_alloc_from_chunk c sz = (r, c')" and "r \<noteq> None"
      and "ph' = set_pool pa (p\<lparr>pl_chunks := us @ c' # vs\<rparr>) ph"
  | (refused) p n where "pools ph pa = Some p" and "r = None" and "ans = None"
      and "ph' = ph\<lparr>ph_used_size := sz_add (ph_used_size ph) n\<rparr>"
  | (grown) p n a g c' where "pools ph pa = Some p" and "ans = Some (a, g)" and "sizeof_chunk \<le> n"
      and "pool_alloc_from_chunk (new_chunk a n) sz = (r, c')"
      and "ph' = set_pool pa (p\<lparr>pl_capacity := sz_add (pl_capacity p) n, pl_chunks := c' # pl_chunks p\<rparr>)
             (ph\<lparr>ph_used_size := sz_add (ph_used_size ph) n, heap := (heap ph)(a \<mapsto> n)\<rparr>)"
proof -
  obtain p where p: "pools ph pa = Some p" using assms by (auto simp: pool_alloc_def split: option.splits)
  consider (first) c c' cs m where "pl_chunks p = c # cs" "pool_alloc_from_chunk c sz = (Some m, c')" "r = Some m"
      "ph' = set_pool pa (p\<lparr>pl_chunks := c' # cs\<rparr>) ph"
    | (find) "pool_alloc_find ans pa sz ph = Inr (r, ph')"
    using assms p by (auto simp: pool_alloc_def split: list.splits prod.splits option.splits)
  then show thesis
  proof cases
    case first
    then show thesis using inplace [of p "[]"] p by simp
  next
    case find
    consider (zero) "r = None" "ph' = ph"
      | (old) m cs where "traverse_chunks (pl_chunks p) sz = (Some m, cs)" "r = Some m"
          "ph' = set_pool pa (p\<lparr>pl_chunks := cs\<rparr>) ph"
      | (new) n ok ph1 where "create_chunk_append_pool ans pa n ph = Inr (ok, ph1)"
          "\<not> ok \<longrightarrow> r = None \<and> ph' = ph1"
          "ok \<longrightarrow> (\<exists>p1 c cs c'. pools ph1 pa = Some p1 \<and> pl_chunks p1 = c # cs \<and>
              pool_alloc_from_chunk c sz = (r, c') \<and> ph' = set_pool pa (p1\<lparr>pl_chunks := c' # cs\<rparr>) ph1)"
      using find p
      by (auto simp: pool_alloc_find_def bnd_simps split: if_splits prod.splits option.splits list.splits)
    then show thesis
    proof cases
      case zero
      then show thesis using unchanged p by blast
    next
      case old
      then show thesis using inplace p traverse_chunks_Some by (metis option.distinct(1))
    next
      case new
      from new(1) p show thesis
      proof (cases rule: create_chunk_Inr)
        case refused
        then show thesis using new(2) p that(3) by blast
      next
        case (granted a g)
        then show thesis using new(3) p that(4) [of p a g n]
          by (auto simp: set_pool_def)
      qed
    qed
  qed
qed

section \<open>Regions\<close>

lemma chunks_ok_mono:
  "chunks_ok h pa cs \<Longrightarrow> (\<And>b m. h b = Some m \<Longrightarrow> h' b = Some m) \<Longrightarrow> chunks_ok h' pa cs"
  by (induction h pa cs rule: chunks_ok.induct) auto

lemma chunks_ok_update:
  assumes "chunks_ok h pa (us @ c # vs)" and "chunk_ok c'" and "ck_self c' = ck_self c" and "ck_end c' = ck_end c"
  shows "chunks_ok h pa (us @ c' # vs)"
  using assms
proof (induction us)
  case Nil
  then show ?case by (cases vs) auto
next
  case (Cons u us)
  then show ?case by (cases us) auto
qed

lemma new_chunk_ok:
  assumes "8 dvd a" and "sizeof_chunk \<le> n"
  shows "chunk_ok (new_chunk a n)"
proof -
  have "8 dvd a + sizeof_chunk" using assms(1) by (simp add: sizeof_chunk_def)
  then show ?thesis
    using assms(2) by (simp add: chunk_ok_def new_chunk_def ATP_MEMORY_POOL_ALIGN_def ATP_ALIGN_PTR_aligned)
qed

lemma chunks_ok_Cons:
  assumes wf: "heap_wf (h(a \<mapsto> n))" and "h a = None" and n: "sizeof_chunk \<le> n" and ok: "chunks_ok h pa cs"
  shows "chunks_ok (h(a \<mapsto> n)) pa (new_chunk a n # cs)"
proof -
  have "8 dvd a" using wf by (auto simp: heap_wf_def)
  have "a \<noteq> ck_self e" if e: "e \<in> set cs" for e
  proof
    assume a: "a = ck_self e"
    obtain b m where b: "h b = Some m" "b + sizeof_chunk \<le> ck_buf e" "ck_end e = b + m"
      using chunks_ok_block [OF ok e] by blast
    then have "b \<noteq> a" using assms(2) by auto
    then have "a + n \<le> b \<or> b + m \<le> a"
      using wf b(1) unfolding heap_wf_def by (metis fun_upd_other fun_upd_same)
    then show False
      using b a n chunks_ok_chunk [OF ok e] by (auto simp: chunk_ok_def sizeof_chunk_def)
  qed
  moreover obtain d ds where "cs = d # ds" using ok by (cases cs) auto
  moreover have "a \<noteq> pa"
  proof -
    have "h pa \<noteq> None" using ok by (induction h pa cs rule: chunks_ok.induct) auto
    then show ?thesis using assms(2) by auto
  qed
  moreover have "chunks_ok (h(a \<mapsto> n)) pa cs" using chunks_ok_mono [OF ok] assms(2) by force
  ultimately show ?thesis
    using new_chunk_ok [OF \<open>8 dvd a\<close> n] by (auto simp: new_chunk_def)
qed

definition region_disjoint :: "nat \<times> nat \<Rightarrow> nat \<times> nat \<Rightarrow> bool" where
  "region_disjoint r s \<longleftrightarrow> fst r + snd r \<le> fst s \<or> fst s + snd s \<le> fst r"

text \<open>A region that was handed out lies in the used part of a chunk.\<close>

definition region_in :: "pool_chunk \<Rightarrow> nat \<times> nat \<Rightarrow> bool" where
  "region_in c r \<longleftrightarrow> ck_buf c \<le> fst r \<and> fst r + snd r \<le> ck_cur c \<and> 8 dvd fst r"

definition regions_ok :: "pool_chunk list \<Rightarrow> (nat \<times> nat) list \<Rightarrow> bool" where
  "regions_ok cs rs \<longleftrightarrow> (\<forall>r \<in> set rs. \<exists>c \<in> set cs. region_in c r) \<and> sorted_wrt region_disjoint rs"

lemma chunk_end_bound:
  assumes "heap_wf h" and "chunks_ok h pa cs" and "c \<in> set cs"
  shows "ck_end c < size_mod"
  using chunks_ok_block [OF assms(2,3)] assms(1) by (auto simp: heap_wf_def)

lemma alloc_keeps_chunk_ok:
  assumes "pool_alloc_from_chunk c sz = (r, c')" and "chunk_ok c" and "ck_end c < size_mod" and "sz + 8 < size_mod"
  shows "chunk_ok c'" and "ck_self c' = ck_self c" and "ck_end c' = ck_end c"
    and "region_in c q \<Longrightarrow> region_in c' q"
    and "r = Some m \<Longrightarrow> region_in c' (m, sz) \<and> ck_cur c = m"
proof -
  have "c' = c \<and> r = None \<or> (\<exists>m. r = Some m \<and> m = ck_cur c \<and> c' = c\<lparr>ck_cur := ck_cur c + align_size sz\<rparr>
      \<and> ck_cur c + align_size sz \<le> ck_end c)"
    using assms(1-3) alloc_from_chunk_None [of c sz c'] alloc_from_chunk_Some [of c sz _ c']
    by (cases r) (auto simp: chunk_ok_def)
  then show "chunk_ok c'" "ck_self c' = ck_self c" "ck_end c' = ck_end c" "region_in c q \<Longrightarrow> region_in c' q"
    "r = Some m \<Longrightarrow> region_in c' (m, sz) \<and> ck_cur c = m"
    using assms(2) align_size_up [OF assms(4)] by (auto simp: chunk_ok_def region_in_def)
qed

lemma regions_ok_alloc:
  assumes wf: "heap_wf h" and ok: "chunks_ok h pa (us @ c # vs)" and rs: "regions_ok (us @ c # vs) rs"
    and al: "pool_alloc_from_chunk c sz = (r, c')" and sz: "sz + 8 < size_mod"
  shows "regions_ok (us @ c' # vs) (case r of None \<Rightarrow> rs | Some m \<Rightarrow> (m, sz) # rs)"
proof -
  have c: "chunk_ok c" "ck_end c < size_mod"
    using chunks_ok_chunk [OF ok] chunk_end_bound [OF wf ok] by auto
  note c' = alloc_keeps_chunk_ok [OF al c sz]
  have old: "\<forall>q \<in> set rs. \<exists>d \<in> set (us @ c' # vs). region_in d q"
    using rs c'(4) by (fastforce simp: regions_ok_def)
  have "region_disjoint (m, sz) q" if m: "r = Some m" and q: "q \<in> set rs" for m q
  proof -
    obtain d where d: "d \<in> set (us @ c # vs)" "region_in d q" using rs q by (auto simp: regions_ok_def)
    have new: "region_in c' (m, sz)" "ck_cur c = m" using c'(5) [OF m] by auto
    have "d = c \<or> chunks_apart c d \<or> chunks_apart d c"
      using d(1) chunks_ok_apart [OF wf ok] by (auto simp: sorted_wrt_append)
    moreover have "chunk_ok d" using chunks_ok_chunk [OF ok d(1)] .
    ultimately show ?thesis
      using new d(2) c'(1,3) c(1) by (auto simp: region_disjoint_def region_in_def chunks_apart_def chunk_ok_def)
  qed
  then show ?thesis
    using old c'(5) rs by (cases r) (auto simp: regions_ok_def)
qed

text \<open>
  A run of allocations from the pool at \<open>pa\<close>, with the regions handed out so far. The answers of
  the C library are fresh addresses (or failures) and keep the heap well-formed.
\<close>

inductive alloc_run :: "nat \<Rightarrow> pool_helper \<Rightarrow> (nat \<times> nat) list \<Rightarrow> pool_helper \<Rightarrow> bool" for pa ph where
  start: "alloc_run pa ph [] ph"
| step: "alloc_run pa ph rs ph1 \<Longrightarrow> fresh ans ph1 \<Longrightarrow> sz + 8 < size_mod \<Longrightarrow>
    pool_alloc ans pa sz ph1 = Inr (r, ph2) \<Longrightarrow> heap_wf (heap ph2) \<Longrightarrow>
    alloc_run pa ph (case r of None \<Rightarrow> rs | Some m \<Rightarrow> (m, sz) # rs) ph2"

definition pool_state_ok :: "nat \<Rightarrow> pool_helper \<Rightarrow> (nat \<times> nat) list \<Rightarrow> bool" where
  "pool_state_ok pa ph rs \<longleftrightarrow> heap_wf (heap ph) \<and>
     (\<exists>p. pools ph pa = Some p \<and> chunks_ok (heap ph) pa (pl_chunks p) \<and> regions_ok (pl_chunks p) rs)"

lemma pool_state_ok_alloc:
  assumes "pool_state_ok pa ph1 rs" and "fresh ans ph1" and "sz + 8 < size_mod"
    and al: "pool_alloc ans pa sz ph1 = Inr (r, ph2)" and wf2: "heap_wf (heap ph2)"
  shows "pool_state_ok pa ph2 (case r of None \<Rightarrow> rs | Some m \<Rightarrow> (m, sz) # rs)"
proof -
  obtain q where wf: "heap_wf (heap ph1)" and q: "pools ph1 pa = Some q"
    "chunks_ok (heap ph1) pa (pl_chunks q)" "regions_ok (pl_chunks q) rs"
    using assms(1) by (auto simp: pool_state_ok_def)
  from al show ?thesis
  proof (cases rule: pool_alloc_Inr)
    case (inplace p us c c' vs)
    have ok: "chunks_ok (heap ph1) pa (us @ c # vs)" "regions_ok (us @ c # vs) rs"
      using q inplace by auto
    have "chunk_ok c" "ck_end c < size_mod"
      using chunks_ok_chunk [OF ok(1)] chunk_end_bound [OF wf ok(1)] by auto
    from alloc_keeps_chunk_ok(1-3) [OF inplace(3) this assms(3)]
    show ?thesis
      using regions_ok_alloc [OF wf ok inplace(3) assms(3)] chunks_ok_update [OF ok(1)] wf inplace(5)
      by (simp add: pool_state_ok_def set_pool_def)
  next
    case (grown p n a g c')
    let ?h = "(heap ph1)(a \<mapsto> n)"
    have h: "heap_wf ?h" "heap ph1 a = None" using wf2 grown assms(2) by (auto simp: set_pool_def fresh_def)
    have ok: "chunks_ok ?h pa ([] @ new_chunk a n # pl_chunks q)" using chunks_ok_Cons [OF h grown(3) q(2)] by simp
    have "chunk_ok (new_chunk a n)" "ck_end (new_chunk a n) < size_mod"
      using chunks_ok_chunk [OF ok] chunk_end_bound [OF h(1) ok] by auto
    from alloc_keeps_chunk_ok(1-3) [OF grown(4) this assms(3)]
    have "chunks_ok ?h pa (c' # pl_chunks q)" using chunks_ok_update [OF ok] by simp
    moreover have "regions_ok ([] @ new_chunk a n # pl_chunks q) rs" using q(3) by (auto simp: regions_ok_def)
    from regions_ok_alloc [OF h(1) ok this grown(4) assms(3)]
    have "regions_ok (c' # pl_chunks q) (case r of None \<Rightarrow> rs | Some m \<Rightarrow> (m, sz) # rs)" by simp
    ultimately show ?thesis using h(1) grown q by (simp add: pool_state_ok_def set_pool_def)
  qed (use q wf in \<open>auto simp: pool_state_ok_def\<close>)
qed

lemma alloc_run_ok:
  assumes "alloc_run pa ph rs ph'" and "pool_state_ok pa ph []"
  shows "pool_state_ok pa ph' rs"
  using assms by induction (auto intro: pool_state_ok_alloc)

section \<open>The cases of create\_pool and release\_pool\<close>

lemma atp_binary_search_range: "0 \<le> atp_binary_search v" "atp_binary_search v \<le> 16"
  using atp_binary_search_least [of v] by auto

text \<open>The chunk that \<open>create_pool__\<close> builds behind the pool header.\<close>

definition first_chunk :: "nat \<Rightarrow> nat \<Rightarrow> pool_chunk" where
  "first_chunk a n =
     \<lparr>ck_self = a + sizeof_pool, ck_buf = a + sizeof_pool + sizeof_chunk,
      ck_cur = ATP_ALIGN_PTR (a + sizeof_pool + sizeof_chunk) ATP_MEMORY_POOL_ALIGN, ck_end = a + n\<rparr>"

lemma capacity_branch:
  "(if c < k then ph\<lparr>ph_capacity := k - c\<rparr> else ph\<lparr>ph_capacity := 0\<rparr>) = ph\<lparr>ph_capacity := k - c\<rparr>"
  by simp

lemma create_pool_Inr:
  assumes "create_pool ans name init incr ph = Inr (r, ph')"
  obtains (refused) n where "r = None" and "ans = None" and "ph' = ph\<lparr>ph_used_size := sz_add (ph_used_size ph) n\<rparr>"
  | (created) a g n nm where "r = Some a" and "ans = Some (a, g)" and "sizeof_pool + sizeof_chunk \<le> n"
      and "ph' = set_pool a \<lparr>pl_name = nm, pl_capacity = n, pl_incr_size = incr,
                              pl_data = atp_binary_search init, pl_chunks = [first_chunk a n]\<rparr>
             (ph\<lparr>ph_used_size := sz_add (ph_used_size ph) n, heap := (heap ph)(a \<mapsto> n),
                 ph_used := a # ph_used ph, ph_used_count := sz_add (ph_used_count ph) 1\<rparr>)"
  | (reused) i pa rest p nm where "i < 16" and "atp_binary_search init = int i" and "ph_free ph ! i = pa # rest"
      and "pools ph pa = Some p" and "r = Some pa"
      and "ph' = set_pool pa (p\<lparr>pl_incr_size := incr, pl_name := nm, pl_data := int i\<rparr>)
             (ph\<lparr>ph_free := (ph_free ph)[i := rest], ph_capacity := ph_capacity ph - pl_capacity p,
                 ph_used := pa # ph_used ph, ph_used_count := sz_add (ph_used_count ph) 1\<rparr>)"
proof (cases "atp_binary_search init = 16 \<or> ph_free ph ! nat (atp_binary_search init) = []")
  case new: True
  define n where "n = (if atp_binary_search init < 16 then pool_size_array ! nat (atp_binary_search init) else init)"
  note eq = assms [unfolded create_pool_def Let_def, simplified ATP_MEMORY_POOL_CACHING_SIZE_def, simplified]
  show thesis
  proof (cases ans)
    case None
    with new eq have "r = None" "ph' = ph\<lparr>ph_used_size := sz_add (ph_used_size ph) n\<rparr>"
      by (auto simp: bnd_simps n_def dest!: policy_alloc_None split: if_splits)
    then show thesis using refused None by blast
  next
    case (Some ag)
    obtain a g where ag: "ag = (a, g)" by (cases ag)
    with Some new eq obtain nm where r: "r = Some a" and le: "sizeof_pool + sizeof_chunk \<le> n" and
      ph': "ph' = set_pool a \<lparr>pl_name = nm, pl_capacity = n, pl_incr_size = incr,
                              pl_data = atp_binary_search init, pl_chunks = [first_chunk a n]\<rparr>
         (ph\<lparr>ph_used_size := sz_add (ph_used_size ph) n, heap := (heap ph)(a \<mapsto> n),
             ph_used := a # ph_used ph, ph_used_count := sz_add (ph_used_count ph) 1\<rparr>)"
      by (auto simp: bnd_simps n_def policy_alloc_Some first_chunk_def split: if_splits)
    show thesis by (rule created [of a g n nm, OF r _ le]) (simp_all add: Some ag ph' set_pool_def)
  qed
next
  case False
  define i where "i = nat (atp_binary_search init)"
  have i: "i < 16" "atp_binary_search init = int i"
    using False atp_binary_search_range [of init] by (auto simp: i_def)
  obtain pa rest where pa: "ph_free ph ! i = pa # rest" using False by (cases "ph_free ph ! i") (auto simp: i_def)
  obtain p nm where p: "pools ph pa = Some p" and r: "r = Some pa" and
    ph': "ph' = set_pool pa (p\<lparr>pl_incr_size := incr, pl_name := nm, pl_data := int i\<rparr>)
       (ph\<lparr>ph_free := (ph_free ph)[i := rest], ph_capacity := ph_capacity ph - pl_capacity p,
           ph_used := pa # ph_used ph, ph_used_count := sz_add (ph_used_count ph) 1\<rparr>)"
    using assms False i pa
    by (auto simp: create_pool_def Let_def ATP_MEMORY_POOL_CACHING_SIZE_def get_pool_capacity_def bnd_simps
        capacity_branch split: option.splits cong: if_cong)
  show thesis by (rule reused [where nm = nm, OF i pa p r]) (simp add: ph' set_pool_def)
qed

lemma largest_class: "pool_size_array ! 15 = 65535"
  by (simp add: pool_size_array_def)

lemma release_pool_Inr:
  assumes "release_pool pa ph = Inr ph'"
  obtains (unknown) "pa \<notin> set (ph_used ph)" and "ph' = ph"
  | (freed) p c where "pa \<in> set (ph_used ph)" and "pools ph pa = Some p" and "pl_chunks p = [c]" and "heap ph pa \<noteq> None"
      and "ph' = ph\<lparr>ph_used := remove1 pa (ph_used ph), ph_used_count := sz_sub (ph_used_count ph) 1,
                    ph_used_size := sz_sub (ph_used_size ph) (sz_sub (ck_end c) pa),
                    pools := (pools ph)(pa := None), heap := (heap ph)(pa := None)\<rparr>"
  | (cached) p where "pa \<in> set (ph_used ph)" and "pools ph pa = Some p" and "pl_data p \<noteq> 16"
      and "sz_add (pl_capacity p) (ph_capacity ph) \<le> ph_max_capacity ph" and "pl_capacity p \<le> 65535"
      and "ph' = ph\<lparr>ph_used := remove1 pa (ph_used ph), ph_used_count := sz_sub (ph_used_count ph) 1,
                    ph_free := (ph_free ph)[nat (pl_data p) := ph_free ph ! nat (pl_data p) @ [pa]],
                    ph_capacity := sz_add (ph_capacity ph) (pl_capacity p)\<rparr>"
proof -
  obtain p where p: "pools ph pa = Some p" using assms by (auto simp: release_pool_def split: option.splits)
  let ?ph1 = "ph\<lparr>ph_used := remove1 pa (ph_used ph), ph_used_count := sz_sub (ph_used_count ph) 1\<rparr>"
  let ?out = "pl_data p = 16 \<or> ph_max_capacity ph < sz_add (pl_capacity p) (ph_capacity ph) \<or> 65535 < pl_capacity p"
  have eq: "Inr ph' =
     (if pa \<notin> set (ph_used ph) then Inr ph
      else if ?out then release_pool2 pa ?ph1
      else Inr (?ph1\<lparr>ph_free := (ph_free ph)[nat (pl_data p) := ph_free ph ! nat (pl_data p) @ [pa]],
                    ph_capacity := sz_add (ph_capacity ph) (pl_capacity p)\<rparr>))"
    unfolding assms [symmetric] using p by (simp add: release_pool_def Let_def get_pool_capacity_def largest_class
        ATP_MEMORY_POOL_CACHING_SIZE_def)
  consider (a) "pa \<notin> set (ph_used ph)" | (b) "pa \<in> set (ph_used ph)" "?out" | (c) "pa \<in> set (ph_used ph)" "\<not> ?out"
    by blast
  then show thesis
  proof cases
    case a
    then show thesis using eq unknown by simp
  next
    case b
    then have "release_pool2 pa ?ph1 = Inr ph'" using eq by simp
    then show thesis by (rule release_pool2_Inr) (use b p in \<open>auto intro: freed\<close>)
  next
    case c
    then show thesis using eq p by (intro cached) simp_all
  qed
qed

section \<open>The invariant of the pool helper\<close>

text \<open>
  \<open>lists_ok\<close>: the used list and the sixteen free lists hold every pool object once; the counters
  agree with the lists; the cached capacity is the sum over the cached pools and within the
  maximum; a cached pool is in the list of its size class.
\<close>

definition cached_pools :: "pool_helper \<Rightarrow> nat list" where
  "cached_pools ph = concat (ph_free ph)"

definition cached_bytes :: "pool_helper \<Rightarrow> nat" where
  "cached_bytes ph = (\<Sum>pa \<leftarrow> cached_pools ph. pl_capacity (the (pools ph pa)))"

definition lists_ok :: "pool_helper \<Rightarrow> bool" where
  "lists_ok ph \<longleftrightarrow>
     length (ph_free ph) = 16 \<and>
     distinct (ph_used ph @ cached_pools ph) \<and>
     dom (pools ph) = set (ph_used ph) \<union> set (cached_pools ph) \<and>
     ph_used_count ph = length (ph_used ph) mod size_mod \<and>
     ph_max_capacity ph + 65535 < size_mod \<and>
     ph_capacity ph = cached_bytes ph \<and> ph_capacity ph \<le> ph_max_capacity ph \<and>
     (\<forall>i < 16. \<forall>pa \<in> set (ph_free ph ! i). pl_data (the (pools ph pa)) = int i) \<and>
     (\<forall>pa p. pools ph pa = Some p \<longrightarrow> 0 \<le> pl_data p \<and> pl_data p \<le> 16)"

definition live_bytes :: "(nat \<Rightarrow> nat option) \<Rightarrow> nat" where
  "live_bytes h = (\<Sum>b \<in> dom h. the (h b))"

text \<open>
  \<open>memory_ok\<close>: every pool owns its block and the blocks of its later chunks, and no later chunk
  starts where a pool does.
\<close>

definition memory_ok :: "pool_helper \<Rightarrow> bool" where
  "memory_ok ph \<longleftrightarrow>
     heap_wf (heap ph) \<and> finite (dom (heap ph)) \<and>
     (\<forall>pa p. pools ph pa = Some p \<longrightarrow>
        chunks_ok (heap ph) pa (pl_chunks p) \<and>
        (\<forall>c \<in> set (butlast (pl_chunks p)). pools ph (ck_self c) = None))"

definition helper_inv :: "pool_helper \<Rightarrow> bool" where
  "helper_inv ph \<longleftrightarrow> lists_ok ph \<and> memory_ok ph"

text \<open>\<open>used_size_\<close> is the number of live bytes.\<close>

definition accounted :: "pool_helper \<Rightarrow> bool" where
  "accounted ph \<longleftrightarrow> ph_used_size ph = live_bytes (heap ph) mod size_mod"

lemma concat_nth_split:
  assumes "i < length xss"
  shows "concat xss = concat (take i xss) @ xss ! i @ concat (drop (Suc i) xss)"
    and "concat (xss[i := ys]) = concat (take i xss) @ ys @ concat (drop (Suc i) xss)"
proof -
  show "concat xss = concat (take i xss) @ xss ! i @ concat (drop (Suc i) xss)"
    using id_take_nth_drop [OF assms] by (metis concat.simps(2) concat_append)
  show "concat (xss[i := ys]) = concat (take i xss) @ ys @ concat (drop (Suc i) xss)"
    by (simp add: upd_conv_take_nth_drop [OF assms])
qed

lemma sz_sub_mod: "b \<le> a \<Longrightarrow> sz_sub (a mod size_mod) b = (a - b) mod size_mod"
proof -
  assume "b \<le> a"
  have "sz_sub (a mod size_mod) b = (a + (size_mod - b mod size_mod)) mod size_mod"
    by (simp only: sz_sub_def mod_add_left_eq)
  also have "a + (size_mod - b mod size_mod) = (a - b) + (b + (size_mod - b mod size_mod))"
    using \<open>b \<le> a\<close> by linarith
  also have "b + (size_mod - b mod size_mod) = (b div size_mod + 1) * size_mod"
  proof -
    have "b = b div size_mod * size_mod + b mod size_mod" by simp
    moreover have "b mod size_mod < size_mod" by simp
    ultimately show ?thesis by (simp only: add_mult_distrib)
  qed
  finally show ?thesis by (simp only: mod_mult_self1)
qed

lemma sz_add_mod: "sz_add (a mod size_mod) b = (a + b) mod size_mod"
  by (simp add: sz_add_def mod_simps)

lemma cached_bytes_cong:
  assumes "ph_free ph' = ph_free ph"
    and "\<And>pa. pa \<in> set (cached_pools ph) \<Longrightarrow> pools ph' pa = pools ph pa"
  shows "cached_bytes ph' = cached_bytes ph"
  using assms unfolding cached_bytes_def cached_pools_def by (metis (no_types, lifting) map_eq_conv)

lemma lists_ok_data:
  assumes "lists_ok ph" and "pools ph pa = Some p" and "pl_data p \<noteq> 16"
  obtains i where "i < 16" and "pl_data p = int i"
proof -
  have "0 \<le> pl_data p" "pl_data p \<le> 16" using assms unfolding lists_ok_def by blast+
  then show thesis using assms(3) that [of "nat (pl_data p)"] by simp
qed

lemma free_in_cached: "i < length (ph_free ph) \<Longrightarrow> pa \<in> set (ph_free ph ! i) \<Longrightarrow> pa \<in> set (cached_pools ph)"
  unfolding cached_pools_def by (auto intro: nth_mem)

lemma lists_ok_store:
  assumes ok: "lists_ok ph" and "pa \<in> set (ph_used ph)" and "pools ph pa = Some p" and "pl_data p' = pl_data p"
  shows "lists_ok (set_pool pa p' ph)"
proof -
  have pa: "pa \<notin> set (cached_pools ph)" using ok assms(2) by (auto simp: lists_ok_def)
  have "cached_bytes (set_pool pa p' ph) = cached_bytes ph"
    by (rule cached_bytes_cong) (use pa in \<open>auto simp: set_pool_def\<close>)
  moreover have "pb \<noteq> pa" if "i < 16" "pb \<in> set (ph_free ph ! i)" for i pb
    using free_in_cached [of i ph pb] that pa ok by (auto simp: lists_ok_def)
  moreover have "dom (pools (set_pool pa p' ph)) = dom (pools ph)" using assms(3) by (auto simp: set_pool_def)
  ultimately show ?thesis
    using assms by (auto simp: lists_ok_def set_pool_def cached_pools_def)
qed

lemma lists_ok_created:
  assumes ok: "lists_ok ph" and "pools ph a = None" and "0 \<le> pl_data p" and "pl_data p \<le> 16"
  shows "lists_ok (set_pool a p (ph\<lparr>ph_used := a # ph_used ph, ph_used_count := sz_add (ph_used_count ph) 1\<rparr>))"
    (is "lists_ok ?ph'")
proof -
  have a: "a \<notin> set (ph_used ph)" "a \<notin> set (cached_pools ph)"
    using ok assms(2) by (auto simp: lists_ok_def)
  have "cached_bytes ?ph' = cached_bytes ph"
    by (rule cached_bytes_cong) (use a in \<open>auto simp: set_pool_def\<close>)
  moreover have "pb \<noteq> a" if "i < 16" "pb \<in> set (ph_free ph ! i)" for i pb
    using free_in_cached [of i ph pb] that a ok by (auto simp: lists_ok_def)
  moreover have "sz_add (length (ph_used ph) mod size_mod) 1 = length (a # ph_used ph) mod size_mod"
    by (simp add: sz_add_mod)
  ultimately show ?thesis
    using assms a by (auto simp: lists_ok_def set_pool_def cached_pools_def)
qed

lemma lists_ok_reused:
  assumes ok: "lists_ok ph" and i: "i < 16" and f: "ph_free ph ! i = pa # rest" and p: "pools ph pa = Some p"
    and p': "pl_data p' = int i" "pl_capacity p' = pl_capacity p"
  shows "lists_ok (set_pool pa p' (ph\<lparr>ph_free := (ph_free ph)[i := rest], ph_capacity := ph_capacity ph - pl_capacity p,
           ph_used := pa # ph_used ph, ph_used_count := sz_add (ph_used_count ph) 1\<rparr>))"
    (is "lists_ok ?ph'")
proof -
  define us vs where "us = concat (take i (ph_free ph))" and "vs = concat (drop (Suc i) (ph_free ph))"
  have len: "i < length (ph_free ph)" using ok i by (simp add: lists_ok_def)
  have old: "cached_pools ph = us @ (pa # rest) @ vs"
    using concat_nth_split(1) [OF len] by (simp add: cached_pools_def f us_def vs_def)
  have new: "cached_pools ?ph' = us @ rest @ vs"
    using concat_nth_split(2) [OF len] by (simp add: cached_pools_def set_pool_def us_def vs_def)
  have pa: "pa \<notin> set (us @ rest @ vs)" using ok old by (auto simp: lists_ok_def)
  have "cached_bytes ?ph' = (\<Sum>q \<leftarrow> us @ rest @ vs. pl_capacity (the (pools ph q)))"
    unfolding cached_bytes_def new using pa
    by (intro arg_cong [where f = sum_list] map_cong) (auto simp: set_pool_def)
  moreover have "cached_bytes ph = pl_capacity p + (\<Sum>q \<leftarrow> us @ rest @ vs. pl_capacity (the (pools ph q)))"
    unfolding cached_bytes_def old by (simp add: p)
  ultimately have "ph_capacity ?ph' = cached_bytes ?ph'"
    using ok by (simp add: lists_ok_def set_pool_def)
  moreover have "\<forall>j < 16. \<forall>q \<in> set (ph_free ?ph' ! j). pl_data (the (pools ?ph' q)) = int j"
  proof (intro allI impI ballI)
    fix j q assume j: "j < 16" and q: "q \<in> set (ph_free ?ph' ! j)"
    have "q \<in> set (cached_pools ?ph')" using free_in_cached [OF _ q] ok j by (simp add: lists_ok_def set_pool_def)
    then have "q \<noteq> pa" using pa new by auto
    moreover have "q \<in> set (ph_free ph ! j)"
      using q f len by (cases "i = j") (auto simp: set_pool_def)
    ultimately show "pl_data (the (pools ?ph' q)) = int j" using ok j by (auto simp: lists_ok_def set_pool_def)
  qed
  moreover have "distinct (ph_used ?ph' @ cached_pools ?ph')"
    using ok unfolding new by (auto simp: lists_ok_def old set_pool_def)
  moreover have "dom (pools ?ph') = set (ph_used ?ph') \<union> set (cached_pools ?ph')"
    using ok unfolding new by (auto simp: lists_ok_def old set_pool_def)
  moreover have "ph_used_count ?ph' = length (ph_used ?ph') mod size_mod"
    using ok by (simp add: lists_ok_def set_pool_def sz_add_mod)
  ultimately show ?thesis
    using ok i p' unfolding lists_ok_def by (auto simp: set_pool_def)
qed

lemma lists_ok_freed:
  assumes ok: "lists_ok ph" and pa: "pa \<in> set (ph_used ph)"
  shows "lists_ok (ph\<lparr>ph_used := remove1 pa (ph_used ph), ph_used_count := sz_sub (ph_used_count ph) 1,
           pools := (pools ph)(pa := None)\<rparr>)" (is "lists_ok ?ph'")
proof -
  have d: "distinct (ph_used ph)" "pa \<notin> set (cached_pools ph)" using ok pa by (auto simp: lists_ok_def)
  have "cached_bytes ?ph' = cached_bytes ph"
    by (rule cached_bytes_cong) (use d in auto)
  moreover have "pb \<noteq> pa" if "i < 16" "pb \<in> set (ph_free ph ! i)" for i pb
    using free_in_cached [of i ph pb] that d ok by (auto simp: lists_ok_def)
  moreover have "1 \<le> length (ph_used ph)" using pa by (cases "ph_used ph") auto
  then have "sz_sub (length (ph_used ph) mod size_mod) 1 = length (remove1 pa (ph_used ph)) mod size_mod"
    using pa by (simp add: sz_sub_mod length_remove1)
  ultimately show ?thesis
    using ok d by (auto simp: lists_ok_def cached_pools_def dest: in_set_remove1)
qed

lemma lists_ok_cached:
  assumes ok: "lists_ok ph" and pa: "pa \<in> set (ph_used ph)" and p: "pools ph pa = Some p"
    and i: "pl_data p = int i" "i < 16"
    and cap: "sz_add (pl_capacity p) (ph_capacity ph) \<le> ph_max_capacity ph" "pl_capacity p \<le> 65535"
  shows "lists_ok (ph\<lparr>ph_used := remove1 pa (ph_used ph), ph_used_count := sz_sub (ph_used_count ph) 1,
           ph_free := (ph_free ph)[i := ph_free ph ! i @ [pa]],
           ph_capacity := sz_add (ph_capacity ph) (pl_capacity p)\<rparr>)" (is "lists_ok ?ph'")
proof -
  define us vs where "us = concat (take i (ph_free ph))" and "vs = concat (drop (Suc i) (ph_free ph))"
  have len: "i < length (ph_free ph)" using ok i by (simp add: lists_ok_def)
  have old: "cached_pools ph = us @ ph_free ph ! i @ vs"
    using concat_nth_split(1) [OF len] by (simp add: cached_pools_def us_def vs_def)
  have new: "cached_pools ?ph' = us @ ph_free ph ! i @ pa # vs"
    using concat_nth_split(2) [OF len] by (simp add: cached_pools_def us_def vs_def)
  have d: "distinct (ph_used ph)" "pa \<notin> set (cached_pools ph)" using ok pa by (auto simp: lists_ok_def)
  have "ph_capacity ph + pl_capacity p < size_mod" using ok cap(2) by (simp add: lists_ok_def)
  then have sum: "sz_add (ph_capacity ph) (pl_capacity p) = ph_capacity ph + pl_capacity p"
    and le: "ph_capacity ph + pl_capacity p \<le> ph_max_capacity ph"
    using cap(1) by (simp_all add: size_simps add.commute)
  have "cached_bytes ?ph' = cached_bytes ph + pl_capacity p"
    unfolding cached_bytes_def new old by (simp add: p)
  then have "ph_capacity ?ph' = cached_bytes ?ph'" using ok sum by (simp add: lists_ok_def)
  moreover have "\<forall>j < 16. \<forall>q \<in> set (ph_free ?ph' ! j). pl_data (the (pools ?ph' q)) = int j"
    using ok i p len by (auto simp: lists_ok_def nth_list_update)
  moreover have "distinct (ph_used ?ph' @ cached_pools ?ph')"
    using ok d unfolding new by (auto simp: lists_ok_def old dest: in_set_remove1)
  moreover have "dom (pools ?ph') = set (ph_used ?ph') \<union> set (cached_pools ?ph')"
    using ok pa d unfolding new by (auto simp: lists_ok_def old)
  moreover have "1 \<le> length (ph_used ph)" using pa by (cases "ph_used ph") auto
  then have "ph_used_count ?ph' = length (ph_used ?ph') mod size_mod"
    using ok pa by (simp add: lists_ok_def sz_sub_mod length_remove1)
  ultimately show ?thesis
    using ok sum le unfolding lists_ok_def by auto
qed

lemma chunks_ok_owner: "chunks_ok h pa cs \<Longrightarrow> h pa \<noteq> None"
  by (induction h pa cs rule: chunks_ok.induct) auto

lemma chunks_ok_later: "chunks_ok h pa cs \<Longrightarrow> c \<in> set (butlast cs) \<Longrightarrow> h (ck_self c) \<noteq> None"
  by (induction h pa cs rule: chunks_ok.induct) auto

lemma chunks_ok_remove:
  "chunks_ok h pb cs \<Longrightarrow> pb \<noteq> pa \<Longrightarrow> \<forall>c \<in> set (butlast cs). ck_self c \<noteq> pa \<Longrightarrow> chunks_ok (h(pa := None)) pb cs"
  by (induction h pb cs rule: chunks_ok.induct) auto

lemma memory_ok_pool:
  assumes "memory_ok ph" and "pools ph pa = Some p"
  shows "chunks_ok (heap ph) pa (pl_chunks p)" and "heap ph pa \<noteq> None"
    and "c \<in> set (butlast (pl_chunks p)) \<Longrightarrow> pools ph (ck_self c) = None \<and> heap ph (ck_self c) \<noteq> None"
  using assms chunks_ok_owner chunks_ok_later unfolding memory_ok_def by blast+

lemma memory_ok_store:
  assumes ok: "memory_ok ph" and p: "pools ph pa = Some p" and c: "chunks_ok (heap ph) pa (pl_chunks p')"
    and s: "map ck_self (butlast (pl_chunks p')) = map ck_self (butlast (pl_chunks p))"
  shows "memory_ok (set_pool pa p' ph)"
proof -
  have "pools ph (ck_self d) = None \<and> ck_self d \<noteq> pa" if d: "d \<in> set (butlast (pl_chunks p'))" for d
  proof -
    have "ck_self d \<in> ck_self ` set (butlast (pl_chunks p))" using d s by (metis image_eqI set_map)
    then show ?thesis using memory_ok_pool(3) [OF ok p] p by auto
  qed
  moreover have "ck_self d \<noteq> pa" if "pools ph pb = Some q" "d \<in> set (butlast (pl_chunks q))" for pb q d
    using memory_ok_pool(3) [OF ok that] p by auto
  ultimately show ?thesis using ok c by (auto simp: memory_ok_def set_pool_def)
qed

lemma memory_ok_grow:
  assumes ok: "memory_ok ph" and wf: "heap_wf ((heap ph)(a \<mapsto> n))" and a: "heap ph a = None"
  shows "memory_ok (ph\<lparr>heap := (heap ph)(a \<mapsto> n)\<rparr>)"
proof -
  have "chunks_ok ((heap ph)(a \<mapsto> n)) pa (pl_chunks p)" if "pools ph pa = Some p" for pa p
    using chunks_ok_mono [OF memory_ok_pool(1) [OF ok that]] a by force
  then show ?thesis using ok wf by (auto simp: memory_ok_def)
qed

lemma memory_ok_new_chunk:
  assumes ok: "memory_ok ph" and p: "pools ph pa = Some p" and wf: "heap_wf ((heap ph)(a \<mapsto> n))"
    and a: "heap ph a = None" and n: "sizeof_chunk \<le> n"
    and c': "chunk_ok c'" "ck_self c' = a" "ck_end c' = a + n" and p': "pl_chunks p' = c' # pl_chunks p"
  shows "memory_ok (set_pool pa p' (ph\<lparr>heap := (heap ph)(a \<mapsto> n)\<rparr>))"
proof -
  have ok': "memory_ok (ph\<lparr>heap := (heap ph)(a \<mapsto> n)\<rparr>)" using memory_ok_grow [OF ok wf a] .
  have "chunks_ok ((heap ph)(a \<mapsto> n)) pa ([] @ new_chunk a n # pl_chunks p)"
    using chunks_ok_Cons [OF wf a n memory_ok_pool(1) [OF ok p]] by simp
  from chunks_ok_update [OF this c'(1)] have new: "chunks_ok ((heap ph)(a \<mapsto> n)) pa (pl_chunks p')"
    using c' p' by (simp add: new_chunk_def)
  have "pools ph a = None" using memory_ok_pool(2) [OF ok] a by (metis not_None_eq)
  moreover have "pl_chunks p \<noteq> []" using memory_ok_pool(1) [OF ok p] by auto
  ultimately have "pools ph (ck_self d) = None \<and> ck_self d \<noteq> pa" if "d \<in> set (butlast (pl_chunks p'))" for d
    using that memory_ok_pool(3) [OF ok p] p p' c'(2) by (auto split: if_splits)
  moreover have "ck_self d \<noteq> pa" if "pools ph pb = Some q" "d \<in> set (butlast (pl_chunks q))" for pb q d
    using memory_ok_pool(3) [OF ok that] p by auto
  ultimately show ?thesis using ok' new by (auto simp: memory_ok_def set_pool_def)
qed

lemma first_chunk_ok:
  assumes "8 dvd a" and "sizeof_pool + sizeof_chunk \<le> n"
  shows "chunk_ok (first_chunk a n)"
proof -
  have "8 dvd a + sizeof_pool + sizeof_chunk" using assms(1) by (simp add: sizeof_chunk_def sizeof_pool_def)
  then show ?thesis
    using assms(2) by (simp add: chunk_ok_def first_chunk_def ATP_MEMORY_POOL_ALIGN_def ATP_ALIGN_PTR_aligned)
qed

lemma memory_ok_created:
  assumes ok: "memory_ok ph" and wf: "heap_wf ((heap ph)(a \<mapsto> n))" and a: "heap ph a = None"
    and n: "sizeof_pool + sizeof_chunk \<le> n" and p: "pl_chunks p = [first_chunk a n]"
  shows "memory_ok (set_pool a p (ph\<lparr>heap := (heap ph)(a \<mapsto> n)\<rparr>))"
proof -
  have "8 dvd a" using wf by (auto simp: heap_wf_def)
  then have "chunks_ok ((heap ph)(a \<mapsto> n)) a (pl_chunks p)"
    using first_chunk_ok [OF _ n] by (simp add: p) (simp add: first_chunk_def)
  moreover have "ck_self d \<noteq> a" if "pools ph pb = Some q" "d \<in> set (butlast (pl_chunks q))" for pb q d
    using memory_ok_pool(3) [OF ok that] a by auto
  ultimately show ?thesis using memory_ok_grow [OF ok wf a] p by (auto simp: memory_ok_def set_pool_def)
qed

lemma heap_wf_remove: "heap_wf h \<Longrightarrow> heap_wf (h(a := None))"
  by (auto simp: heap_wf_def)

lemma memory_ok_freed:
  assumes ok: "memory_ok ph" and p: "pools ph pa = Some p"
  shows "memory_ok (ph\<lparr>pools := (pools ph)(pa := None), heap := (heap ph)(pa := None)\<rparr>)"
proof -
  have "chunks_ok ((heap ph)(pa := None)) pb (pl_chunks q)" if q: "pools ph pb = Some q" "pb \<noteq> pa" for pb q
    using memory_ok_pool(3) [OF ok q(1)] p q(2) by (intro chunks_ok_remove memory_ok_pool(1) [OF ok q(1)]) auto
  then show ?thesis using ok heap_wf_remove by (auto simp: memory_ok_def)
qed

lemma live_bytes_add:
  assumes "finite (dom h)" and "h a = None"
  shows "live_bytes (h(a \<mapsto> n)) = live_bytes h + n"
proof -
  have "a \<notin> dom h" using assms(2) by auto
  then have "(\<Sum>b \<in> dom h. the ((h(a \<mapsto> n)) b)) = (\<Sum>b \<in> dom h. the (h b))"
    by (intro sum.cong) auto
  then show ?thesis using assms(1) \<open>a \<notin> dom h\<close> by (simp add: live_bytes_def)
qed

lemma live_bytes_remove:
  assumes "finite (dom h)" and "h a = Some n"
  shows "live_bytes h = live_bytes (h(a := None)) + n"
  using live_bytes_add [of "h(a := None)" a n] assms by (simp add: fun_upd_idem)

section \<open>Steps of the pool helper\<close>

text \<open>
  One call of the interface. Allocations go to pools in use and ask for less than the whole
  address space; with \<open>granted\<close> the C library refuses nothing.
\<close>

inductive pool_step :: "bool \<Rightarrow> pool_helper \<Rightarrow> pool_helper \<Rightarrow> bool" for granted where
  create: "fresh ans ph \<Longrightarrow> (granted \<Longrightarrow> ans \<noteq> None) \<Longrightarrow>
    create_pool ans name init incr ph = Inr (r, ph') \<Longrightarrow> heap_wf (heap ph') \<Longrightarrow> pool_step granted ph ph'"
| alloc: "fresh ans ph \<Longrightarrow> (granted \<Longrightarrow> ans \<noteq> None) \<Longrightarrow> pa \<in> set (ph_used ph) \<Longrightarrow> sz + 8 < size_mod \<Longrightarrow>
    pool_alloc ans pa sz ph = Inr (r, ph') \<Longrightarrow> heap_wf (heap ph') \<Longrightarrow> pool_step granted ph ph'"
| release: "release_pool pa ph = Inr ph' \<Longrightarrow> pool_step granted ph ph'"

text \<open>The two parts of the invariant read only some of the fields.\<close>

lemma inv_fields [simp]:
  "lists_ok (ph\<lparr>ph_used_size := k\<rparr>) = lists_ok ph"
  "lists_ok (ph\<lparr>heap := h\<rparr>) = lists_ok ph"
  "memory_ok (ph\<lparr>ph_used_size := k\<rparr>) = memory_ok ph"
  "memory_ok (ph\<lparr>ph_used := u\<rparr>) = memory_ok ph"
  "memory_ok (ph\<lparr>ph_used_count := k\<rparr>) = memory_ok ph"
  "memory_ok (ph\<lparr>ph_free := f\<rparr>) = memory_ok ph"
  "memory_ok (ph\<lparr>ph_capacity := k\<rparr>) = memory_ok ph"
  by (simp_all add: lists_ok_def memory_ok_def cached_bytes_def cached_pools_def)

lemma memory_ok_cong: "memory_ok ph \<Longrightarrow> heap ph' = heap ph \<Longrightarrow> pools ph' = pools ph \<Longrightarrow> memory_ok ph'"
  by (simp add: memory_ok_def)

lemma accounted_grow:
  assumes "memory_ok ph" and "heap ph a = None" and "accounted ph"
  shows "sz_add (ph_used_size ph) n = live_bytes ((heap ph)(a \<mapsto> n)) mod size_mod"
  using assms by (simp add: accounted_def live_bytes_add memory_ok_def sz_add_mod)

lemma create_keeps_inv:
  assumes inv: "helper_inv ph" and "fresh ans ph" and "create_pool ans name init incr ph = Inr (r, ph')"
    and wf: "heap_wf (heap ph')"
  shows "helper_inv ph' \<and> (ans \<noteq> None \<longrightarrow> accounted ph \<longrightarrow> accounted ph')"
  using assms(3)
proof (cases rule: create_pool_Inr)
  case (refused n)
  then show ?thesis using inv by (simp add: helper_inv_def)
next
  case (created a g n nm)
  have a: "heap ph a = None" using created assms(2) by (simp add: fresh_def)
  have h: "heap_wf ((heap ph)(a \<mapsto> n))" using wf created(4) by (simp add: set_pool_def)
  have ok: "lists_ok ph" "memory_ok ph" using inv by (simp_all add: helper_inv_def)
  have "pools ph a = None" using memory_ok_pool(2) [OF ok(2)] a by (metis not_None_eq)
  then have "lists_ok ph'"
    using lists_ok_created [of "ph\<lparr>ph_used_size := sz_add (ph_used_size ph) n, heap := (heap ph)(a \<mapsto> n)\<rparr>" a]
      ok(1) atp_binary_search_range created(4) by simp
  moreover have "memory_ok ph'"
    by (rule memory_ok_cong [OF memory_ok_created [OF ok(2) h a created(3)]])
      (simp_all add: created(4) set_pool_def)
  moreover have "accounted ph \<longrightarrow> accounted ph'"
    using accounted_grow [OF ok(2) a] created(4) by (simp add: accounted_def set_pool_def)
  ultimately show ?thesis by (simp add: helper_inv_def)
next
  case (reused i pa rest p nm)
  have ok: "lists_ok ph" "memory_ok ph" using inv by (simp_all add: helper_inv_def)
  have "lists_ok ph'" using lists_ok_reused [OF ok(1) reused(1,3,4)] reused(6) by simp
  moreover have "memory_ok ph'"
    by (rule memory_ok_cong [OF memory_ok_store [OF ok(2) reused(4)]])
      (use memory_ok_pool(1) [OF ok(2) reused(4)] in \<open>simp_all add: reused(6) set_pool_def\<close>)
  moreover have "accounted ph \<longrightarrow> accounted ph'" using reused(6) by (simp add: accounted_def set_pool_def)
  ultimately show ?thesis by (simp add: helper_inv_def)
qed

lemma alloc_keeps_inv:
  assumes inv: "helper_inv ph" and "fresh ans ph" and pa: "pa \<in> set (ph_used ph)" and sz: "sz + 8 < size_mod"
    and "pool_alloc ans pa sz ph = Inr (r, ph')" and wf: "heap_wf (heap ph')"
  shows "helper_inv ph' \<and> (ans \<noteq> None \<longrightarrow> accounted ph \<longrightarrow> accounted ph')"
proof -
  have ok: "lists_ok ph" "memory_ok ph" using inv by (simp_all add: helper_inv_def)
  from assms(5) show ?thesis
  proof (cases rule: pool_alloc_Inr)
    case (inplace p us c c' vs)
    have cs: "chunks_ok (heap ph) pa (us @ c # vs)" using memory_ok_pool(1) [OF ok(2) inplace(1)] inplace(2) by simp
    have "chunk_ok c" "ck_end c < size_mod"
      using chunks_ok_chunk [OF cs] chunk_end_bound [OF _ cs] ok(2) by (auto simp: memory_ok_def)
    note c' = alloc_keeps_chunk_ok(1-3) [OF inplace(3) this sz]
    have "memory_ok ph'"
      using chunks_ok_update [OF cs c'] c'(2) inplace(2,5)
      by (auto intro!: memory_ok_store [OF ok(2) inplace(1)] simp: butlast_append)
    moreover have "lists_ok ph'" using inplace(5) by (auto intro!: lists_ok_store [OF ok(1) pa inplace(1)])
    ultimately show ?thesis using inplace(5) by (simp add: helper_inv_def accounted_def set_pool_def)
  next
    case (grown p n a g c')
    have a: "heap ph a = None" using grown assms(2) by (simp add: fresh_def)
    have h: "heap_wf ((heap ph)(a \<mapsto> n))" using wf grown(5) by (simp add: set_pool_def)
    have "8 dvd a" "a + n < size_mod" using h by (auto simp: heap_wf_def)
    then have "chunk_ok (new_chunk a n)" "ck_end (new_chunk a n) < size_mod"
      using new_chunk_ok [OF _ grown(3)] by (simp_all add: new_chunk_def)
    note c' = alloc_keeps_chunk_ok(1-3) [OF grown(4) this sz]
    have "memory_ok ph'"
      by (rule memory_ok_cong [OF memory_ok_new_chunk [OF ok(2) grown(1) h a grown(3) c'(1)]])
        (use c'(2,3) in \<open>simp_all add: grown(5) new_chunk_def set_pool_def\<close>)
    moreover have "lists_ok ph'"
      using lists_ok_store [of "ph\<lparr>ph_used_size := sz_add (ph_used_size ph) n, heap := (heap ph)(a \<mapsto> n)\<rparr>" pa p]
        ok(1) pa grown(1,5) by simp
    moreover have "accounted ph \<longrightarrow> accounted ph'"
      using accounted_grow [OF ok(2) a] grown(5) by (simp add: accounted_def set_pool_def)
    ultimately show ?thesis by (simp add: helper_inv_def)
  qed (use inv in \<open>auto simp: helper_inv_def\<close>)
qed

lemma release_keeps_inv:
  assumes inv: "helper_inv ph" and "release_pool pa ph = Inr ph'"
  shows "helper_inv ph' \<and> (accounted ph \<longrightarrow> accounted ph')"
proof -
  have ok: "lists_ok ph" "memory_ok ph" using inv by (simp_all add: helper_inv_def)
  from assms(2) show ?thesis
  proof (cases rule: release_pool_Inr)
    case unknown
    then show ?thesis using inv by simp
  next
    case (freed p c)
    obtain n where n: "heap ph pa = Some n" "ck_end c = pa + n"
      using memory_ok_pool(1) [OF ok(2) freed(2)] freed(3) by auto
    then have "pa + n < size_mod" using ok(2) by (auto simp: memory_ok_def heap_wf_def)
    then have "sz_sub (ck_end c) pa = n" using n(2) by (simp add: size_simps)
    moreover have "live_bytes (heap ph) = live_bytes ((heap ph)(pa := None)) + n"
      using live_bytes_remove ok(2) n(1) by (simp add: memory_ok_def)
    ultimately have "accounted ph \<longrightarrow> accounted ph'" using freed(5) by (simp add: accounted_def sz_sub_mod)
    moreover have "lists_ok ph'"
    proof -
      have "lists_ok (ph\<lparr>ph_used := remove1 pa (ph_used ph), ph_used_count := sz_sub (ph_used_count ph) 1,
           pools := (pools ph)(pa := None)\<rparr>)" by (rule lists_ok_freed [OF ok(1) freed(1)])
      then show ?thesis by (simp add: freed(5) lists_ok_def cached_bytes_def cached_pools_def)
    qed
    moreover have "memory_ok ph'" using memory_ok_freed [OF ok(2) freed(2)] by (simp add: freed(5) memory_ok_def)
    ultimately show ?thesis by (simp add: helper_inv_def)
  next
    case (cached p)
    obtain i where i: "i < 16" "pl_data p = int i" using lists_ok_data [OF ok(1) cached(2,3)] .
    have "lists_ok ph'" using lists_ok_cached [OF ok(1) cached(1,2) i(2,1) cached(4,5)] cached(6) i by simp
    then show ?thesis using ok(2) cached(6) by (simp add: helper_inv_def accounted_def)
  qed
qed

lemma pool_step_keeps_inv:
  assumes "pool_step granted ph ph'" and "helper_inv ph"
  shows "helper_inv ph' \<and> (granted \<longrightarrow> accounted ph \<longrightarrow> accounted ph')"
  using assms
proof cases
  case (create ans name init incr r)
  then show ?thesis using create_keeps_inv [OF assms(2) create(1,3,4)] by simp
next
  case (alloc ans pa sz r)
  then show ?thesis using alloc_keeps_inv [OF assms(2) alloc(1,3-6)] by simp
next
  case (release pa)
  then show ?thesis using release_keeps_inv [OF assms(2)] by simp
qed

lemma used_pool_exists:
  assumes "helper_inv ph" and "pa \<in> set (ph_used ph)"
  obtains p where "pools ph pa = Some p"
proof -
  have "pa \<in> dom (pools ph)" using assms by (simp add: helper_inv_def lists_ok_def)
  then show thesis using that by blast
qed

definition no_pools :: "pool_helper \<Rightarrow> bool" where
  "no_pools ph \<longleftrightarrow> pools ph = Map.empty \<and> heap ph = Map.empty"

lemma init_inv:
  assumes "no_pools ph" and "maxc + 65535 < size_mod"
  shows "helper_inv (pool_helper_init policy maxc ph) \<and> accounted (pool_helper_init policy maxc ph)"
  using assms
  by (auto simp: helper_inv_def lists_ok_def memory_ok_def accounted_def pool_helper_init_def no_pools_def
      cached_pools_def cached_bytes_def live_bytes_def heap_wf_def ATP_MEMORY_POOL_CACHING_SIZE_def)

interpretation pool_steps: step_invariant "pool_step granted" "\<lambda>ph. helper_inv ph \<and> (granted \<longrightarrow> accounted ph)" for granted
  by unfold_locales (use pool_step_keeps_inv in blast)

section \<open>Properties\<close>

text \<open>
  The binary search returns the number of size classes that are too small for the request,
  that is, the index of the least class that fits, and sixteen when no class fits.
\<close>

lemma size_class_least:
  "atp_binary_search v = int (length (takeWhile (\<lambda>c. c < v) pool_size_array))"
proof -
  obtain p where p: "p \<le> 16" "atp_binary_search v = int p" "p < 16 \<longrightarrow> v \<le> pool_size_array ! p"
    "\<forall>i < p. pool_size_array ! i < v"
    using atp_binary_search_least by blast
  then have "takeWhile (\<lambda>c. c < v) pool_size_array = take p pool_size_array"
    by (intro takeWhile_eq_take_P_nth) auto
  then show ?thesis using p by simp
qed

text \<open>A helper with one pool of the smallest class.\<close>

definition raw_helper :: pool_helper where
  "raw_helper =
     \<lparr>ph_policy = new_policy, ph_capacity = 7, ph_max_capacity = 0, ph_used_count = 0, ph_used_size = 0,
      ph_used = [], ph_free = [], pools = Map.empty, heap = Map.empty\<rparr>"

definition sample_helper :: pool_helper where
  "sample_helper = pool_helper_init None 100000 raw_helper"

definition sample_pool :: pool where
  "sample_pool = \<lparr>pl_name = 97 # replicate 63 0, pl_capacity = 256, pl_incr_size = 512, pl_data = 0,
     pl_chunks = [first_chunk 4096 256]\<rparr>"

definition sample_helper1 :: pool_helper where
  "sample_helper1 = sample_helper
     \<lparr>ph_used_size := 256, heap := [4096 \<mapsto> 256], ph_used := [4096], ph_used_count := 1,
      pools := [4096 \<mapsto> sample_pool]\<rparr>"

lemma sample_inv: "helper_inv sample_helper" "accounted sample_helper"
  using init_inv [of raw_helper 100000 None]
  by (simp_all add: sample_helper_def no_pools_def raw_helper_def size_mod_def)

lemma sample_class: "atp_binary_search 100 = 0" "pool_size_array ! 0 = 256"
  by (simp_all add: atp_binary_search_def pool_size_array_def)

lemma sample_create: "create_pool (Some (4096, [])) [97] 100 512 sample_helper = Inr (Some 4096, sample_helper1)"
  by (simp add: create_pool_def sample_class sample_helper1_def sample_pool_def
      sample_helper_def raw_helper_def pool_helper_init_def ATP_MEMORY_POOL_CACHING_SIZE_def policy_alloc_Some block_name_def
      zero_name_def ATP_MEMORY_POOL_NAME_def strncpy_name_def mem_write_def set_pool_def first_chunk_def
      sizeof_pool_def sizeof_chunk_def sz_add_def size_mod_def Let_def)

lemma sample_heap_wf: "heap_wf [4096 \<mapsto> 256]"
  by (auto simp: heap_wf_def size_mod_def split: if_splits)

lemma sample_step: "pool_step True sample_helper sample_helper1"
  by (rule pool_step.create [OF _ _ sample_create])
    (use sample_heap_wf in \<open>auto simp: fresh_def sample_helper1_def sample_helper_def raw_helper_def pool_helper_init_def\<close>)

text \<open>
  C2. Whatever sequence of create, allocate and release calls runs on a freshly initialised helper:
  the used list and the free lists hold each pool once, the counters agree with them, the cached
  capacity is the sum over the cached pools and at most the maximum, the chunks of every pool lie
  in live blocks of their own, and when the C library refuses nothing, \<open>used_size_\<close> is the number
  of live bytes.
\<close>

theorem pool_helper_invariant:
  assumes "no_pools ph0" and "maxc + 65535 < size_mod"
    and "(pool_step granted)\<^sup>*\<^sup>* (pool_helper_init policy maxc ph0) ph"
  shows "lists_ok ph \<and> memory_ok ph \<and> (granted \<longrightarrow> accounted ph)"
proof -
  have "helper_inv ph \<and> (granted \<longrightarrow> accounted ph)"
    using pool_steps.steps_keep [OF assms(3)] init_inv [OF assms(1,2), of policy] by blast
  then show ?thesis by (simp add: helper_inv_def)
qed

theorem pool_helper_invariant_witness:
  "lists_ok sample_helper1 \<and> memory_ok sample_helper1 \<and> accounted sample_helper1"
proof -
  have "no_pools raw_helper" by (simp add: no_pools_def raw_helper_def)
  moreover have "(100000 :: nat) + 65535 < size_mod" by (simp add: size_mod_def)
  moreover have "(pool_step True)\<^sup>*\<^sup>* (pool_helper_init None 100000 raw_helper) sample_helper1"
    using sample_step by (simp add: sample_helper_def)
  ultimately show ?thesis using pool_helper_invariant [of raw_helper 100000 True None sample_helper1] by blast
qed

text \<open>
  C17. The regions that a run of allocations from a pool in use hands out are multiples of eight, lie in a live
  block at least the size of a chunk header behind its start, and are pairwise disjoint.
\<close>

theorem pool_regions_disjoint:
  assumes "helper_inv ph" and "pa \<in> set (ph_used ph)" and "alloc_run pa ph rs ph'"
  shows "sorted_wrt region_disjoint rs \<and> (\<forall>r \<in> set rs. 8 dvd fst r \<and>
      (\<exists>b n. heap ph' b = Some n \<and> b + sizeof_chunk \<le> fst r \<and> fst r + snd r \<le> b + n))"
proof -
  obtain p where p: "pools ph pa = Some p" using used_pool_exists [OF assms(1,2)] .
  then have "chunks_ok (heap ph) pa (pl_chunks p)" "heap_wf (heap ph)"
    using assms(1) memory_ok_pool(1) by (auto simp: helper_inv_def memory_ok_def)
  then have "pool_state_ok pa ph []" using p by (simp add: pool_state_ok_def regions_ok_def)
  from alloc_run_ok [OF assms(3) this] obtain q :: pool where q: "heap_wf (heap ph')"
    "chunks_ok (heap ph') pa (pl_chunks q)" "regions_ok (pl_chunks q) rs" by (auto simp: pool_state_ok_def)
  show ?thesis
  proof (intro conjI ballI)
    show "sorted_wrt region_disjoint rs" using q(3) by (simp add: regions_ok_def)
  next
    fix r assume "r \<in> set rs"
    then obtain c where c: "c \<in> set (pl_chunks q)" "region_in c r" using q(3) by (auto simp: regions_ok_def)
    obtain b n where "heap ph' b = Some n" "b + sizeof_chunk \<le> ck_buf c" "ck_end c = b + n"
      using chunks_ok_block [OF q(2) c(1)] by blast
    moreover have "chunk_ok c" using chunks_ok_chunk [OF q(2) c(1)] .
    ultimately have "heap ph' b = Some n \<and> b + sizeof_chunk \<le> fst r \<and> fst r + snd r \<le> b + n" "8 dvd fst r"
      using c(2) by (auto simp: region_in_def chunk_ok_def)
    then show "8 dvd fst r"
      and "\<exists>b n. heap ph' b = Some n \<and> b + sizeof_chunk \<le> fst r \<and> fst r + snd r \<le> b + n" by blast+
  qed
qed

text \<open>The sample pool with its cursor at \<open>k\<close>.\<close>

definition sample_at :: "nat \<Rightarrow> pool_helper" where
  "sample_at k = set_pool 4096 (sample_pool\<lparr>pl_chunks := [(first_chunk 4096 256)\<lparr>ck_cur := k\<rparr>]\<rparr>) sample_helper1"

lemma sample_alloc:
  assumes "0 < sz" and "k + align_size sz \<le> 4352"
  shows "pool_alloc None 4096 sz (sample_at k) = Inr (Some k, sample_at (k + align_size sz))"
proof -
  have "align_size sz \<le> 4352 - k" using assms(2) by linarith
  then show ?thesis
    using assms
    by (simp add: pool_alloc_def pool_alloc_from_chunk_def sample_at_def set_pool_def first_chunk_def Let_def
        size_simps size_mod_def)
qed

lemma sample_at_start: "sample_at 4264 = sample_helper1"
proof -
  have "first_chunk 4096 256 = (first_chunk 4096 256)\<lparr>ck_cur := 4264\<rparr>"
    by (simp add: first_chunk_def sizeof_pool_def sizeof_chunk_def ATP_MEMORY_POOL_ALIGN_def ATP_ALIGN_PTR_8)
  then have "sample_pool = sample_pool\<lparr>pl_chunks := [(first_chunk 4096 256)\<lparr>ck_cur := 4264\<rparr>]\<rparr>"
    by (simp add: sample_pool_def)
  then show ?thesis by (simp add: sample_at_def sample_helper1_def set_pool_def)
qed

lemma sample_align: "align_size 10 = 16" "align_size 8 = 8"
  by (simp_all add: align_size_def ATP_MEMORY_POOL_ALIGN_def and_7 and_not_7 sz_add_def size_mod_def)

lemma sample_run: "alloc_run 4096 sample_helper1 [(4280, 8), (4264, 10)] (sample_at 4288)"
proof -
  have h: "heap (sample_at k) = [4096 \<mapsto> 256]" for k by (simp add: sample_at_def set_pool_def sample_helper1_def)
  have "pool_alloc None 4096 10 sample_helper1 = Inr (Some 4264, sample_at 4280)"
    using sample_alloc [of 10 4264] by (simp add: sample_align sample_at_start)
  from alloc_run.step [OF alloc_run.start _ _ this]
  have "alloc_run 4096 sample_helper1 [(4264, 10)] (sample_at 4280)"
    using sample_heap_wf h by (simp add: fresh_def size_mod_def)
  moreover have "pool_alloc None 4096 8 (sample_at 4280) = Inr (Some 4280, sample_at 4288)"
    using sample_alloc [of 8 4280] by (simp add: sample_align)
  ultimately show ?thesis
    using alloc_run.step [of 4096 sample_helper1 _ "sample_at 4280" None 8 "Some 4280" "sample_at 4288"] sample_heap_wf h
    by (simp add: fresh_def size_mod_def)
qed

lemma sample_inv1: "helper_inv sample_helper1"
  using pool_step_keeps_inv [OF sample_step sample_inv(1)] by simp

theorem pool_regions_disjoint_witness:
  "alloc_run 4096 sample_helper1 [(4280, 8), (4264, 10)] (sample_at 4288) \<and>
   sorted_wrt region_disjoint [(4280, 8), (4264, 10)]"
  using pool_regions_disjoint [OF sample_inv1 _ sample_run] sample_run by (simp add: sample_helper1_def)

text \<open>
  C35. Releasing for good a pool that has grown is an error: with one extra chunk the address of the
  chunk that is embedded in the pool goes to \<open>free\<close>, with more the loop reads a link from a chunk
  it has just freed.
\<close>

theorem release_grown_pool_faults:
  assumes "helper_inv ph" and "pools ph pa = Some p" and "2 \<le> length (pl_chunks p)"
  shows "release_pool2 pa ph = Inl (if length (pl_chunks p) = 2 then InvalidFree else UseAfterFree)"
proof -
  have ok: "memory_ok ph" using assms(1) by (simp add: helper_inv_def)
  obtain c d ds where cs: "pl_chunks p = c # d # ds"
    using assms(3) by (metis Suc_le_length_iff numeral_2_eq_2)
  have all: "chunks_ok (heap ph) pa (c # d # ds)" using memory_ok_pool(1) [OF ok assms(2)] cs by simp
  show ?thesis
  proof (cases ds)
    case Nil
    then obtain n where n: "heap ph pa = Some n" "ck_self d = pa + sizeof_pool" "ck_end d = pa + n" "chunk_ok d"
      using all by auto
    have "heap ph (ck_self d) = None"
    proof (rule ccontr)
      assume "heap ph (ck_self d) \<noteq> None"
      then obtain m where "heap ph (ck_self d) = Some m" by blast
      then have "pa + n \<le> ck_self d \<or> ck_self d + m \<le> pa"
        using ok n(1,2) unfolding memory_ok_def heap_wf_def
        by (metis add_cancel_left_right sizeof_pool_def zero_neq_numeral)
      then show False using n by (auto simp: chunk_ok_def sizeof_pool_def sizeof_chunk_def)
    qed
    then show ?thesis using assms(2) cs Nil by (simp add: release_pool2_def policy_free_eq)
  next
    case (Cons e es)
    then have "heap ph (ck_self d) \<noteq> None" using all by auto
    then show ?thesis using assms(2) cs Cons by (simp add: release_pool2_def policy_free_eq)
  qed
qed

text \<open>The sample pool after a request of 600 bytes, which opens a second chunk of 1024 bytes.\<close>

definition grown_helper :: pool_helper where
  "grown_helper = set_pool 4096
     (sample_pool\<lparr>pl_capacity := 1280, pl_chunks := [(new_chunk 8192 1024)\<lparr>ck_cur := 8832\<rparr>, first_chunk 4096 256]\<rparr>)
     (sample_helper1\<lparr>ph_used_size := 1280, heap := [4096 \<mapsto> 256, 8192 \<mapsto> 1024]\<rparr>)"

lemma grown_chunk_size: "new_chunk_size 512 600 = 1024"
  by (simp add: new_chunk_size_def sizeof_chunk_def sz_add_def size_mod_def size_to_int_def int_to_size_def
      ATP_MEMORY_POOL_ALIGN_def)

lemma align_600: "align_size 600 = 600"
  by (simp add: align_size_def ATP_MEMORY_POOL_ALIGN_def and_7)

lemma sample_no_room: "pool_alloc_from_chunk (first_chunk 4096 256) 600 = (None, first_chunk 4096 256)"
  by (simp add: pool_alloc_from_chunk_def first_chunk_def align_600 sizeof_pool_def sizeof_chunk_def
      ATP_MEMORY_POOL_ALIGN_def ATP_ALIGN_PTR_8 sz_sub_def size_mod_def Let_def)

lemma sample_new_room:
  "pool_alloc_from_chunk (new_chunk 8192 1024) 600 = (Some 8232, (new_chunk 8192 1024)\<lparr>ck_cur := 8832\<rparr>)"
  by (simp add: pool_alloc_from_chunk_def new_chunk_def align_600 sizeof_chunk_def
      ATP_MEMORY_POOL_ALIGN_def ATP_ALIGN_PTR_8 sz_sub_def size_mod_def Let_def)

lemma sample_grow_chunk:
  "create_chunk_append_pool (Some (8192, [])) 4096 1024 sample_helper1 =
     Inr (True, set_pool 4096 (sample_pool\<lparr>pl_capacity := 1280, pl_chunks := [new_chunk 8192 1024, first_chunk 4096 256]\<rparr>)
       (sample_helper1\<lparr>ph_used_size := 1280, heap := [4096 \<mapsto> 256, 8192 \<mapsto> 1024]\<rparr>))"
  by (simp add: create_chunk_append_pool_def policy_alloc_Some sizeof_chunk_def sample_helper1_def sample_pool_def
      new_chunk_def set_pool_def sz_add_def size_mod_def)

lemma sample_grow: "pool_alloc (Some (8192, [])) 4096 600 sample_helper1 = Inr (Some 8232, grown_helper)"
proof -
  have p: "pools sample_helper1 4096 = Some sample_pool" "pl_chunks sample_pool = [first_chunk 4096 256]"
    "pl_incr_size sample_pool = 512" by (simp_all add: sample_helper1_def sample_pool_def)
  show ?thesis
    by (simp add: pool_alloc_def pool_alloc_find_def p sample_no_room grown_chunk_size sample_grow_chunk
        sample_new_room grown_helper_def set_pool_def)
qed

lemma grown_inv: "helper_inv grown_helper"
proof -
  have "fresh (Some (8192, [])) sample_helper1" "4096 \<in> set (ph_used sample_helper1)"
    by (simp_all add: fresh_def sample_helper1_def)
  moreover have "heap_wf (heap grown_helper)"
    by (auto simp: grown_helper_def set_pool_def heap_wf_def size_mod_def split: if_splits)
  ultimately show ?thesis using alloc_keeps_inv [OF sample_inv1 _ _ _ sample_grow] by (simp add: size_mod_def)
qed

theorem release_grown_pool_faults_witness: "release_pool2 4096 grown_helper = Inl InvalidFree"
  using release_grown_pool_faults [OF grown_inv, of 4096] by (simp add: grown_helper_def set_pool_def)

text \<open>
  A released pool is cached and handed out again: when the cache has room for it and its class
  list is empty, release followed by create for the same class returns the same pool without
  calling the C library, with the new name over the old one, and with the chunk cursors where the
  former user left them.
\<close>

lemma pool_cache_reuse:
  assumes inv: "helper_inv ph" and pa: "pa \<in> set (ph_used ph)" and p: "pools ph pa = Some p"
    and i: "pl_data p = int i" "i < 16" "ph_free ph ! i = []" "atp_binary_search init = int i"
    and cap: "pl_capacity p \<le> 65535" "pl_capacity p + ph_capacity ph \<le> ph_max_capacity ph"
    and nm: "length name \<le> length (pl_name p)"
  shows "\<exists>ph1 ph2 q. release_pool pa ph = Inr ph1 \<and> create_pool ans name init incr ph1 = Inr (Some pa, ph2)
     \<and> heap ph2 = heap ph \<and> ph_used_size ph2 = ph_used_size ph \<and> ph_capacity ph2 = ph_capacity ph
     \<and> pools ph2 pa = Some q \<and> pl_chunks q = pl_chunks p \<and> pl_incr_size q = incr
     \<and> pl_name q = name @ drop (length name) (pl_name p)"
proof -
  have ok: "lists_ok ph" using inv by (simp add: helper_inv_def)
  then have sum: "sz_add (pl_capacity p) (ph_capacity ph) = ph_capacity ph + pl_capacity p"
    "sz_add (ph_capacity ph) (pl_capacity p) = ph_capacity ph + pl_capacity p"
    using cap by (simp_all add: lists_ok_def size_simps)
  have len: "length (ph_free ph) = 16" using ok by (simp add: lists_ok_def)
  define ph1 where "ph1 = ph\<lparr>ph_used := remove1 pa (ph_used ph), ph_used_count := sz_sub (ph_used_count ph) 1,
    ph_free := (ph_free ph)[i := [pa]], ph_capacity := ph_capacity ph + pl_capacity p\<rparr>"
  have "release_pool pa ph = Inr ph1"
    using p pa i cap by (simp add: release_pool_def Let_def get_pool_capacity_def largest_class
        ATP_MEMORY_POOL_CACHING_SIZE_def sum ph1_def)
  moreover have "\<exists>ph2. create_pool ans name init incr ph1 = Inr (Some pa, ph2) \<and> heap ph2 = heap ph
     \<and> ph_used_size ph2 = ph_used_size ph \<and> ph_capacity ph2 = ph_capacity ph
     \<and> pools ph2 pa = Some (p\<lparr>pl_incr_size := incr, pl_name := name @ drop (length name) (pl_name p), pl_data := int i\<rparr>)"
    using p i len nm
    by (simp add: create_pool_def Let_def ATP_MEMORY_POOL_CACHING_SIZE_def get_pool_capacity_def ph1_def
        strncpy_name_def mem_write_def set_pool_def)
  ultimately show ?thesis by fastforce
qed

lemma pool_cache_reuse_witness:
  "\<exists>ph1 ph2. release_pool 4096 sample_helper1 = Inr ph1 \<and> create_pool None [98, 99] 100 64 ph1 = Inr (Some 4096, ph2)
     \<and> heap ph2 = [4096 \<mapsto> 256]"
proof -
  have "4096 \<in> set (ph_used sample_helper1)" "pools sample_helper1 4096 = Some sample_pool"
    "pl_data sample_pool = int 0" "ph_free sample_helper1 ! 0 = []" "heap sample_helper1 = [4096 \<mapsto> 256]"
    "pl_capacity sample_pool \<le> 65535"
    "pl_capacity sample_pool + ph_capacity sample_helper1 \<le> ph_max_capacity sample_helper1"
    "length ([98, 99] :: byte list) \<le> length (pl_name sample_pool)"
    by (simp_all add: sample_helper1_def sample_helper_def sample_pool_def pool_helper_init_def
        ATP_MEMORY_POOL_CACHING_SIZE_def)
  then show ?thesis
    using pool_cache_reuse [OF sample_inv1, of 4096 sample_pool 0 100 "[98, 99]" None 64] sample_class by auto
qed

lemma new_chunk_size_fits:
  assumes "0 < incr" and "incr < sz + sizeof_chunk" and "sz + 48 + incr < 2 ^ 31"
  shows "sz + 48 < new_chunk_size incr sz" and "new_chunk_size incr sz < size_mod"
proof -
  let ?k = "(sz + 48 + incr) div incr"
  have small: "sz + 48 + incr < size_mod" using assms(3) by (simp add: size_mod_def)
  have "sz_add (sz_add (sz_add sz sizeof_chunk) incr) ATP_MEMORY_POOL_ALIGN = sz + 48 + incr"
    using small by (simp add: sizeof_chunk_def ATP_MEMORY_POOL_ALIGN_def size_simps)
  moreover have "?k \<le> sz + 48 + incr" by simp
  then have "size_to_int ?k = int ?k" using assms(3) by (intro size_to_int_small) linarith
  moreover have "?k < size_mod" using \<open>?k \<le> _\<close> small by linarith
  ultimately have eq: "new_chunk_size incr sz = (incr * ?k) mod size_mod"
    using assms(2) small by (simp add: new_chunk_size_def sizeof_chunk_def size_simps int_to_size_def nat_int
        flip: of_nat_mod)
  have "incr * ?k \<le> sz + 48 + incr" by simp
  then have "incr * ?k < size_mod" using small by linarith
  moreover have "sz + 48 < incr * ?k"
    using assms(1) dividend_less_times_div [of incr "sz + 48 + incr"] by simp
  ultimately show "sz + 48 < new_chunk_size incr sz" "new_chunk_size incr sz < size_mod" by (simp_all add: eq)
qed

text \<open>
  A request that fits in no chunk of a pool that may grow opens a new chunk and is served from
  its start, except when the increment covers the size and the header but not the rounding to
  eight: then the new chunk stays in the pool and the caller gets NULL.
\<close>

lemma pool_alloc_growth:
  assumes "pools ph pa = Some p" and "traverse_chunks (pl_chunks p) sz = (None, cs0)"
    and "0 < sz" and "0 < pl_incr_size p" and "sz + 48 + pl_incr_size p < 2 ^ 31" and "8 dvd a"
    and "a + new_chunk_size (pl_incr_size p) sz < size_mod"
  shows "\<exists>ph'. pool_alloc (Some (a, g)) pa sz ph =
           Inr (if sz + 40 \<le> pl_incr_size p \<and> pl_incr_size p < align_size sz + 40 then None else Some (a + 40), ph')
         \<and> length (pl_chunks (the (pools ph' pa))) = Suc (length (pl_chunks p))"
proof -
  let ?n = "new_chunk_size (pl_incr_size p) sz"
  have sz: "sz + 8 < size_mod" using assms(5) by (simp add: size_mod_def)
  note al = align_size_up [OF sz]
  have n: "sizeof_chunk \<le> ?n" "align_size sz + 40 \<le> ?n \<longleftrightarrow> \<not> (sz + 40 \<le> pl_incr_size p \<and> pl_incr_size p < align_size sz + 40)"
  proof (atomize (full), cases "pl_incr_size p < sz + 40")
    case True
    then show "sizeof_chunk \<le> ?n \<and> (align_size sz + 40 \<le> ?n) = (\<not> (sz + 40 \<le> pl_incr_size p \<and> pl_incr_size p < align_size sz + 40))"
      using new_chunk_size_fits [OF assms(4) _ assms(5)] al(3) by (simp add: sizeof_chunk_def)
  next
    case False
    then have "?n = pl_incr_size p" using sz assms(5)
      by (simp add: new_chunk_size_def sizeof_chunk_def size_simps size_mod_def)
    then show "sizeof_chunk \<le> ?n \<and> (align_size sz + 40 \<le> ?n) = (\<not> (sz + 40 \<le> pl_incr_size p \<and> pl_incr_size p < align_size sz + 40))"
      using False by (auto simp: sizeof_chunk_def)
  qed
  have first: "pl_chunks p = c # cs \<Longrightarrow> fst (pool_alloc_from_chunk c sz) = None" for c cs
    using assms(2) by (auto split: prod.splits option.splits)
  have "pool_alloc (Some (a, g)) pa sz ph = pool_alloc_find (Some (a, g)) pa sz ph"
    using assms(1) first by (auto simp: pool_alloc_def split: list.splits prod.splits option.splits)
  moreover have "ck_cur (new_chunk a ?n) = a + 40" "ck_end (new_chunk a ?n) = a + ?n"
    using assms(6) by (simp_all add: new_chunk_def sizeof_chunk_def ATP_MEMORY_POOL_ALIGN_def ATP_ALIGN_PTR_aligned)
  then have "\<exists>c'. pool_alloc_from_chunk (new_chunk a ?n) sz =
      (if sz + 40 \<le> pl_incr_size p \<and> pl_incr_size p < align_size sz + 40 then None else Some (a + 40), c')"
    using assms(3,7) n by (auto simp: pool_alloc_from_chunk_def Let_def size_simps sizeof_chunk_def)
  ultimately show ?thesis
    using assms(1-4) n(1)
    by (auto simp: pool_alloc_find_def create_chunk_append_pool_def policy_alloc_Some new_chunk_def [symmetric] set_pool_def)
qed

lemma pool_alloc_growth_witness:
  "\<exists>ph'. pool_alloc (Some (8192, [])) 4096 600 sample_helper1 = Inr (Some 8232, ph')
      \<and> length (pl_chunks (the (pools ph' 4096))) = Suc (Suc 0)"
proof -
  have "pools sample_helper1 4096 = Some sample_pool" "pl_chunks sample_pool = [first_chunk 4096 256]"
    "pl_incr_size sample_pool = 512" by (simp_all add: sample_helper1_def sample_pool_def)
  then show ?thesis
    using pool_alloc_growth [of sample_helper1 4096 sample_pool 600 "[first_chunk 4096 256]" 8192 "[]"]
    by (simp add: sample_no_room grown_chunk_size size_mod_def)
qed

text \<open>
  A request within eight bytes of the top of \<open>size_t\<close> wraps around to zero when it is rounded: every
  chunk grants it, without moving its cursor.
\<close>

lemma huge_request_wraps:
  assumes "size_mod - 8 < sz" and "sz < size_mod"
  shows "pool_alloc_from_chunk c sz = (Some (ck_cur c), c)"
  using align_size_wraps [OF assms] assms by (simp add: pool_alloc_from_chunk_def)

lemma huge_request_wraps_witness:
  "pool_alloc_from_chunk (new_chunk 8192 1024) (2 ^ 64 - 1) = (Some 8232, new_chunk 8192 1024)"
  using huge_request_wraps [of "2 ^ 64 - 1" "new_chunk 8192 1024"]
  by (simp add: size_mod_def new_chunk_def sizeof_chunk_def ATP_MEMORY_POOL_ALIGN_def ATP_ALIGN_PTR_8)

end
