(* ===== verification/Base64.thy ===== *)
theory Base64
  imports Atp_Prelude
begin

text \<open>
  \<open>app/atp_base64.cpp\<close>: the Base64 encoder and decoder. The destination string is resized first
  and then written through a pointer, so every store is bounds checked against the resized
  object. The inner \<open>do ... while (c == 64)\<close> of the decoder is a \<open>partial_function\<close>: not returning
  is the value \<^const>\<open>None\<close>.
\<close>

unbundle bit_operations_syntax

section \<open>The code table\<close>

definition ascii :: "string \<Rightarrow> byte list" where
  "ascii s = map of_char s"

definition base64_code :: "byte list" where
  "base64_code = ascii ''ABCDEFGHIJKLMNOPQRSTUVWXYZabcdefghijklmnopqrstuvwxyz0123456789+/''"

definition pad_char :: byte where
  "pad_char = of_char CHR ''=''"

definition base2Char :: "byte \<Rightarrow> byte" where
  "base2Char n0 =
     (let n = n0 AND 0x3F in
      if n < 26 then n + of_char CHR ''A''
      else if n < 52 then n - 26 + of_char CHR ''a''
      else if n < 62 then n - 52 + of_char CHR ''0''
      else if n = 62 then of_char CHR ''+''
      else of_char CHR ''/'')"

text \<open>
  The comparisons are on \<open>char\<close>; a byte from 128 on is negative there and in no range, as here
  where it is above all of them.
\<close>

definition char2Base :: "byte \<Rightarrow> byte" where
  "char2Base c =
     (if of_char CHR ''A'' \<le> c \<and> c \<le> of_char CHR ''Z'' then c - of_char CHR ''A''
      else if of_char CHR ''a'' \<le> c \<and> c \<le> of_char CHR ''z'' then c - of_char CHR ''a'' + 26
      else if of_char CHR ''0'' \<le> c \<and> c \<le> of_char CHR ''9'' then c - of_char CHR ''0'' + 52
      else if c = of_char CHR ''+'' then 62
      else if c = of_char CHR ''/'' then 63
      else 64)"

definition base64EncodeLen :: "int \<Rightarrow> int" where
  "base64EncodeLen n = (n + 2) div 3 * 4 + 1"

definition base64DecodeLen :: "int \<Rightarrow> int" where
  "base64DecodeLen n = n div 4 * 3 + 2"

definition string_resize :: "nat \<Rightarrow> byte list \<Rightarrow> byte list" where
  "string_resize n s = take n s @ replicate (n - length s) 0"

section \<open>Encoding\<close>

text \<open>One round of the loop: the three bytes from \<open>i\<close> on, zero for the bytes past the end.\<close>

definition encode_bits :: "byte list \<Rightarrow> nat \<Rightarrow> int" where
  "encode_bits q i =
     (let c = uint (q ! i);
          c = c * 256;
          c = (if i + 1 < length q then c + uint (q ! (i + 1)) else c);
          c = c * 256
      in if i + 2 < length q then c + uint (q ! (i + 2)) else c)"

definition encode_group :: "byte list \<Rightarrow> nat \<Rightarrow> byte list" where
  "encode_group q i =
     (let c = encode_bits q i; i' = i + 3 in
      [base64_code ! nat (drop_bit 18 (c AND 0x00fc0000)),
       base64_code ! nat (drop_bit 12 (c AND 0x0003f000)),
       if i' > length q + 1 then pad_char else base64_code ! nat (drop_bit 6 (c AND 0x00000fc0)),
       if i' > length q then pad_char else base64_code ! nat (drop_bit 0 (c AND 0x0000003f))])"

function encode_loop :: "byte list \<Rightarrow> nat \<Rightarrow> nat \<Rightarrow> byte list \<Rightarrow> (nat \<times> byte list) result" where
  "encode_loop q i p dst =
     (if i < length q then
        bnd (mem_write dst p (encode_group q i)) (\<lambda>dst'. encode_loop q (i + 3) (p + 4) dst')
      else Inr (p, dst))"
  by pat_completeness auto
termination
  by (relation "measure (\<lambda>(q, i, p, dst). length q - i)") auto

declare encode_loop.simps [simp del]

text \<open>\<open>dst = None\<close> is the null pointer.\<close>

definition base64Encode :: "byte list \<Rightarrow> byte list option \<Rightarrow> (bool \<times> byte list option) result" where
  "base64Encode src dst =
     (case dst of
        None \<Rightarrow> Inr (False, dst)
      | Some d \<Rightarrow>
          if length src = 0 then Inr (False, dst)
          else
            bnd (encode_loop src 0 0 (string_resize (int_to_size (base64EncodeLen (size_to_int (length src)))) d))
              (\<lambda>(p, d1). bnd (mem_write d1 p [0]) (\<lambda>d2. Inr (True, Some (string_resize p d2)))))"

section \<open>Decoding\<close>

partial_function (option) next_base :: "byte \<Rightarrow> byte option" where
  "next_base ch =
     (let c = (if ch \<noteq> 0 then char2Base ch else 65)
      in if c = 64 then next_base ch else Some c)"

function decode_loop :: "byte list \<Rightarrow> nat \<Rightarrow> nat \<Rightarrow> byte \<Rightarrow> byte list \<Rightarrow> (nat \<times> byte list) result option" where
  "decode_loop src i p t dst =
     (if i < length src then
        if src ! i = pad_char then Some (Inr (p, dst))
        else
          (case next_base (src ! i) of
             None \<Rightarrow> None
           | Some c \<Rightarrow>
               if c = 65 then Some (Inr (p, dst))
               else if i mod 4 = 0 then decode_loop src (i + 1) p (push_bit 2 c) dst
               else if i mod 4 = 1 then
                 (case mem_write dst p [t OR drop_bit 4 c] of
                    Inl e \<Rightarrow> Some (Inl e)
                  | Inr dst' \<Rightarrow> decode_loop src (i + 1) (p + 1) (push_bit 4 c) dst')
               else if i mod 4 = 2 then
                 (case mem_write dst p [t OR drop_bit 2 c] of
                    Inl e \<Rightarrow> Some (Inl e)
                  | Inr dst' \<Rightarrow> decode_loop src (i + 1) (p + 1) (push_bit 6 c) dst')
               else
                 (case mem_write dst p [t OR c] of
                    Inl e \<Rightarrow> Some (Inl e)
                  | Inr dst' \<Rightarrow> decode_loop src (i + 1) (p + 1) t dst'))
      else Some (Inr (p, dst)))"
  by pat_completeness auto
termination
  by (relation "measure (\<lambda>(src, i, p, t, dst). length src - i)") auto

declare decode_loop.simps [simp del]

definition base64Decode :: "byte list \<Rightarrow> byte list option \<Rightarrow> (bool \<times> byte list option) result option" where
  "base64Decode src dst =
     (case dst of
        None \<Rightarrow> Some (Inr (False, dst))
      | Some d \<Rightarrow>
          if length src = 0 then Some (Inr (False, dst))
          else
            (case decode_loop src 0 0 0 (string_resize (int_to_size (base64DecodeLen (size_to_int (length src)))) d) of
               None \<Rightarrow> None
             | Some (Inl e) \<Rightarrow> Some (Inl e)
             | Some (Inr (p, d1)) \<Rightarrow> Some (Inr (True, Some (string_resize p d1)))))"

section \<open>Tables\<close>

lemma length_base64_code [simp]: "length base64_code = 64"
  by (simp add: base64_code_def ascii_def)

lemma table_scan: "map char2Base base64_code = map word_of_nat [0..<64]"
  by code_simp

lemma table_specials: "0 \<notin> set base64_code" "pad_char \<notin> set base64_code"
  by (simp_all add: base64_code_def ascii_def pad_char_def)

lemma base2Char_scan: "map base2Char (map word_of_nat [0..<64]) = base64_code"
  by code_simp

lemma char2Base_code:
  assumes "k < 64"
  shows "char2Base (base64_code ! k) = word_of_nat k" and "base64_code ! k \<noteq> 0" and "base64_code ! k \<noteq> pad_char"
proof -
  show "char2Base (base64_code ! k) = word_of_nat k"
    using arg_cong [OF table_scan, of "\<lambda>xs. xs ! k"] assms by simp
  show "base64_code ! k \<noteq> 0" "base64_code ! k \<noteq> pad_char"
    using table_specials assms by (metis length_base64_code nth_mem)+
qed

lemma next_base_Some:
  assumes "next_base ch = Some c"
  shows "c \<noteq> 64 \<and> c = (if ch \<noteq> 0 then char2Base ch else 65)"
proof (rule next_base.raw_induct [where P = "\<lambda>ch c. c \<noteq> 64 \<and> c = (if ch \<noteq> 0 then char2Base ch else 65)", OF _ assms])
  fix f :: "byte \<Rightarrow> byte option" and ch c
  let ?v = "if ch \<noteq> 0 then char2Base ch else 65"
  assume IH: "\<And>ch c. f ch = Some c \<Longrightarrow> c \<noteq> 64 \<and> c = (if ch \<noteq> 0 then char2Base ch else 65)"
    and eq: "(let c = ?v in if c = 64 then f ch else Some c) = Some c"
  show "c \<noteq> 64 \<and> c = ?v"
  proof (cases "?v = 64")
    case True
    then have "f ch = Some c" using eq by (simp only: Let_def simp_thms if_True)
    then show ?thesis by (rule IH)
  next
    case False
    then have "c = ?v" using eq by (simp only: Let_def if_False option.inject)
    then show ?thesis using False by simp
  qed
qed

text \<open>The inner loop ends exactly for the characters of the alphabet and for NUL.\<close>

lemma next_base_eq:
  "next_base ch = (if ch = 0 then Some 65 else if char2Base ch = 64 then None else Some (char2Base ch))"
proof (cases "ch \<noteq> 0 \<and> char2Base ch = 64")
  case True
  have "next_base ch = None"
  proof (rule ccontr)
    assume "next_base ch \<noteq> None"
    then obtain c where "next_base ch = Some c" by blast
    then show False using next_base_Some True by fastforce
  qed
  then show ?thesis using True by simp
next
  case False
  then show ?thesis by (subst next_base.simps) (auto simp: Let_def)
qed

section \<open>One group\<close>

definition join3 :: "byte \<Rightarrow> byte \<Rightarrow> byte \<Rightarrow> int" where
  "join3 a b c = (uint a * 256 + uint b) * 256 + uint c"

definition byte_at :: "byte list \<Rightarrow> nat \<Rightarrow> byte" where
  "byte_at q i = (if i < length q then q ! i else 0)"

lemma encode_bits_join: "i < length q \<Longrightarrow> encode_bits q i = join3 (q ! i) (byte_at q (i + 1)) (byte_at q (i + 2))"
  by (simp add: encode_bits_def join3_def byte_at_def)

lemma join3_bits:
  "bit (join3 a b c) n \<longleftrightarrow> (n < 8 \<and> bit c n) \<or> (8 \<le> n \<and> n < 16 \<and> bit b (n - 8)) \<or> (16 \<le> n \<and> bit a (n - 16))"
proof -
  have "join3 a b c = concat_bit 8 (uint c) (concat_bit 8 (uint b) (uint a))"
    using unsigned_less [of c, where 'a = int] unsigned_less [of b, where 'a = int]
    by (simp add: join3_def concat_bit_eq push_bit_eq_mult take_bit_int_eq_self)
  then show ?thesis
    by (auto simp: bit_concat_bit_iff bit_uint_iff dest: bit_imp_le_length)
qed

definition sextet :: "nat \<Rightarrow> int \<Rightarrow> nat" where
  "sextet n v = nat (take_bit 6 (drop_bit n v))"

lemma drop_and_mask: "drop_bit n (v AND push_bit n (mask m)) = take_bit m (drop_bit n (v :: int))"
  by (intro bit_eqI) (auto simp: bit_simps)

lemma masks:
  "(0x00fc0000 :: int) = push_bit 18 (mask 6)" "(0x0003f000 :: int) = push_bit 12 (mask 6)"
  "(0x00000fc0 :: int) = push_bit 6 (mask 6)" "(0x0000003f :: int) = push_bit 0 (mask 6)"
  by (simp_all add: mask_eq_exp_minus_1 push_bit_eq_mult)

lemma encode_group_sextets:
  "encode_group q i =
     (let v = encode_bits q i in
      [base64_code ! sextet 18 v, base64_code ! sextet 12 v,
       if i + 3 > length q + 1 then pad_char else base64_code ! sextet 6 v,
       if i + 3 > length q then pad_char else base64_code ! sextet 0 v])"
  unfolding encode_group_def sextet_def Let_def masks drop_and_mask ..

lemma sextet_less: "sextet n v < 64"
  by (simp add: sextet_def nat_less_iff) (use take_bit_int_less_exp [of 6 "drop_bit n v"] in simp)

lemma bit_sextet: "bit (sextet n v) i \<longleftrightarrow> i < 6 \<and> bit v (n + i)"
  by (auto simp: sextet_def bit_nat_iff bit_simps ac_simps)

lemma sextets_give_bytes:
  "push_bit 2 (word_of_nat (sextet 18 (join3 a b c))) OR drop_bit 4 (word_of_nat (sextet 12 (join3 a b c))) = (a :: byte)"
  "push_bit 4 (word_of_nat (sextet 12 (join3 a b c))) OR drop_bit 2 (word_of_nat (sextet 6 (join3 a b c))) = (b :: byte)"
  "push_bit 6 (word_of_nat (sextet 6 (join3 a b c))) OR word_of_nat (sextet 0 (join3 a b c)) = (c :: byte)"
proof -
  have eight: "n \<in> {0, 1, 2, 3, 4, 5, 6, 7}" if "n < LENGTH(8)" for n using that by auto
  show "push_bit 2 (word_of_nat (sextet 18 (join3 a b c))) OR drop_bit 4 (word_of_nat (sextet 12 (join3 a b c))) = a"
    by (rule bit_word_eqI, drule eight, elim insertE emptyE; simp add: bit_simps bit_sextet join3_bits; simp add: numeral_2_eq_2 numeral_3_eq_3)
  show "push_bit 4 (word_of_nat (sextet 12 (join3 a b c))) OR drop_bit 2 (word_of_nat (sextet 6 (join3 a b c))) = b"
    by (rule bit_word_eqI, drule eight, elim insertE emptyE; simp add: bit_simps bit_sextet join3_bits; simp add: numeral_2_eq_2 numeral_3_eq_3)
  show "push_bit 6 (word_of_nat (sextet 6 (join3 a b c))) OR word_of_nat (sextet 0 (join3 a b c)) = c"
    by (rule bit_word_eqI, drule eight, elim insertE emptyE; simp add: bit_simps bit_sextet join3_bits; simp add: numeral_2_eq_2 numeral_3_eq_3)
qed

section \<open>The loops\<close>

text \<open>The output of the encoder from position \<open>i\<close> on.\<close>

function groups :: "byte list \<Rightarrow> nat \<Rightarrow> byte list" where
  "groups q i = (if i < length q then encode_group q i @ groups q (i + 3) else [])"
  by pat_completeness auto
termination
  by (relation "measure (\<lambda>(q, i). length q - i)") auto

declare groups.simps [simp del]

lemma length_encode_group [simp]: "length (encode_group q i) = 4"
  by (simp add: encode_group_def Let_def)

lemma length_groups: "length (groups q i) = 4 * ((length q - i + 2) div 3)"
proof (induction q i rule: groups.induct)
  case (1 q i)
  show ?case
  proof (cases "i < length q")
    case True
    define n where "n = length q - i"
    have "0 < n" and n: "length q - (i + 3) = n - 3" using True by (auto simp: n_def)
    then have "(n + 2) div 3 = Suc ((n - 3 + 2) div 3)" by presburger
    then have "(length q - i + 2) div 3 = Suc ((length q - (i + 3) + 2) div 3)" by (simp only: n n_def)
    then show ?thesis using 1 True by (simp add: groups.simps [of q i])
  qed (simp add: groups.simps)
qed

lemma encode_loop_groups:
  "p = length w \<Longrightarrow> length (groups q i) \<le> length r \<Longrightarrow>
   encode_loop q i p (w @ r) = Inr (p + length (groups q i), w @ groups q i @ drop (length (groups q i)) r)"
proof (induction q i arbitrary: p w r rule: groups.induct)
  case (1 q i)
  show ?case
  proof (cases "i < length q")
    case True
    let ?g = "encode_group q i"
    have len: "length (groups q i) = 4 + length (groups q (i + 3))" using True by (simp add: groups.simps [of q i])
    have "mem_write (w @ r) p ?g = Inr ((w @ ?g) @ drop 4 r)"
      using "1.prems" len by (simp add: mem_write_def)
    moreover have "encode_loop q (i + 3) (p + 4) ((w @ ?g) @ drop 4 r) =
        Inr (p + 4 + length (groups q (i + 3)),
             (w @ ?g) @ groups q (i + 3) @ drop (length (groups q (i + 3))) (drop 4 r))"
      using "1.prems" len by (intro "1.IH" [OF True]) auto
    ultimately show ?thesis
      using True len by (simp add: encode_loop.simps [of q i] groups.simps [of q i] add.commute)
  qed (simp add: groups.simps encode_loop.simps)
qed

lemma drop_groups: "drop (4 * k) (groups q (3 * m)) = groups q (3 * (m + k))"
proof (induction k arbitrary: m)
  case (Suc k)
  show ?case
  proof (cases "3 * m < length q")
    case True
    then have "drop (4 * Suc k) (groups q (3 * m)) = drop (4 * k) (groups q (3 * Suc m))"
      by (simp add: groups.simps [of q "3 * m"] add.commute)
    then show ?thesis using Suc [of "Suc m"] by simp
  qed (simp add: groups.simps)
qed simp

lemma groups_nth:
  assumes "3 * k < length q" and "r < 4"
  shows "groups q 0 ! (4 * k + r) = encode_group q (3 * k) ! r" and "4 * k + r < length (groups q 0)"
proof -
  have d: "drop (4 * k) (groups q 0) = encode_group q (3 * k) @ groups q (3 * k + 3)"
    using drop_groups [of k q 0] assms(1) by (simp add: groups.simps [of q "3 * k"])
  have "4 * k + 4 \<le> length (groups q 0)"
  proof -
    have "length (drop (4 * k) (groups q 0)) \<ge> 4" using d by simp
    then show ?thesis by simp
  qed
  then show "4 * k + r < length (groups q 0)" using assms(2) by simp
  then have "groups q 0 ! (4 * k + r) = drop (4 * k) (groups q 0) ! r" by simp
  then show "groups q 0 ! (4 * k + r) = encode_group q (3 * k) ! r"
    using assms(2) by (simp add: d nth_append)
qed

lemma mem_write_split: "mem_write (w @ x # r) (length w) [b] = Inr ((w @ [b]) @ r)"
  by (simp add: mem_write_def)

text \<open>The four rounds of the decoder on a character of the alphabet.\<close>

lemma next_base_code: "k < 64 \<Longrightarrow> next_base (base64_code ! k) = Some (word_of_nat k)"
  using char2Base_code [of k] by (auto simp: next_base_eq word_of_nat_eq_iff take_bit_nat_eq_self
      dest!: arg_cong [where f = unat] simp: unat_of_nat)

lemma code_not_65: "k < 64 \<Longrightarrow> (word_of_nat k :: byte) \<noteq> 65"
  by (auto dest!: arg_cong [where f = unat] simp: unat_of_nat)

lemma decode_rounds:
  assumes "i < length e" and "e ! i = base64_code ! k" and "k < 64"
  shows "i mod 4 = 0 \<Longrightarrow> decode_loop e i p t d = decode_loop e (i + 1) p (push_bit 2 (word_of_nat k)) d"
    and "i mod 4 = 1 \<Longrightarrow> decode_loop e i (length w) t (w @ x # r) =
        decode_loop e (i + 1) (length w + 1) (push_bit 4 (word_of_nat k)) ((w @ [t OR drop_bit 4 (word_of_nat k)]) @ r)"
    and "i mod 4 = 2 \<Longrightarrow> decode_loop e i (length w) t (w @ x # r) =
        decode_loop e (i + 1) (length w + 1) (push_bit 6 (word_of_nat k)) ((w @ [t OR drop_bit 2 (word_of_nat k)]) @ r)"
    and "i mod 4 = 3 \<Longrightarrow> decode_loop e i (length w) t (w @ x # r) =
        decode_loop e (i + 1) (length w + 1) t ((w @ [t OR word_of_nat k]) @ r)"
  using assms char2Base_code [OF assms(3)] next_base_code [OF assms(3)] code_not_65 [OF assms(3)]
  by (simp_all add: decode_loop.simps [of e i] mem_write_split del: append_assoc)

lemma decode_pad: "i < length e \<Longrightarrow> e ! i = pad_char \<Longrightarrow> decode_loop e i p t d = Some (Inr (p, d))"
  by (simp add: decode_loop.simps)

lemma decode_end: "length e \<le> i \<Longrightarrow> decode_loop e i p t d = Some (Inr (p, d))"
  by (simp add: decode_loop.simps)

lemma decode_group:
  fixes q :: "byte list"
  defines "e \<equiv> groups q 0"
  assumes k: "3 * k < length q" and r: "length q - 3 * k \<le> length r"
  shows "decode_loop e (4 * k) (length w) t (w @ r) =
     (if length q - 3 * k < 3 then Some (Inr (length w + (length q - 3 * k), w @ drop (3 * k) q @ drop (length q - 3 * k) r))
      else decode_loop e (4 * (k + 1)) (length w + 3) (push_bit 6 (word_of_nat (sextet 6 (encode_bits q (3 * k)))))
             ((w @ take 3 (drop (3 * k) q)) @ drop 3 r))"
proof -
  let ?v = "encode_bits q (3 * k)"
  let ?a = "q ! (3 * k)" and ?b = "byte_at q (3 * k + 1)" and ?c = "byte_at q (3 * k + 2)"
  have v: "?v = join3 ?a ?b ?c" using encode_bits_join [OF k] .
  have nth: "e ! (4 * k + j) = encode_group q (3 * k) ! j" "4 * k + j < length e" if "j < 4" for j
    using groups_nth [OF k that] by (simp_all add: e_def)
  have e0: "e ! (4 * k) = base64_code ! sextet 18 ?v" and e1: "e ! (4 * k + 1) = base64_code ! sextet 12 ?v"
    using nth(1) [of 0] nth(1) [of 1] by (simp_all add: encode_group_sextets Let_def)
  have c2: "length q - 3 * k < 2 \<longleftrightarrow> 3 * k + 3 > length q + 1" and c3: "length q - 3 * k < 3 \<longleftrightarrow> 3 * k + 3 > length q"
    using k by linarith+
  have e2: "e ! (4 * k + 2) = (if length q - 3 * k < 2 then pad_char else base64_code ! sextet 6 ?v)"
    unfolding c2 using nth(1) [of 2] by (simp add: encode_group_sextets Let_def)
  have e3: "e ! (4 * k + 3) = (if length q - 3 * k < 3 then pad_char else base64_code ! sextet 0 ?v)"
    unfolding c3 using nth(1) [of 3] by (simp add: encode_group_sextets Let_def)
  have len: "4 * k < length e" "4 * k + 1 < length e" "4 * k + 2 < length e" "4 * k + 3 < length e"
    using nth(2) [of 0] nth(2) [of 1] nth(2) [of 2] nth(2) [of 3] by simp_all
  have mods: "4 * k mod 4 = 0" "(4 * k + 1) mod 4 = 1" "(4 * k + 2) mod 4 = 2" "(4 * k + 3) mod 4 = 3" by presburger+
  have sucs: "4 * k + 3 = Suc (Suc (Suc (4 * k)))" "4 * k + 4 = Suc (Suc (Suc (Suc (4 * k))))"
    "4 * (k + 1) = Suc (Suc (Suc (Suc (4 * k))))" "length w + 3 = Suc (Suc (Suc (length w)))" by simp_all
  obtain x0 r1 where r1: "r = x0 # r1" using k r by (cases r) auto
  note bytes = sextets_give_bytes [of ?a ?b ?c, folded v]
  have two: "decode_loop e (4 * k) (length w) t (w @ r) =
      decode_loop e (4 * k + 2) (length w + 1) (push_bit 4 (word_of_nat (sextet 12 ?v))) ((w @ [?a]) @ r1)"
    using decode_rounds(1) [OF len(1) e0 sextet_less mods(1)] decode_rounds(2) [OF len(2) e1 sextet_less mods(2)]
    by (simp add: r1 bytes)
  show ?thesis
  proof (cases "length q - 3 * k < 2")
    case True
    then have "length q = Suc (3 * k)" using k by simp
    then show ?thesis using two decode_pad [OF len(3)] e2 True
      by (simp add: r1 Cons_nth_drop_Suc [symmetric])
  next
    case F2: False
    then obtain x1 r2 where r2: "r1 = x1 # r2" using r r1 by (cases r1) auto
    have b: "?b = q ! (3 * k + 1)" using F2 unfolding byte_at_def by (intro if_P) linarith
    have three: "decode_loop e (4 * k) (length w) t (w @ r) =
        decode_loop e (4 * k + 3) (length w + 2) (push_bit 6 (word_of_nat (sextet 6 ?v))) ((w @ [?a, ?b]) @ r2)"
      unfolding two using decode_rounds(3) [where w = "w @ [?a]", OF len(3) _ sextet_less mods(3)] e2 F2
      by (simp add: r2 bytes sucs)
    show ?thesis
    proof (cases "length q - 3 * k < 3")
      case True
      then have "length q = Suc (Suc (3 * k))" using k F2 by simp
      then show ?thesis using three decode_pad [OF len(4)] e3 True b
        by (simp add: r1 r2 Cons_nth_drop_Suc [symmetric])
    next
      case F3: False
      then obtain x2 r3 where r3: "r2 = x2 # r3" using r r1 r2 by (cases r2) auto
      have c: "?c = q ! (3 * k + 2)" using F3 unfolding byte_at_def by (intro if_P) linarith
      have "take 3 (drop (3 * k) q) = [?a, ?b, ?c]"
        using F3 b c by (simp add: take_Suc_conv_app_nth numeral_3_eq_3)
      moreover have "decode_loop e (4 * k) (length w) t (w @ r) =
          decode_loop e (4 * k + 4) (length w + 3) (push_bit 6 (word_of_nat (sextet 6 ?v))) ((w @ [?a, ?b, ?c]) @ r3)"
        unfolding three using decode_rounds(4) [where w = "w @ [?a, ?b]", OF len(4) _ sextet_less mods(4)] e3 F3
        by (simp add: r3 bytes sucs)
      ultimately show ?thesis using F3 unfolding sucs by (simp add: r1 r2 r3)
    qed
  qed
qed

lemma decode_groups:
  "length q - 3 * k \<le> length r \<Longrightarrow>
   decode_loop (groups q 0) (4 * k) (length w) t (w @ r) =
     Some (Inr (length w + (length q - 3 * k), w @ drop (3 * k) q @ drop (length q - 3 * k) r))"
proof (induction "length q - 3 * k" arbitrary: k w r t rule: less_induct)
  case less
  show ?case
  proof (cases "3 * k < length q")
    case False
    then have "(length q + 2) div 3 \<le> k" by presburger
    then show ?thesis using False by (simp add: decode_end length_groups)
  next
    case True
    show ?thesis
    proof (cases "length q - 3 * k < 3")
      case last: True
      then show ?thesis using decode_group [OF True less.prems] by simp
    next
      case more: False
      let ?w = "w @ take 3 (drop (3 * k) q)"
      have len: "length ?w = length w + 3" using more by simp
      have eq: "drop (3 * k) q = take 3 (drop (3 * k) q) @ drop (3 * (k + 1)) q"
        by (metis add.commute append_take_drop_id drop_drop mult_Suc_right Suc_eq_plus1)
      have "decode_loop (groups q 0) (4 * k) (length w) t (w @ r) =
          decode_loop (groups q 0) (4 * (k + 1)) (length ?w)
            (push_bit 6 (word_of_nat (sextet 6 (encode_bits q (3 * k))))) (?w @ drop 3 r)"
        using decode_group [OF True less.prems] more len by simp
      also have "\<dots> = Some (Inr (length ?w + (length q - 3 * (k + 1)),
          ?w @ drop (3 * (k + 1)) q @ drop (length q - 3 * (k + 1)) (drop 3 r)))"
        using more less.prems by (intro less.hyps) auto
      also have "length ?w + (length q - 3 * (k + 1)) = length w + (length q - 3 * k)" using more len by simp
      also have "drop (length q - 3 * (k + 1)) (drop 3 r) = drop (length q - 3 * k) r" using more by simp
      finally show ?thesis using eq by simp
    qed
  qed
qed

lemma encode_len:
  assumes "n < 2 ^ 30"
  shows "int_to_size (base64EncodeLen (size_to_int n)) = (n + 2) div 3 * 4 + 1"
proof -
  have "base64EncodeLen (size_to_int n) = int ((n + 2) div 3 * 4 + 1)"
    using assms by (simp add: base64EncodeLen_def size_to_int_small zdiv_int)
  moreover have "(n + 2) div 3 * 4 + 1 < size_mod"
  proof -
    have "(n + 2) div 3 \<le> n + 2" by simp
    then show ?thesis using assms by (simp add: size_mod_def)
  qed
  ultimately show ?thesis by (simp only: int_to_size_def flip: of_nat_mod) simp
qed

lemma decode_len:
  assumes "n < 2 ^ 31"
  shows "int_to_size (base64DecodeLen (size_to_int n)) = n div 4 * 3 + 2"
proof -
  have "base64DecodeLen (size_to_int n) = int (n div 4 * 3 + 2)"
    using assms by (simp add: base64DecodeLen_def size_to_int_small zdiv_int)
  moreover have "n div 4 * 3 + 2 < size_mod"
  proof -
    have "n div 4 \<le> n" by simp
    then show ?thesis using assms by (simp add: size_mod_def)
  qed
  ultimately show ?thesis by (simp only: int_to_size_def flip: of_nat_mod) simp
qed

lemma length_string_resize [simp]: "length (string_resize n s) = n"
  by (simp add: string_resize_def)

lemma string_resize_append: "string_resize (length xs) (xs @ ys) = xs"
  by (simp add: string_resize_def)

lemma base64Encode_eq:
  assumes "src \<noteq> []" and "length src < 2 ^ 30"
  shows "base64Encode src (Some d) = Inr (True, Some (groups src 0))"
proof -
  define g where "g = groups src 0"
  define d0 where "d0 = string_resize ((length src + 2) div 3 * 4 + 1) d"
  have "length g + 1 = length d0" by (simp add: g_def d0_def length_groups)
  then have "length (drop (length g) d0) = Suc 0" by simp
  then obtain x where x: "drop (length g) d0 = [x]" by (auto simp: length_Suc_conv simp del: length_drop)
  have "encode_loop src 0 0 d0 = Inr (length g, g @ [x])"
    using encode_loop_groups [of 0 "[]" src 0 d0] \<open>length g + 1 = length d0\<close> x by (simp add: g_def)
  moreover have "string_resize (int_to_size (base64EncodeLen (size_to_int (length src)))) d = d0"
    by (simp only: d0_def encode_len [OF assms(2)])
  ultimately show ?thesis
    using assms(1) mem_write_split [of g x "[]" 0] string_resize_append [of g "[0]"]
    by (simp add: base64Encode_def g_def)
qed

text \<open>The number of bytes written by the decoder before position \<open>i\<close>.\<close>

definition written :: "nat \<Rightarrow> nat" where
  "written i = i - (i + 3) div 4"

lemma written_closed: "r < 4 \<Longrightarrow> written (4 * k + r) = 3 * k + (r - 1)"
proof -
  assume "r < 4"
  then consider "r = 0" | "r = 1" | "r = 2" | "r = 3" by linarith
  then have "(4 * k + r + 3) div 4 = k + (if r = 0 then 0 else 1)" by cases simp_all
  then show ?thesis by (simp add: written_def)
qed

lemma written_rounds:
  "i mod 4 = 0 \<Longrightarrow> written (i + 1) = written i"
  "i mod 4 \<noteq> 0 \<Longrightarrow> written (i + 1) = written i + 1"
  "written i \<le> i div 4 * 3 + 2"
proof -
  define k r where "k = i div 4" and "r = i mod 4"
  have i: "i = 4 * k + r" and r: "r < 4" by (simp_all add: k_def r_def)
  have w: "written i = 3 * k + (r - 1)" using written_closed [OF r] i by simp
  have s: "written (i + 1) = 3 * k + r"
  proof (cases "r = 3")
    case True
    then have "i + 1 = 4 * (k + 1) + 0" using i by simp
    then show ?thesis using written_closed [of 0 "k + 1"] True by simp
  next
    case False
    then show ?thesis using written_closed [of "r + 1" k] i r by (simp add: add.assoc)
  qed
  show "i mod 4 = 0 \<Longrightarrow> written (i + 1) = written i" "i mod 4 \<noteq> 0 \<Longrightarrow> written (i + 1) = written i + 1"
    "written i \<le> i div 4 * 3 + 2"
    using w s r unfolding r_def [symmetric] k_def [symmetric] by simp_all
qed

lemma written_mono: "i \<le> j \<Longrightarrow> written i \<le> written j"
proof -
  assume "i \<le> j"
  have "written n \<le> written (Suc n)" for n
    using written_rounds(1,2) [of n] by (cases "n mod 4 = 0") simp_all
  then show ?thesis using \<open>i \<le> j\<close> by (rule lift_Suc_mono_le)
qed

definition significant :: "byte list \<Rightarrow> byte list" where
  "significant s = takeWhile (\<lambda>x. x \<noteq> pad_char \<and> x \<noteq> 0) s"

lemma char2Base_range: "unat (char2Base c) \<le> 64"
proof -
  have sub: "unat (c - n) = unat c - unat n" if "n \<le> c" for n :: byte
    using that by (simp add: unat_sub)
  have add: "unat (x + n) = unat x + unat n" if "unat x + unat n < 256" for x n :: byte
    using that by (simp add: unat_add_lem [symmetric])
  show ?thesis
    unfolding char2Base_def
    using sub [of 65] sub [of 97] sub [of 48] add [of "c - 97" 26] add [of "c - 48" 52]
    by (auto simp: word_le_nat_alt)
qed

lemma decode_loop_total:
  "i \<le> length src \<Longrightarrow> p = written i \<Longrightarrow> written (length src) \<le> length d \<Longrightarrow>
   (decode_loop src i p t d = None \<longleftrightarrow> (\<exists>x \<in> set (significant (drop i src)). char2Base x = 64)) \<and>
   (\<forall>e. decode_loop src i p t d \<noteq> Some (Inl e))"
proof (induction "length src - i" arbitrary: i p t d)
  case 0
  then show ?case by (simp add: decode_end significant_def)
next
  case (Suc n)
  then have i: "i < length src" by simp
  then have dr: "drop i src = src ! i # drop (i + 1) src" by (simp add: Cons_nth_drop_Suc)
  let ?c = "char2Base (src ! i)"
  show ?case
  proof (cases "src ! i = pad_char \<or> src ! i = 0 \<or> ?c = 64")
    case True
    then show ?thesis using i dr
      by (auto simp: decode_loop.simps [of src i] next_base_eq significant_def pad_char_def)
  next
    case False
    have sig: "significant (drop i src) = src ! i # significant (drop (i + 1) src)"
      using False by (simp add: dr significant_def)
    have c65: "?c \<noteq> 65" using char2Base_range [of "src ! i"] by auto
    have IH: "(decode_loop src (i + 1) (written (i + 1)) t' d' = None \<longleftrightarrow> (\<exists>x \<in> set (significant (drop (i + 1) src)). char2Base x = 64))
        \<and> (\<forall>e. decode_loop src (i + 1) (written (i + 1)) t' d' \<noteq> Some (Inl e))"
      if "length d' = length d" for t' d'
      using Suc that by (intro Suc.hyps(1)) auto
    have step: "\<exists>t' d'. length d' = length d \<and>
        decode_loop src i p t d = decode_loop src (i + 1) (written (i + 1)) t' d'"
    proof (cases "i mod 4 = 0")
      case True
      then show ?thesis using False c65 i Suc.prems(2) written_rounds(1)
        by (intro exI [of _ "push_bit 2 ?c"] exI [of _ d])
          (simp add: decode_loop.simps [of src i] next_base_eq)
    next
      case nz: False
      have "p + 1 \<le> length d"
        using Suc.prems(2,3) written_rounds(2) [OF nz] written_mono [of "i + 1" "length src"] i by simp
      then have w: "mem_write d p [b] = Inr (take p d @ [b] @ drop (p + 1) d)"
        and l: "length (take p d @ [b] @ drop (p + 1) d) = length d" for b
        by (simp_all add: mem_write_def)
      have p1: "written (Suc i) = Suc p" using Suc.prems(2) written_rounds(2) [OF nz] by simp
      note unfold = decode_loop.simps [of src i] next_base_eq
      consider "i mod 4 = 1" | "i mod 4 = 2" | "i mod 4 = 3" using nz mod_less_divisor [of 4 i] by linarith
      then show ?thesis
      proof cases
        case 1
        then have "decode_loop src i p t d = decode_loop src (i + 1) (written (i + 1)) (push_bit 4 ?c)
            (take p d @ [t OR drop_bit 4 ?c] @ drop (p + 1) d)"
          using False c65 i by (simp add: unfold w p1)
        then show ?thesis using l by blast
      next
        case 2
        then have "decode_loop src i p t d = decode_loop src (i + 1) (written (i + 1)) (push_bit 6 ?c)
            (take p d @ [t OR drop_bit 2 ?c] @ drop (p + 1) d)"
          using False c65 i by (simp add: unfold w p1)
        then show ?thesis using l by blast
      next
        case 3
        then have "decode_loop src i p t d = decode_loop src (i + 1) (written (i + 1)) t
            (take p d @ [t OR ?c] @ drop (p + 1) d)"
          using False c65 i by (simp add: unfold w p1)
        then show ?thesis using l by blast
      qed
    qed
    then obtain t' d' where "length d' = length d"
      "decode_loop src i p t d = decode_loop src (i + 1) (written (i + 1)) t' d'" by blast
    then show ?thesis using IH [of d' t'] False by (simp add: sig)
  qed
qed

section \<open>Properties\<close>

text \<open>
  C9. Encoding a non-empty string succeeds, stays inside the destination, yields four characters for
  every three bytes begun, and decoding the result gives the string back.
\<close>

theorem base64_round_trip:
  assumes "src \<noteq> []" and "length src < 2 ^ 30"
  shows "\<exists>enc. base64Encode src (Some d) = Inr (True, Some enc) \<and> length enc = 4 * ((length src + 2) div 3) \<and>
     base64Decode enc (Some d') = Some (Inr (True, Some src))"
proof -
  define e where "e = groups src 0"
  define m where "m = (length src + 2) div 3"
  have len: "length e = 4 * m" by (simp add: e_def m_def length_groups)
  have m: "m * 3 \<le> length src + 2" "length src \<le> m * 3" unfolding m_def by presburger+
  have "0 < length src" using assms(1) by simp
  then have "0 < m" using m(2) by linarith
  then have ne: "length e \<noteq> 0" and small: "length e < 2 ^ 31" and room: "length src \<le> length e div 4 * 3 + 2"
    using assms(2) m by (simp_all add: len)
  define r where "r = string_resize (length e div 4 * 3 + 2) d'"
  have r: "length src \<le> length r" using room by (simp add: r_def)
  have "decode_loop e 0 0 0 r = Some (Inr (length src, src @ drop (length src) r))"
    using decode_groups [of src 0 r "[]" 0] r by (simp add: e_def)
  moreover have "string_resize (int_to_size (base64DecodeLen (size_to_int (length e)))) d' = r"
    by (simp only: decode_len [OF small] r_def)
  ultimately have "base64Decode e (Some d') = Some (Inr (True, Some src))"
    using ne by (simp add: base64Decode_def string_resize_append)
  then show ?thesis using base64Encode_eq [OF assms, of d] len by (auto simp: e_def m_def)
qed

theorem base64_round_trip_witness:
  "\<exists>enc. base64Encode (ascii ''ab'') (Some []) = Inr (True, Some enc) \<and> length enc = 4 \<and>
     base64Decode enc (Some []) = Some (Inr (True, Some (ascii ''ab'')))"
  using base64_round_trip [of "ascii ''ab''" "[]" "[]"] by (simp add: ascii_def)

text \<open>
  C31. Decoding never stores outside the destination. It returns exactly when every character before
  the first padding character or NUL is in the alphabet; on any other character it never returns.
\<close>

theorem base64_decode_returns:
  assumes "src \<noteq> []" and "length src < 2 ^ 31"
  shows "(base64Decode src (Some d) = None \<longleftrightarrow> (\<exists>x \<in> set (significant src). char2Base x = 64)) \<and>
     (\<forall>e. base64Decode src (Some d) \<noteq> Some (Inl e))"
proof -
  define r where "r = string_resize (length src div 4 * 3 + 2) d"
  have r: "string_resize (int_to_size (base64DecodeLen (size_to_int (length src)))) d = r"
    by (simp only: decode_len [OF assms(2)] r_def)
  have "written (length src) \<le> length r" using written_rounds(3) by (simp add: r_def)
  then have "(decode_loop src 0 0 0 r = None \<longleftrightarrow> (\<exists>x \<in> set (significant src). char2Base x = 64)) \<and>
     (\<forall>e. decode_loop src 0 0 0 r \<noteq> Some (Inl e))"
    using decode_loop_total [of 0 src 0 r 0] by (simp add: written_def)
  then show ?thesis
    using assms(1) by (auto simp: base64Decode_def r split: option.splits sum.splits)
qed

theorem base64_decode_returns_witness: "base64Decode (ascii ''a b'') (Some []) = None"
proof -
  have "significant (ascii ''a b'') = ascii ''a b''" "char2Base (of_char CHR '' '') = 64"
    by (simp_all add: significant_def ascii_def pad_char_def char2Base_def word_le_nat_alt)
  then show ?thesis
    using base64_decode_returns [of "ascii ''a b''" "[]"] by (simp add: ascii_def)
qed

end
