(* ===== verification/Timing_Wheel.thy ===== *)
theory Timing_Wheel
  imports Atp_Prelude
begin

text \<open>
  \<open>net/atp_ring_buffer.hpp\<close> and \<open>net/atp_timing_wheel.hpp\<close>: a bounded list that drops its oldest
  element, and the idle-connection wheel built on it. A bucket is a set of shared pointers to
  entries; an entry is destroyed when the last bucket (or other owner) that holds it goes, and
  its destructor closes the connection it refers to.
\<close>

section \<open>RingBuffer\<close>

record 'a ring_buffer =
  max_size :: nat
  core_list :: "'a list"

definition CONN_READ_WRITE_EXPIRES :: nat where
  "CONN_READ_WRITE_EXPIRES = 10"

definition INIT_RING_BUFFER_SIZE :: nat where
  "INIT_RING_BUFFER_SIZE = CONN_READ_WRITE_EXPIRES"

definition RingBuffer :: "'a ring_buffer" where
  "RingBuffer = \<lparr>max_size = INIT_RING_BUFFER_SIZE, core_list = []\<rparr>"

definition RingBuffer_size :: "nat \<Rightarrow> 'a ring_buffer" where
  "RingBuffer_size n = \<lparr>max_size = n, core_list = []\<rparr>"

text \<open>The result carries the element that was dropped.\<close>

definition ring_push_back :: "'a \<Rightarrow> 'a ring_buffer \<Rightarrow> ('a option \<times> 'a ring_buffer) result" where
  "ring_push_back elem rb =
     (if length (core_list rb) = max_size rb then
        (case core_list rb of
           [] \<Rightarrow> Inl EmptyContainer
         | x # xs \<Rightarrow> Inr (Some x, rb\<lparr>core_list := xs @ [elem]\<rparr>))
      else Inr (None, rb\<lparr>core_list := core_list rb @ [elem]\<rparr>))"

definition ring_resize :: "nat \<Rightarrow> 'a ring_buffer \<Rightarrow> int \<times> 'a ring_buffer" where
  "ring_resize n rb = (0, rb\<lparr>max_size := n\<rparr>)"

definition ring_empty :: "'a ring_buffer \<Rightarrow> bool" where
  "ring_empty rb \<longleftrightarrow> core_list rb = []"

definition ring_full :: "'a ring_buffer \<Rightarrow> bool" where
  "ring_full rb \<longleftrightarrow> length (core_list rb) = max_size rb"

definition ring_size :: "'a ring_buffer \<Rightarrow> nat" where
  "ring_size rb = length (core_list rb)"

definition ring_length :: "'a ring_buffer \<Rightarrow> nat" where
  "ring_length rb = length (core_list rb)"

text \<open>\<open>back()\<close> is a reference: read, and update through it.\<close>

definition ring_back :: "'a ring_buffer \<Rightarrow> 'a result" where
  "ring_back rb = (if core_list rb = [] then Inl EmptyContainer else Inr (last (core_list rb)))"

definition ring_set_back :: "'a \<Rightarrow> 'a ring_buffer \<Rightarrow> 'a ring_buffer" where
  "ring_set_back x rb = rb\<lparr>core_list := butlast (core_list rb) @ [x]\<rparr>"

section \<open>TimingWheel\<close>

text \<open>Entries are identified by their address; \<open>conn_of\<close> below is the weak pointer in an entry.\<close>

type_synonym entry = nat
type_synonym bucket = "entry list"

record timing_wheel =
  slot_size :: nat
  timing_step :: nat
  cycle_buckets :: "bucket ring_buffer"

definition TimingWheel :: "nat \<Rightarrow> nat \<Rightarrow> timing_wheel" where
  "TimingWheel slots step = \<lparr>slot_size = slots, timing_step = step, cycle_buckets = snd (ring_resize slots RingBuffer)\<rparr>"

definition wheel_push_back :: "entry \<Rightarrow> timing_wheel \<Rightarrow> timing_wheel result" where
  "wheel_push_back elem w =
     bnd (ring_back (cycle_buckets w)) (\<lambda>b.
       Inr (w\<lparr>cycle_buckets := ring_set_back (List.insert elem b) (cycle_buckets w)\<rparr>))"

definition wheel_entries :: "timing_wheel \<Rightarrow> entry set" where
  "wheel_entries w = (\<Union>b \<in> set (core_list (cycle_buckets w)). set b)"

text \<open>
  The entries whose last owner goes with the dropped bucket: those in no bucket that is left and
  not \<open>held\<close> by a shared pointer elsewhere.
\<close>

definition entries_destroyed :: "(entry \<Rightarrow> bool) \<Rightarrow> bucket option \<Rightarrow> timing_wheel \<Rightarrow> entry list" where
  "entries_destroyed held dropped w =
     (case dropped of
        None \<Rightarrow> []
      | Some b \<Rightarrow> filter (\<lambda>e. \<not> held e \<and> e \<notin> wheel_entries w) b)"

definition wheel_push_bucket :: "(entry \<Rightarrow> bool) \<Rightarrow> bucket \<Rightarrow> timing_wheel \<Rightarrow> (entry list \<times> timing_wheel) result" where
  "wheel_push_bucket held elem w =
     bnd (ring_push_back elem (cycle_buckets w)) (\<lambda>(dropped, rb).
       let w' = w\<lparr>cycle_buckets := rb\<rparr> in Inr (entries_destroyed held dropped w', w'))"

text \<open>\<open>~Entry\<close>: the connections that are closed when the entries \<open>es\<close> are destroyed.\<close>

definition Entry_destroy :: "(entry \<Rightarrow> nat) \<Rightarrow> (nat \<Rightarrow> bool) \<Rightarrow> entry list \<Rightarrow> nat list" where
  "Entry_destroy conn_of alive es = filter alive (map conn_of es)"

section \<open>The ring buffer keeps the last elements\<close>

fun ring_pushes :: "'a list \<Rightarrow> 'a ring_buffer \<Rightarrow> ('a list \<times> 'a ring_buffer) result" where
  "ring_pushes [] rb = Inr ([], rb)"
| "ring_pushes (x # xs) rb =
     bnd (ring_push_back x rb) (\<lambda>(d, rb1).
     bnd (ring_pushes xs rb1) (\<lambda>(ds, rb2). Inr ((case d of None \<Rightarrow> [] | Some y \<Rightarrow> [y]) @ ds, rb2)))"

lemma ring_push_window:
  assumes "0 < max_size rb" and "length (core_list rb) \<le> max_size rb"
  shows "ring_push_back x rb =
     Inr (if length (core_list rb) = max_size rb then Some (hd (core_list rb)) else None,
          rb\<lparr>core_list := drop (length (core_list rb) + 1 - max_size rb) (core_list rb @ [x])\<rparr>)"
  using assms by (cases "core_list rb") (auto simp: ring_push_back_def)

lemma ring_pushes_window:
  assumes "0 < max_size rb" and "length (core_list rb) \<le> max_size rb"
  shows "ring_pushes xs rb =
     (let all = core_list rb @ xs; n = length all - max_size rb
      in Inr (take n all, rb\<lparr>core_list := drop n all\<rparr>))"
  using assms
proof (induction xs arbitrary: rb)
  case (Cons x xs)
  let ?all = "core_list rb @ [x]"
  let ?rb = "rb\<lparr>core_list := drop (length ?all - max_size rb) ?all\<rparr>"
  have p: "ring_push_back x rb =
      Inr (if length (core_list rb) = max_size rb then Some (hd (core_list rb)) else None, ?rb)"
    using ring_push_window [OF Cons.prems] by simp
  have IH: "ring_pushes xs ?rb =
      (let all = core_list ?rb @ xs; n = length all - max_size ?rb
       in Inr (take n all, ?rb\<lparr>core_list := drop n all\<rparr>))"
    using Cons.prems by (intro Cons.IH) auto
  show ?case
  proof (cases "length (core_list rb) = max_size rb")
    case True
    then obtain y ys where "core_list rb = y # ys" using Cons.prems by (cases "core_list rb") auto
    moreover from this have "max_size rb = Suc (length ys)" using True by simp
    moreover have "Suc (length ys + length xs) - length ys = Suc (length xs)" by simp
    ultimately show ?thesis using p IH by (simp add: Let_def)
  next
    case False
    then show ?thesis using Cons.prems p IH by (simp add: Let_def)
  qed
qed simp

section \<open>Life of an entry\<close>

text \<open>The server's use of the wheel: entries go into the newest bucket, a timer pushes empty buckets.\<close>

datatype wheel_op = Insert entry | Tick

fun wheel_step :: "(entry \<Rightarrow> bool) \<Rightarrow> wheel_op \<Rightarrow> timing_wheel \<Rightarrow> (entry list \<times> timing_wheel) result" where
  "wheel_step held (Insert x) w = bnd (wheel_push_back x w) (\<lambda>w'. Inr ([], w'))"
| "wheel_step held Tick w = wheel_push_bucket held [] w"

fun wheel_run :: "(entry \<Rightarrow> bool) \<Rightarrow> wheel_op list \<Rightarrow> timing_wheel \<Rightarrow> (entry list \<times> timing_wheel) result" where
  "wheel_run held [] w = Inr ([], w)"
| "wheel_run held (a # as) w =
     bnd (wheel_step held a w) (\<lambda>(d, w1). bnd (wheel_run held as w1) (\<lambda>(ds, w2). Inr (d @ ds, w2)))"

abbreviation buckets :: "timing_wheel \<Rightarrow> bucket list" where
  "buckets w \<equiv> core_list (cycle_buckets w)"

abbreviation slots :: "timing_wheel \<Rightarrow> nat" where
  "slots w \<equiv> max_size (cycle_buckets w)"

definition wheel_ok :: "timing_wheel \<Rightarrow> bool" where
  "wheel_ok w \<longleftrightarrow> buckets w \<noteq> [] \<and> length (buckets w) \<le> slots w \<and> (\<forall>b \<in> set (buckets w). distinct b)"

text \<open>The newest bucket with \<open>e\<close> is the one at position \<open>j\<close>.\<close>

definition newest :: "entry \<Rightarrow> nat \<Rightarrow> timing_wheel \<Rightarrow> bool" where
  "newest e j w \<longleftrightarrow> j < length (buckets w) \<and> e \<in> set (buckets w ! j) \<and>
     (\<forall>i. j < i \<longrightarrow> i < length (buckets w) \<longrightarrow> e \<notin> set (buckets w ! i))"

lemma insert_step:
  assumes "wheel_ok w"
  obtains w' where "wheel_step held (Insert x) w = Inr ([], w')" and "wheel_ok w'" and "slots w' = slots w"
    and "buckets w' = butlast (buckets w) @ [List.insert x (last (buckets w))]"
proof -
  let ?w = "w\<lparr>cycle_buckets := ring_set_back (List.insert x (last (buckets w))) (cycle_buckets w)\<rparr>"
  have "wheel_step held (Insert x) w = Inr ([], ?w)"
    using assms by (simp add: wheel_push_back_def ring_back_def wheel_ok_def)
  moreover have "wheel_ok ?w"
    using assms by (auto simp: wheel_ok_def ring_set_back_def dest: in_set_butlastD)
  ultimately show thesis using that by (simp add: ring_set_back_def)
qed

lemma tick_step:
  assumes "wheel_ok w"
  obtains (grow) w' where "length (buckets w) < slots w" and "wheel_step held Tick w = Inr ([], w')" and "wheel_ok w'"
      and "slots w' = slots w" and "buckets w' = buckets w @ [[]]"
  | (drop) w' b bs where "buckets w = b # bs" and "length (buckets w) = slots w" and "wheel_ok w'"
      and "wheel_step held Tick w = Inr (filter (\<lambda>e. \<not> held e \<and> e \<notin> wheel_entries w') b, w')"
      and "slots w' = slots w" and "buckets w' = bs @ [[]]"
proof (cases "length (buckets w) = slots w")
  case True
  obtain b bs where b: "buckets w = b # bs" using assms by (cases "buckets w") (auto simp: wheel_ok_def)
  let ?w = "w\<lparr>cycle_buckets := cycle_buckets w\<lparr>core_list := bs @ [[]]\<rparr>\<rparr>"
  show thesis
    by (rule drop [of b bs ?w])
      (use assms b True in \<open>auto simp: wheel_ok_def wheel_push_bucket_def ring_push_back_def entries_destroyed_def Let_def\<close>)
next
  case False
  let ?w = "w\<lparr>cycle_buckets := cycle_buckets w\<lparr>core_list := buckets w @ [[]]\<rparr>\<rparr>"
  show thesis
    by (rule grow [of ?w])
      (use assms False in \<open>auto simp: wheel_ok_def wheel_push_bucket_def ring_push_back_def entries_destroyed_def Let_def\<close>)
qed

lemma wheel_step_ok:
  assumes "wheel_ok w"
  obtains d w' where "wheel_step held a w = Inr (d, w')" and "wheel_ok w'" and "slots w' = slots w"
proof (cases a)
  case (Insert x)
  from insert_step [OF assms, of held x] Insert that show thesis by metis
next
  case Tick
  from assms show thesis by (cases rule: tick_step [of w held]) (use Tick that in auto)
qed

lemma absent_step:
  assumes "wheel_ok w" and "e \<notin> wheel_entries w" and "a \<noteq> Insert e" and "wheel_step held a w = Inr (d, w')"
  shows "e \<notin> wheel_entries w' \<and> e \<notin> set d"
proof (cases a)
  case (Insert x)
  from insert_step [OF assms(1), of held x] obtain v where
    "wheel_step held (Insert x) w = Inr ([], v)" "buckets v = butlast (buckets w) @ [List.insert x (last (buckets w))]"
    by metis
  then show ?thesis
    using assms Insert by (auto simp: wheel_entries_def wheel_ok_def dest: in_set_butlastD last_in_set)
next
  case Tick
  from assms(1) show ?thesis
  proof (cases rule: tick_step [of w held])
    case grow
    then show ?thesis using assms(2,4) Tick by (auto simp: wheel_entries_def)
  next
    case drop
    then show ?thesis using assms(2,4) Tick by (auto simp: wheel_entries_def)
  qed
qed

lemma absent_run:
  "wheel_ok w \<Longrightarrow> e \<notin> wheel_entries w \<Longrightarrow> Insert e \<notin> set as \<Longrightarrow>
   \<exists>ds w'. wheel_run held as w = Inr (ds, w') \<and> e \<notin> wheel_entries w' \<and> count_list ds e = 0"
proof (induction as arbitrary: w)
  case (Cons a as)
  obtain d w1 where s: "wheel_step held a w = Inr (d, w1)" "wheel_ok w1" using wheel_step_ok [OF Cons.prems(1)] .
  then have e: "e \<notin> wheel_entries w1" "e \<notin> set d" using absent_step [OF Cons.prems(1,2) _ s(1)] Cons.prems(3) by auto
  then obtain ds w' where "wheel_run held as w1 = Inr (ds, w')" "e \<notin> wheel_entries w'" "count_list ds e = 0"
    using Cons.IH [OF s(2)] Cons.prems(3) by auto
  then show ?case using s e(2) by (auto simp: count_list_0_iff)
qed simp

lemma newest_not_later:
  assumes "newest e 0 w" and "buckets w = b # bs" and "buckets w' = bs @ [[]]"
  shows "e \<notin> wheel_entries w'"
proof
  assume "e \<in> wheel_entries w'"
  then obtain c where "c \<in> set bs" "e \<in> set c" using assms(3) by (auto simp: wheel_entries_def)
  then obtain i where "i < length bs" "bs ! i = c" by (auto simp: in_set_conv_nth)
  then show False using assms(1,2) \<open>e \<in> set c\<close> unfolding newest_def by (auto dest!: spec [of _ "Suc i"])
qed

lemma count_list_filter: "count_list (filter P b) e = (if P e then count_list b e else 0)"
  by (induction b) auto

lemma count_list_distinct: "distinct b \<Longrightarrow> e \<in> set b \<Longrightarrow> count_list b e = 1"
  by (induction b) (auto simp: count_list_0_iff)

lemma newest_insert:
  assumes "newest e j w" and "buckets w \<noteq> []" and "x \<noteq> e"
    and "buckets v = butlast (buckets w) @ [List.insert x (last (buckets w))]"
  shows "newest e j v" and "length (buckets v) = length (buckets w)"
proof -
  obtain ys l where w: "buckets w = ys @ [l]" using assms(2) by (cases "buckets w" rule: rev_cases) auto
  then have v: "buckets v = ys @ [List.insert x l]" using assms(4) by simp
  have "set ((ys @ [List.insert x l]) ! i) - {x} = set ((ys @ [l]) ! i) - {x}" if "i < length (ys @ [l])" for i
    using that by (cases "i < length ys") (auto simp: nth_append less_Suc_eq)
  then have "e \<in> set (buckets v ! i) \<longleftrightarrow> e \<in> set (buckets w ! i)" if "i < length (buckets w)" for i
    using that assms(3) unfolding v w by blast
  then show "newest e j v" using assms(1) by (simp add: newest_def v w)
  show "length (buckets v) = length (buckets w)" by (simp add: v w)
qed

lemma newest_shift:
  assumes "newest e (Suc k) w" and "buckets w = b # bs" and "buckets v = bs @ [[]]"
  shows "newest e k v"
proof -
  have "k < length bs" "e \<in> set (bs ! k)" using assms(1,2) by (auto simp: newest_def)
  moreover have "e \<notin> set (bs ! i)" if "k < i" "i < length bs" for i
  proof -
    have "Suc k < Suc i" "Suc i < length (buckets w)" using assms(2) that by auto
    then have "e \<notin> set (buckets w ! Suc i)" using assms(1) unfolding newest_def by blast
    then show ?thesis using assms(2) by simp
  qed
  ultimately show ?thesis by (auto simp: newest_def assms(3) nth_append)
qed

lemma newest_run:
  "wheel_ok w \<Longrightarrow> newest e j w \<Longrightarrow> Insert e \<notin> set as \<Longrightarrow>
   \<exists>ds w'. wheel_run held as w = Inr (ds, w') \<and>
     (e \<in> wheel_entries w' \<longleftrightarrow> count_list as Tick < slots w - length (buckets w) + j + 1) \<and>
     count_list ds e = (if count_list as Tick < slots w - length (buckets w) + j + 1 \<or> held e then 0 else 1)"
proof (induction as arbitrary: w j)
  case Nil
  then have "e \<in> wheel_entries w" by (auto simp: newest_def wheel_entries_def)
  then show ?case by simp
next
  case (Cons a as)
  note ok = Cons.prems(1) and nw = Cons.prems(2)
  show ?case
  proof (cases a)
    case (Insert x)
    obtain v where v: "wheel_step held (Insert x) w = Inr ([], v)" "wheel_ok v" "slots v = slots w"
      "buckets v = butlast (buckets w) @ [List.insert x (last (buckets w))]"
      using insert_step [OF ok] .
    have "buckets w \<noteq> []" "x \<noteq> e" using ok Cons.prems(3) Insert by (auto simp: wheel_ok_def)
    note nv = newest_insert [OF nw this v(4)]
    from Cons.IH [OF v(2) nv(1)] show ?thesis using Cons.prems(3) Insert v(1,3) nv(2) by auto
  next
    case Tick
    from ok show ?thesis
    proof (cases rule: tick_step [of w held])
      case (grow v)
      have "newest e j v" using nw grow(5) by (auto simp: newest_def nth_append)
      from Cons.IH [OF grow(3) this] show ?thesis using Cons.prems(3) Tick grow by auto
    next
      case (drop v b bs)
      show ?thesis
      proof (cases j)
        case 0
        have out: "e \<notin> wheel_entries v" using newest_not_later [OF nw [unfolded 0] drop(1,6)] .
        have "e \<in> set b" "distinct b" using nw 0 drop(1) ok by (auto simp: newest_def wheel_ok_def)
        then have "count_list (filter (\<lambda>e. \<not> held e \<and> e \<notin> wheel_entries v) b) e = (if held e then 0 else 1)"
          using out by (simp add: count_list_filter count_list_distinct)
        moreover obtain ds w' where "wheel_run held as v = Inr (ds, w')" "e \<notin> wheel_entries w'" "count_list ds e = 0"
          using absent_run [OF drop(3) out, of as held] Cons.prems(3) by auto
        ultimately show ?thesis using Tick drop 0 by simp
      next
        case (Suc k)
        have nv: "newest e k v" using newest_shift nw drop(1,6) Suc by blast
        then have "e \<in> wheel_entries v" by (auto simp: newest_def wheel_entries_def)
        then show ?thesis using Cons.IH [OF drop(3) nv] Cons.prems(3) Tick drop Suc by auto
      qed
    qed
  qed
qed

lemma wheel_run_append:
  "wheel_run held as w = Inr (ds, w1) \<Longrightarrow> wheel_run held bs w1 = Inr (es, w2) \<Longrightarrow> wheel_run held (as @ bs) w = Inr (ds @ es, w2)"
  by (induction as arbitrary: w ds) (auto simp: bnd_eq_Inr)

text \<open>After an insertion.\<close>

lemma pushed_run:
  assumes "wheel_ok w" and "wheel_push_back e w = Inr w1" and "Insert e \<notin> set as"
  shows "\<exists>ds w2. wheel_run held as w1 = Inr (ds, w2) \<and>
     (e \<in> wheel_entries w2 \<longleftrightarrow> count_list as Tick < slots w) \<and>
     count_list ds e = (if count_list as Tick < slots w \<or> held e then 0 else 1)"
proof -
  obtain v where v: "wheel_step held (Insert e) w = Inr ([], v)" "wheel_ok v" "slots v = slots w"
    "buckets v = butlast (buckets w) @ [List.insert e (last (buckets w))]"
    using insert_step [OF assms(1)] .
  then have w1: "w1 = v" using assms(2) by simp
  let ?j = "length (buckets v) - 1"
  have len: "length (buckets v) = Suc ?j" "length (buckets v) \<le> slots v"
    using v(2,4) by (auto simp: wheel_ok_def)
  have "newest e ?j v" using v(4) by (auto simp: newest_def nth_append)
  from newest_run [OF v(2) this assms(3), of held] show ?thesis using len v(3) by (simp add: w1)
qed

text \<open>What an insertion and a tick do to the entries.\<close>

lemma insert_entries:
  assumes "wheel_ok w"
  obtains w' where "wheel_push_back e w = Inr w'" and "wheel_step held (Insert e) w = Inr ([], w')" and "wheel_ok w'"
    and "slots w' = slots w" and "wheel_entries w' = insert e (wheel_entries w)"
proof -
  obtain w' where w': "wheel_step held (Insert e) w = Inr ([], w')" "wheel_ok w'" "slots w' = slots w"
    "buckets w' = butlast (buckets w) @ [List.insert e (last (buckets w))]" using insert_step [OF assms] .
  obtain ys l where "buckets w = ys @ [l]" using assms by (cases "buckets w" rule: rev_cases) (auto simp: wheel_ok_def)
  then have "wheel_entries w' = insert e (wheel_entries w)" using w'(4) by (auto simp: wheel_entries_def)
  then show thesis using that w' by (auto simp: bnd_eq_Inr)
qed

lemma tick_entries:
  assumes "wheel_ok w"
  obtains es w' where "wheel_push_bucket (\<lambda>_. False) [] w = Inr (es, w')" and "wheel_ok w'" and "slots w' = slots w"
    and "wheel_entries w' = wheel_entries w - set es" and "set es \<subseteq> wheel_entries w" and "distinct es"
  using assms
proof (cases rule: tick_step [of w "\<lambda>_. False"])
  case (grow w')
  then show thesis using that [of "[]" w'] by (simp add: wheel_entries_def)
next
  case (drop w' b bs)
  have "distinct b" using assms drop(1) by (simp add: wheel_ok_def)
  moreover have "wheel_entries w = set b \<union> wheel_entries w'" using drop(1,6) by (auto simp: wheel_entries_def)
  ultimately show thesis using that [of "filter (\<lambda>e. e \<notin> wheel_entries w') b" w'] drop by auto
qed

section \<open>Properties\<close>

text \<open>
  A ring buffer holds the most recent elements: after any pushes it has the last \<open>max_size\<close>
  elements in order and has dropped the others in order. Once \<open>resize\<close> made the maximum smaller
  than the number of elements it never drops again.
\<close>

lemma ring_keeps_recent:
  assumes "0 < max_size rb"
  shows "(length (core_list rb) \<le> max_size rb \<longrightarrow>
      ring_pushes xs rb =
        (let all = core_list rb @ xs; n = length all - max_size rb
         in Inr (take n all, rb\<lparr>core_list := drop n all\<rparr>))) \<and>
    (max_size rb < length (core_list rb) \<longrightarrow> ring_pushes xs rb = Inr ([], rb\<lparr>core_list := core_list rb @ xs\<rparr>))"
proof (intro conjI impI)
  show "ring_pushes xs rb = Inr ([], rb\<lparr>core_list := core_list rb @ xs\<rparr>)" if "max_size rb < length (core_list rb)"
    using that by (induction xs arbitrary: rb) (auto simp: ring_push_back_def)
qed (rule ring_pushes_window [OF assms])

lemma ring_keeps_recent_witness:
  "ring_pushes [1, 2, 3 :: nat] (RingBuffer_size 2) = Inr ([1], \<lparr>max_size = 2, core_list = [2, 3]\<rparr>) \<and>
   ring_pushes [3 :: nat] (snd (ring_resize 1 \<lparr>max_size = 2, core_list = [1, 2]\<rparr>))
     = Inr ([], \<lparr>max_size = 1, core_list = [1, 2, 3]\<rparr>)"
  using ring_keeps_recent [of "RingBuffer_size 2 :: nat ring_buffer" "[1, 2, 3]"]
    ring_keeps_recent [of "snd (ring_resize 1 \<lparr>max_size = 2, core_list = [1, 2 :: nat]\<rparr>)" "[3]"]
  by (simp add: RingBuffer_size_def ring_resize_def Let_def)

text \<open>
  C16. An entry lives for as many ticks as the wheel has slots after it was last inserted: with fewer
  ticks it is in the wheel, with that many or more it is out, and then it has been destroyed once
  unless another owner holds it. No operation fails.
\<close>

theorem entry_lifetime:
  assumes "wheel_ok w" and "wheel_push_back e w = Inr w1" and "Insert e \<notin> set as"
  shows "\<exists>ds w2. wheel_run held as w1 = Inr (ds, w2) \<and>
     (e \<in> wheel_entries w2 \<longleftrightarrow> count_list as Tick < slots w) \<and>
     count_list ds e = (if count_list as Tick < slots w \<or> held e then 0 else 1)"
  by (rule pushed_run [OF assms])

definition sample_wheel :: timing_wheel where
  "sample_wheel = \<lparr>slot_size = 2, timing_step = 1, cycle_buckets = \<lparr>max_size = 2, core_list = [[]]\<rparr>\<rparr>"

theorem entry_lifetime_witness:
  "\<exists>ds w2. wheel_run (\<lambda>_. False) [Tick, Insert 8, Tick]
       (sample_wheel\<lparr>cycle_buckets := \<lparr>max_size = 2, core_list = [[7]]\<rparr>\<rparr>) = Inr (ds, w2)
     \<and> 7 \<notin> wheel_entries w2 \<and> count_list ds 7 = 1"
proof -
  have "wheel_ok sample_wheel" by (simp add: wheel_ok_def sample_wheel_def)
  moreover have "wheel_push_back 7 sample_wheel = Inr (sample_wheel\<lparr>cycle_buckets := \<lparr>max_size = 2, core_list = [[7]]\<rparr>\<rparr>)"
    by (simp add: wheel_push_back_def ring_back_def ring_set_back_def sample_wheel_def)
  ultimately have "\<exists>ds w2. wheel_run (\<lambda>_. False) [Tick, Insert 8, Tick]
       (sample_wheel\<lparr>cycle_buckets := \<lparr>max_size = 2, core_list = [[7]]\<rparr>\<rparr>) = Inr (ds, w2) \<and>
     (7 \<in> wheel_entries w2 \<longleftrightarrow> count_list [Tick, Insert 8, Tick] Tick < slots sample_wheel) \<and>
     count_list ds 7 = (if count_list [Tick, Insert 8, Tick] Tick < slots sample_wheel \<or> False then 0 else 1)"
    by (rule entry_lifetime) simp
  then show ?thesis by (simp add: sample_wheel_def)
qed

end
