(* ===== verification/Net_Base.thy ===== *)
theory Net_Base
  imports Atp_Prelude
begin

text \<open>
  What the network components share: the service state of \<open>net/atp_state_machine.hpp\<close>, the event
  flags of \<open>net/atp_config.h\<close> and the error classification of \<open>net/atp_libevent.h\<close>.
\<close>

section \<open>Service states\<close>

datatype service_state = STATE_NULL | STATE_INIT | STATE_RUNNING | STATE_STOPPING | STATE_STOPPED

fun state_code :: "service_state \<Rightarrow> int" where
  "state_code STATE_NULL = 1"
| "state_code STATE_INIT = 2"
| "state_code STATE_RUNNING = 4"
| "state_code STATE_STOPPING = 8"
| "state_code STATE_STOPPED = 16"

text \<open>The parameter of the C++ function is an enumeration, which can hold other values of its range.\<close>

definition STATE_TO_STRING :: "int \<Rightarrow> string" where
  "STATE_TO_STRING st =
     (if st = state_code STATE_NULL then ''STATE-NULL''
      else if st = state_code STATE_INIT then ''STATE-INIT''
      else if st = state_code STATE_RUNNING then ''STATE-RUNNING''
      else if st = state_code STATE_STOPPING then ''STATE-STOPPING''
      else if st = state_code STATE_STOPPED then ''STATE-STOPPED''
      else ''STATE-INVALID'')"

definition CHECK_STATE :: "service_state \<Rightarrow> service_state \<Rightarrow> bool" where
  "CHECK_STATE current st \<longleftrightarrow> state_code current = state_code st"

lemma state_code_inject [simp]: "state_code s = state_code t \<longleftrightarrow> s = t"
  by (cases s; cases t) simp_all

lemma CHECK_STATE_eq [simp]: "CHECK_STATE s t \<longleftrightarrow> s = t"
  by (simp add: CHECK_STATE_def)

lemma state_strings_distinct:
  "STATE_TO_STRING (state_code s) = STATE_TO_STRING (state_code t) \<longleftrightarrow> s = t"
  by (cases s; cases t) (simp_all add: STATE_TO_STRING_def)

section \<open>Event flags\<close>

type_synonym flags = "32 word"

definition ATP_NONE_EVENT :: flags where
  "ATP_NONE_EVENT = 0x00"

definition ATP_READ_EVENT :: flags where
  "ATP_READ_EVENT = 0x02"

definition ATP_WRITE_EVENT :: flags where
  "ATP_WRITE_EVENT = 0x04"

definition EV_PERSIST :: flags where
  "EV_PERSIST = 0x10"

definition ATP_SO_MAX_CONN :: int where
  "ATP_SO_MAX_CONN = 4096"

section \<open>Error classes\<close>

text \<open>The values of \<open>errno\<close> that the sources name.\<close>

datatype errno = EINTR | EAGAIN | EINPROGRESS | ECONNABORTED | ECONNREFUSED | ETIMEDOUT | Eother int

fun EVUTIL_ERR_IS_EAGAIN :: "errno \<Rightarrow> bool" where
  "EVUTIL_ERR_IS_EAGAIN e \<longleftrightarrow> e = EAGAIN"

fun EVUTIL_ERR_RW_RETRIABLE :: "errno \<Rightarrow> bool" where
  "EVUTIL_ERR_RW_RETRIABLE e \<longleftrightarrow> e = EINTR \<or> EVUTIL_ERR_IS_EAGAIN e"

fun EVUTIL_ERR_CONNECT_RETRIABLE :: "errno \<Rightarrow> bool" where
  "EVUTIL_ERR_CONNECT_RETRIABLE e \<longleftrightarrow> e = EINTR \<or> e = EINPROGRESS"

fun EVUTIL_ERR_ACCEPT_RETRIABLE :: "errno \<Rightarrow> bool" where
  "EVUTIL_ERR_ACCEPT_RETRIABLE e \<longleftrightarrow> e = EINTR \<or> EVUTIL_ERR_IS_EAGAIN e \<or> e = ECONNABORTED"

fun EVUTIL_ERR_CONNECT_REFUSED :: "errno \<Rightarrow> bool" where
  "EVUTIL_ERR_CONNECT_REFUSED e \<longleftrightarrow> e = ECONNREFUSED"

text \<open>\<open>evutil_make_internal_pipe\<close> and \<open>evutil_make_internal_eventfd\<close>: what the system call answers is an argument.\<close>

definition evutil_make_internal_pipe :: "(int \<times> int) option \<Rightarrow> int \<times> int \<Rightarrow> int \<times> int \<times> int" where
  "evutil_make_internal_pipe pipe2 fds = (case pipe2 of Some fds' \<Rightarrow> (0, fds') | None \<Rightarrow> (- 1, fds))"

definition EFD_DEFAULT_FLAGS :: int where
  "EFD_DEFAULT_FLAGS = 0x800 + 0x80000"

definition evutil_make_internal_eventfd :: "(int \<Rightarrow> int \<Rightarrow> int) \<Rightarrow> int \<Rightarrow> int \<Rightarrow> int" where
  "evutil_make_internal_eventfd eventfd val fl = eventfd val (if fl = 0 then EFD_DEFAULT_FLAGS else fl)"

end
