(* ===== verification/Event_Watcher.thy ===== *)
theory Event_Watcher
  imports Net_Base Step_System
begin

text \<open>
  \<open>net/atp_event_watcher.cpp\<close> and \<open>net/atp_cycle_timer.cpp\<close>: libevent events owned by an object (an
  eventfd, a pipe or a timer), and the timer task built on the last one.

  \<open>w_event\<close> says whether \<open>event_\<close> is non-null, \<open>pending\<close> whether libevent has the event in its
  base, \<open>dangling\<close> that the event was deleted while libevent had it, \<open>closed\<close> the descriptors
  passed to \<open>close\<close> so far. Answers of the system and of libevent are arguments.
\<close>

section \<open>Watchers\<close>

datatype watcher_kind =
    Eventfd (event_fd: int) (eventfd_flags: int)
  | Pipe (pipe_fd0: int) (pipe_fd1: int)
  | Timer (tv_sec: int)

record watcher =
  kind :: watcher_kind
  w_event :: bool
  w_attached :: bool
  cancel_handle :: bool
  pending :: bool
  dangling :: bool
  closed :: "int list"

definition EventWatcher :: "watcher_kind \<Rightarrow> watcher" where
  "EventWatcher k = \<lparr>kind = k, w_event = True, w_attached = False, cancel_handle = False, pending = False,
     dangling = False, closed = []\<rparr>"

definition EventfdWatcher :: "int \<Rightarrow> watcher" where
  "EventfdWatcher fl = EventWatcher (Eventfd (- 1) fl)"

definition PipeEventWatcher :: watcher where
  "PipeEventWatcher = EventWatcher (Pipe 0 0)"

definition TimerEventWatcher :: "int \<Rightarrow> watcher" where
  "TimerEventWatcher delay_second = EventWatcher (Timer delay_second)"

text \<open>Each implementation gives the descriptors it closes and the members it leaves.\<close>

definition eventfd_doTerminateImpl :: "int \<Rightarrow> int \<Rightarrow> int list \<times> watcher_kind" where
  "eventfd_doTerminateImpl fd fl = ([fd], Eventfd (- 1) 0)"

definition pipe_doTerminateImpl :: "int \<Rightarrow> int \<Rightarrow> int list \<times> watcher_kind" where
  "pipe_doTerminateImpl fd0 fd1 = ([fd0, fd1], Pipe 0 0)"

definition timer_doTerminateImpl :: "int \<Rightarrow> int list \<times> watcher_kind" where
  "timer_doTerminateImpl tv = ([], Timer 0)"

fun doTerminateImpl :: "watcher_kind \<Rightarrow> int list \<times> watcher_kind" where
  "doTerminateImpl (Eventfd fd fl) = eventfd_doTerminateImpl fd fl"
| "doTerminateImpl (Pipe a b) = pipe_doTerminateImpl a b"
| "doTerminateImpl (Timer tv) = timer_doTerminateImpl tv"

definition doTerminate :: "watcher \<Rightarrow> watcher" where
  "doTerminate w =
     (let (cs, k) = doTerminateImpl (kind w) in w\<lparr>kind := k, closed := closed w @ cs\<rparr>)"

text \<open>What the kernel answers: the descriptor of \<open>eventfd\<close> and the pair of \<open>pipe2\<close>.\<close>

definition eventfd_doInitImpl :: "int \<Rightarrow> int \<Rightarrow> watcher \<Rightarrow> bool \<times> watcher" where
  "eventfd_doInitImpl efd fl w =
     (let fd = evutil_make_internal_eventfd (\<lambda>v f. efd) 0 fl;
          w1 = w\<lparr>kind := Eventfd fd fl\<rparr>
      in if fd < 0 then (False, doTerminate w1) else (True, w1))"

definition pipe_doInitImpl :: "(int \<times> int) option \<Rightarrow> int \<Rightarrow> int \<Rightarrow> watcher \<Rightarrow> bool \<times> watcher" where
  "pipe_doInitImpl pfds fd0 fd1 w =
     (case evutil_make_internal_pipe pfds (fd0, fd1) of
        (ret, a, b) \<Rightarrow>
          (let w1 = w\<lparr>kind := Pipe a b\<rparr> in if ret < 0 then (False, doTerminate w1) else (True, w1)))"

definition timer_doInitImpl :: "watcher \<Rightarrow> bool \<times> watcher" where
  "timer_doInitImpl w = (True, w)"

definition doInitImpl :: "int \<Rightarrow> (int \<times> int) option \<Rightarrow> watcher \<Rightarrow> bool \<times> watcher" where
  "doInitImpl efd pfds w =
     (case kind w of
        Eventfd fd fl \<Rightarrow> eventfd_doInitImpl efd fl w
      | Pipe a b \<Rightarrow> pipe_doInitImpl pfds a b w
      | Timer tv \<Rightarrow> timer_doInitImpl w)"

text \<open>
  \<open>event_add\<close> without a time-out makes an event on a descriptor pending; the timer event has
  neither a descriptor nor a time-out then.
\<close>

definition doInit :: "int \<Rightarrow> (int \<times> int) option \<Rightarrow> watcher \<Rightarrow> bool \<times> watcher" where
  "doInit efd pfds w =
     (case doInitImpl efd pfds w of
        (False, w1) \<Rightarrow> (False, doTerminate w1)
      | (True, w1) \<Rightarrow> (True, w1\<lparr>pending := (case kind w1 of Timer _ \<Rightarrow> False | _ \<Rightarrow> True)\<rparr>))"

definition detachEventAndFree :: "watcher \<Rightarrow> watcher" where
  "detachEventAndFree w =
     (if \<not> w_event w then w
      else
        (let w1 = (if w_attached w then w\<lparr>pending := False, w_attached := False\<rparr> else w)
         in w1\<lparr>w_event := False, dangling := dangling w1 \<or> pending w1\<rparr>))"

text \<open>The result says whether the cancel handler is to be called; \<open>doCancel_done\<close> is what follows that call.\<close>

definition doCancel :: "watcher \<Rightarrow> bool \<times> watcher" where
  "doCancel w =
     (if \<not> w_event w then (False, w)
      else (let w1 = detachEventAndFree w in (cancel_handle w1, w1)))"

definition doCancel_done :: "watcher \<Rightarrow> watcher" where
  "doCancel_done w = w\<lparr>cancel_handle := False\<rparr>"

definition doWatch :: "bool \<Rightarrow> bool \<Rightarrow> watcher \<Rightarrow> (bool \<times> watcher) result" where
  "doWatch del_ok add_ok w =
     (let w1 = (if w_attached w \<and> w_event w \<and> del_ok then w\<lparr>pending := False\<rparr> else w);
          w2 = w1\<lparr>w_attached := False\<rparr>
      in if \<not> w_event w2 then Inl NullDeref
         else if \<not> add_ok then Inr (False, w2)
         else Inr (True, w2\<lparr>pending := True, w_attached := True\<rparr>))"

text \<open>The three classes pass their time-out to \<open>doWatch\<close>: none, none, and \<open>tv_\<close>.\<close>

definition eventfd_asyncWait :: "bool \<Rightarrow> bool \<Rightarrow> watcher \<Rightarrow> (bool \<times> watcher) result" where
  "eventfd_asyncWait del_ok add_ok w = doWatch del_ok add_ok w"

definition pipe_asyncWait :: "bool \<Rightarrow> bool \<Rightarrow> watcher \<Rightarrow> (bool \<times> watcher) result" where
  "pipe_asyncWait del_ok add_ok w = doWatch del_ok add_ok w"

definition timer_asyncWait :: "bool \<Rightarrow> bool \<Rightarrow> watcher \<Rightarrow> (bool \<times> watcher) result" where
  "timer_asyncWait del_ok add_ok w = doWatch del_ok add_ok w"

definition asyncWait :: "bool \<Rightarrow> bool \<Rightarrow> watcher \<Rightarrow> (bool \<times> watcher) result" where
  "asyncWait del_ok add_ok w =
     (case kind w of
        Eventfd _ _ \<Rightarrow> eventfd_asyncWait del_ok add_ok w
      | Pipe _ _ \<Rightarrow> pipe_asyncWait del_ok add_ok w
      | Timer _ \<Rightarrow> timer_asyncWait del_ok add_ok w)"

definition watcher_setCancelCallback :: "watcher \<Rightarrow> watcher" where
  "watcher_setCancelCallback w = w\<lparr>cancel_handle := True\<rparr>"

text \<open>
  Destruction of a derived watcher: its own destructor, then that of the base class, where the
  virtual call reaches the empty implementation.
\<close>

definition watcher_destroy :: "watcher \<Rightarrow> watcher" where
  "watcher_destroy w = detachEventAndFree (doTerminate w)"

definition getEventfd :: "watcher \<Rightarrow> int" where
  "getEventfd w = event_fd (kind w)"

definition getPipeInternalReadWriteFd :: "watcher \<Rightarrow> int \<times> int" where
  "getPipeInternalReadWriteFd w = (pipe_fd0 (kind w), pipe_fd1 (kind w))"

text \<open>
  The notification channel itself: a counter for the eventfd, a number of bytes for the pipe. A
  write is accepted (\<open>ok\<close>) or refused; a read takes all of the counter or one byte, and the task
  handler runs when it succeeds.
\<close>

definition eventfd_value :: nat where
  "eventfd_value = 3399"

definition eventfd_eventNotify :: "bool \<Rightarrow> nat \<Rightarrow> nat" where
  "eventfd_eventNotify ok n = (if ok then n + eventfd_value else n)"

definition pipe_eventNotify :: "bool \<Rightarrow> nat \<Rightarrow> nat" where
  "pipe_eventNotify ok n = (if ok then n + 1 else n)"

definition eventfdNotifyHandle :: "nat \<Rightarrow> bool \<times> nat" where
  "eventfdNotifyHandle n = (if n = 0 then (False, 0) else (True, 0))"

definition pipeEventNotifyHandle :: "nat \<Rightarrow> bool \<times> nat" where
  "pipeEventNotifyHandle n = (if n = 0 then (False, 0) else (True, n - 1))"

section \<open>CycleTimer\<close>

text \<open>
  \<open>ct_watcher\<close> is the \<open>TimerEventWatcher\<close> object while any shared pointer to it exists,
  \<open>ct_held\<close> whether \<open>timer_watcher_\<close> is one of them, \<open>ct_cancels\<close> the number of queued \<open>doCancel\<close>
  tasks, which are the others. \<open>ct_fired\<close> and \<open>ct_cancelled\<close> count the calls of the two user
  callbacks.
\<close>

record cycle_timer =
  ct_delay :: int
  ct_persist :: bool
  ct_expires :: bool
  ct_cancel_fn :: bool
  ct_self :: bool
  ct_watcher :: "watcher option"
  ct_held :: bool
  ct_cancels :: nat
  ct_fired :: nat
  ct_cancelled :: nat

definition newCycleTimer :: "int \<Rightarrow> bool \<Rightarrow> cycle_timer" where
  "newCycleTimer delay persist =
     \<lparr>ct_delay = delay, ct_persist = persist, ct_expires = True, ct_cancel_fn = False, ct_self = True,
      ct_watcher = None, ct_held = False, ct_cancels = 0, ct_fired = 0, ct_cancelled = 0\<rparr>"

definition timer_setCancelCallback :: "cycle_timer \<Rightarrow> cycle_timer" where
  "timer_setCancelCallback t = t\<lparr>ct_cancel_fn := True\<rparr>"

text \<open>The task that \<open>start\<close> sends to the loop.\<close>

definition timer_start_task :: "cycle_timer \<Rightarrow> cycle_timer result" where
  "timer_start_task t =
     (let w = watcher_setCancelCallback (TimerEventWatcher (ct_delay t));
          w1 = snd (doInit (- 1) None w)
      in bnd (asyncWait True True w1) (\<lambda>(ok, w2). Inr (t\<lparr>ct_watcher := Some w2, ct_held := True\<rparr>)))"

text \<open>\<open>timer_watcher_.reset()\<close>: the watcher goes unless a queued task holds it.\<close>

definition reset_watcher :: "cycle_timer \<Rightarrow> cycle_timer" where
  "reset_watcher t =
     t\<lparr>ct_held := False, ct_watcher := (if ct_cancels t = 0 then None else ct_watcher t)\<rparr>"

definition timer_cancel :: "cycle_timer \<Rightarrow> cycle_timer" where
  "timer_cancel t = (if ct_held t then t\<lparr>ct_cancels := ct_cancels t + 1\<rparr> else t)"

definition onTrigger :: "cycle_timer \<Rightarrow> cycle_timer result" where
  "onTrigger t =
     (let t1 = (if ct_expires t then t\<lparr>ct_fired := ct_fired t + 1\<rparr> else t) in
      if ct_persist t1 then
        (case ct_watcher t1 of
           None \<Rightarrow> Inl NullDeref
         | Some w \<Rightarrow>
             if \<not> ct_held t1 then Inl NullDeref
             else bnd (asyncWait True True w) (\<lambda>(ok, w1). Inr (t1\<lparr>ct_watcher := Some w1\<rparr>)))
      else Inr ((reset_watcher (t1\<lparr>ct_cancel_fn := False, ct_expires := False\<rparr>))\<lparr>ct_self := False\<rparr>))"

definition onCancel :: "cycle_timer \<Rightarrow> cycle_timer" where
  "onCancel t =
     (let t1 = t\<lparr>ct_persist := False\<rparr>;
          t2 = (if ct_cancel_fn t1 then t1\<lparr>ct_cancelled := ct_cancelled t1 + 1, ct_cancel_fn := False\<rparr> else t1);
          t3 = t2\<lparr>ct_expires := False\<rparr>
      in (reset_watcher t3)\<lparr>ct_self := False\<rparr>)"

text \<open>The loop runs a queued \<open>doCancel\<close>; the task's pointer goes when it returns.\<close>

definition run_cancel_task :: "cycle_timer \<Rightarrow> cycle_timer result" where
  "run_cancel_task t =
     (case ct_watcher t of
        None \<Rightarrow> Inl UseAfterFree
      | Some w \<Rightarrow>
          (let (call, w1) = doCancel w;
               t1 = t\<lparr>ct_watcher := Some w1\<rparr>;
               t2 = (if call then onCancel t1 else t1);
               t3 = (if call then t2\<lparr>ct_watcher := map_option doCancel_done (ct_watcher t2)\<rparr> else t2);
               t4 = t3\<lparr>ct_cancels := ct_cancels t3 - 1\<rparr>
           in Inr (if ct_held t4 \<or> 0 < ct_cancels t4 then t4 else t4\<lparr>ct_watcher := None\<rparr>)))"

text \<open>libevent calls the timer's handler when its event is pending, and takes the event out first.\<close>

definition timer_expire :: "cycle_timer \<Rightarrow> cycle_timer result" where
  "timer_expire t =
     (case ct_watcher t of
        None \<Rightarrow> Inl UseAfterFree
      | Some w \<Rightarrow> onTrigger (t\<lparr>ct_watcher := Some (w\<lparr>pending := False\<rparr>)\<rparr>))"

section \<open>Steps of a started timer\<close>

inductive timer_step :: "cycle_timer \<Rightarrow> cycle_timer \<Rightarrow> bool" where
  set_cancel: "timer_step t (timer_setCancelCallback t)"
| cancel: "timer_step t (timer_cancel t)"
| run_cancel: "0 < ct_cancels t \<Longrightarrow> run_cancel_task t = Inr t' \<Longrightarrow> timer_step t t'"
| expire: "ct_watcher t = Some w \<Longrightarrow> pending w \<Longrightarrow> timer_expire t = Inr t' \<Longrightarrow> timer_step t t'"

definition live_watcher :: "watcher \<Rightarrow> bool" where
  "live_watcher w \<longleftrightarrow> pending w \<and> w_event w \<and> w_attached w \<and> cancel_handle w"

definition timer_inv :: "bool \<Rightarrow> cycle_timer \<Rightarrow> bool" where
  "timer_inv p t \<longleftrightarrow>
     (ct_watcher t = None \<longleftrightarrow> \<not> ct_held t \<and> ct_cancels t = 0) \<and>
     (\<forall>w. ct_watcher t = Some w \<longrightarrow> \<not> dangling w \<and> (if ct_held t then live_watcher w else \<not> pending w)) \<and>
     (ct_held t \<longrightarrow> ct_persist t = p \<and> ct_expires t \<and> ct_self t \<and> ct_cancelled t = 0) \<and>
     (\<not> ct_held t \<longrightarrow> \<not> ct_persist t \<and> \<not> ct_expires t \<and> \<not> ct_self t) \<and>
     (\<not> p \<longrightarrow> ct_fired t \<le> (if ct_held t then 0 else 1)) \<and>
     ct_cancelled t \<le> (if \<exists>w. ct_watcher t = Some w \<and> w_event w then 0 else 1)"

lemma asyncWait_eq: "asyncWait del_ok add_ok w = doWatch del_ok add_ok w"
  by (simp add: asyncWait_def eventfd_asyncWait_def pipe_asyncWait_def timer_asyncWait_def split: watcher_kind.split)

lemmas timer_defs = timer_inv_def live_watcher_def run_cancel_task_def doCancel_def doCancel_done_def detachEventAndFree_def
  onCancel_def reset_watcher_def timer_expire_def onTrigger_def asyncWait_eq doWatch_def timer_cancel_def

lemma start_inv:
  assumes "timer_start_task t = Inr t0" and "ct_cancels t = 0" and "ct_persist t = p" and "ct_fired t = 0" and "ct_cancelled t = 0"
    and "ct_expires t" and "ct_self t"
  shows "timer_inv p t0" and "ct_held t0"
  using assms
  by (auto simp: timer_start_task_def timer_defs TimerEventWatcher_def EventWatcher_def watcher_setCancelCallback_def
      doInit_def doInitImpl_def timer_doInitImpl_def Let_def)

lemma run_cancel_inv:
  assumes "timer_inv p t" and "0 < ct_cancels t"
  shows "\<exists>t'. run_cancel_task t = Inr t' \<and> timer_inv p t' \<and> \<not> ct_held t' \<and> ct_fired t' = ct_fired t \<and>
    (ct_held t \<longrightarrow> ct_cancelled t' = (if ct_cancel_fn t then 1 else 0) \<and> \<not> ct_cancel_fn t')"
proof -
  obtain w where "ct_watcher t = Some w" using assms by (auto simp: timer_inv_def)
  then show ?thesis
    using assms by (cases "ct_held t"; cases "w_event w"; cases "ct_cancel_fn t"; cases "cancel_handle w")
      (auto simp: timer_defs Let_def)
qed

lemma expire_inv:
  assumes "timer_inv p t" and "ct_watcher t = Some w" and "pending w"
  shows "\<exists>t'. timer_expire t = Inr t' \<and> timer_inv p t' \<and> ct_fired t' = Suc (ct_fired t) \<and> ct_held t' = p \<and> (\<not> p \<longrightarrow> \<not> ct_cancel_fn t')"
proof -
  have "ct_held t" "live_watcher w" using assms by (auto simp: timer_inv_def split: if_splits)
  then show ?thesis
    using assms by (cases "ct_persist t"; cases "ct_expires t"; cases "ct_cancel_fn t") (auto simp: timer_defs Let_def)
qed

lemma timer_step_inv:
  assumes "timer_step t t'" and "timer_inv p t"
  shows "timer_inv p t' \<and> (\<not> ct_held t \<longrightarrow> \<not> ct_held t' \<and> ct_fired t' = ct_fired t)"
  using assms(1)
proof (cases rule: timer_step.cases)
  case set_cancel
  then show ?thesis using assms(2) by (auto simp: timer_setCancelCallback_def timer_inv_def)
next
  case cancel
  then show ?thesis using assms(2) by (auto simp: timer_cancel_def timer_inv_def)
next
  case run_cancel
  then show ?thesis using run_cancel_inv [OF assms(2)] by auto
next
  case (expire w)
  then show ?thesis using expire_inv [OF assms(2)] assms(2) by (auto simp: timer_inv_def)
qed

text \<open>A timer that has given up its watcher stays so and fires no more.\<close>

interpretation cycle_timer: step_frozen timer_step "timer_inv p" "\<lambda>t. \<not> ct_held t" ct_fired for p
  by unfold_locales (use timer_step_inv in blast)+

section \<open>Properties\<close>

lemmas watcher_defs = doInit_def doInitImpl_def eventfd_doInitImpl_def pipe_doInitImpl_def timer_doInitImpl_def
  eventfd_doTerminateImpl_def pipe_doTerminateImpl_def timer_doTerminateImpl_def asyncWait_eq doWatch_def watcher_destroy_def doTerminate_def
  detachEventAndFree_def Let_def

text \<open>
  A watcher that is initialised, waits and is destroyed leaves nothing behind: libevent has no
  pointer to the freed event, and each descriptor the kernel gave it is closed exactly once. When
  it is destroyed without having waited, the event it registered in \<open>doInit\<close> is freed while
  libevent still has it.
\<close>

lemma watcher_lifecycle:
  assumes "0 \<le> efd" and "w = EventfdWatcher fl \<and> fds = [efd] \<or> w = PipeEventWatcher \<and> fds = [a, b]"
  shows "\<exists>w1 w2. doInit efd (Some (a, b)) w = (True, w1) \<and> asyncWait True True w1 = Inr (True, w2) \<and>
      \<not> dangling (watcher_destroy w2) \<and> closed (watcher_destroy w2) = fds \<and> dangling (watcher_destroy w1)"
  using assms(2)
proof (elim disjE conjE)
  assume "w = EventfdWatcher fl" and "fds = [efd]"
  then show ?thesis
    using assms(1) by (simp add: EventfdWatcher_def EventWatcher_def evutil_make_internal_eventfd_def watcher_defs)
next
  assume "w = PipeEventWatcher" and "fds = [a, b]"
  then show ?thesis
    by (simp add: PipeEventWatcher_def EventWatcher_def evutil_make_internal_pipe_def watcher_defs)
qed

lemma watcher_lifecycle_witness:
  "\<exists>w1 w2. doInit 7 (Some (8, 9)) (EventfdWatcher 0) = (True, w1) \<and> asyncWait True True w1 = Inr (True, w2) \<and>
      closed (watcher_destroy w2) = [7]"
  using watcher_lifecycle [of 7 "EventfdWatcher 0" 0 "[7]" 8 9] by auto

text \<open>
  When the pipe of a \<open>PipeEventWatcher\<close> cannot be made, \<open>doInit\<close> and the destructor close
  descriptor 0 six times: every \<open>doTerminate\<close> resets the descriptors to 0, not to an invalid value.
\<close>

lemma pipe_failure_closes_stdin:
  "doInit efd None PipeEventWatcher = (False, w) \<Longrightarrow> closed (watcher_destroy w) = [0, 0, 0, 0, 0, 0]"
  by (auto simp: PipeEventWatcher_def EventWatcher_def evutil_make_internal_pipe_def watcher_defs)

lemma pipe_failure_closes_stdin_witness:
  "closed (watcher_destroy (snd (doInit 0 None PipeEventWatcher))) = [0, 0, 0, 0, 0, 0]"
proof -
  have "doInit 0 None PipeEventWatcher = (False, snd (doInit 0 None PipeEventWatcher))"
    by (simp add: PipeEventWatcher_def EventWatcher_def evutil_make_internal_pipe_def watcher_defs)
  then show ?thesis by (rule pipe_failure_closes_stdin)
qed

text \<open>
  C19. Whatever the order of cancel requests, cancel tasks, expirations and calls of
  \<open>setCancelCallback\<close> on a started timer, no step faults. An expiration calls the expiry callback once; a
  timer that is not persistent fires at most once and drops its cancel callback then. The first
  cancel task that finds the timer running stops it, calls the cancel callback if there is one and
  clears it; the cancel callback runs at most once in all, also when it is set again later. A timer that
  is not running has dropped its watcher, its expiry callback and the reference to itself, and stays so. A
  cancel request before the start task has run is lost.
\<close>

theorem cycle_timer_safe:
  assumes "timer_start_task t00 = Inr t0" and "t00 = newCycleTimer d p \<or> t00 = timer_setCancelCallback (newCycleTimer d p)"
    and "timer_step\<^sup>*\<^sup>* t0 t"
  shows "(\<not> p \<longrightarrow> ct_fired t \<le> 1) \<and> ct_cancelled t \<le> 1 \<and>
    (0 < ct_cancels t \<longrightarrow> (\<exists>t1. run_cancel_task t = Inr t1 \<and> \<not> ct_held t1 \<and>
      (ct_held t \<longrightarrow> ct_cancelled t1 = (if ct_cancel_fn t then 1 else 0) \<and> \<not> ct_cancel_fn t1))) \<and>
    (\<forall>w. ct_watcher t = Some w \<and> pending w \<longrightarrow>
      (\<exists>t1. timer_expire t = Inr t1 \<and> ct_fired t1 = Suc (ct_fired t) \<and> ct_held t1 = p \<and> (\<not> p \<longrightarrow> \<not> ct_cancel_fn t1))) \<and>
    (\<not> ct_held t \<longrightarrow> \<not> ct_persist t \<and> \<not> ct_expires t \<and> \<not> ct_self t) \<and>
    (\<forall>t'. \<not> ct_held t \<and> timer_step\<^sup>*\<^sup>* t t' \<longrightarrow> \<not> ct_held t' \<and> ct_fired t' = ct_fired t) \<and>
    timer_cancel t00 = t00"
proof -
  have "timer_inv p t0" using start_inv(1) [OF assms(1)] assms(2) by (auto simp: newCycleTimer_def timer_setCancelCallback_def)
  then have inv: "timer_inv p t" by (rule cycle_timer.steps_keep [OF assms(3)])
  then have "(\<not> p \<longrightarrow> ct_fired t \<le> 1) \<and> ct_cancelled t \<le> 1 \<and> (\<not> ct_held t \<longrightarrow> \<not> ct_persist t \<and> \<not> ct_expires t \<and> \<not> ct_self t)"
    by (auto simp: timer_inv_def split: if_splits)
  moreover have "0 < ct_cancels t \<longrightarrow> (\<exists>t1. run_cancel_task t = Inr t1 \<and> \<not> ct_held t1 \<and>
      (ct_held t \<longrightarrow> ct_cancelled t1 = (if ct_cancel_fn t then 1 else 0) \<and> \<not> ct_cancel_fn t1))"
    using run_cancel_inv [OF inv] by blast
  moreover have "\<forall>w. ct_watcher t = Some w \<and> pending w \<longrightarrow>
      (\<exists>t1. timer_expire t = Inr t1 \<and> ct_fired t1 = Suc (ct_fired t) \<and> ct_held t1 = p \<and> (\<not> p \<longrightarrow> \<not> ct_cancel_fn t1))"
    using expire_inv [OF inv] by blast
  moreover have "\<forall>t'. \<not> ct_held t \<and> timer_step\<^sup>*\<^sup>* t t' \<longrightarrow> \<not> ct_held t' \<and> ct_fired t' = ct_fired t"
    using cycle_timer.steps_frozen [OF _ inv] by blast
  moreover have "timer_cancel t00 = t00"
    using assms(2) by (auto simp: timer_cancel_def newCycleTimer_def timer_setCancelCallback_def)
  ultimately show ?thesis by blast
qed

text \<open>A timer with a cancel callback that is cancelled.\<close>

theorem cycle_timer_safe_witness:
  "\<exists>t0 t. timer_start_task (timer_setCancelCallback (newCycleTimer 5 True)) = Inr t0 \<and> run_cancel_task (timer_cancel t0) = Inr t \<and>
     ct_cancelled t = 1 \<and> \<not> ct_cancel_fn t \<and> \<not> ct_held t"
proof -
  let ?t = "timer_setCancelCallback (newCycleTimer 5 True)"
  obtain t0 where t0: "timer_start_task ?t = Inr t0" "ct_held t0" "ct_cancel_fn t0"
    by (simp add: timer_start_task_def timer_defs TimerEventWatcher_def EventWatcher_def watcher_setCancelCallback_def
        doInit_def doInitImpl_def timer_doInitImpl_def newCycleTimer_def timer_setCancelCallback_def Let_def)
  have "timer_step\<^sup>*\<^sup>* t0 (timer_cancel t0)" using timer_step.cancel by blast
  from cycle_timer_safe [OF t0(1) disjI2 [OF refl] this] show ?thesis using t0 by (auto simp: timer_cancel_def)
qed

end
