(* ===== verification/Event_Loop.thy ===== *)
theory Event_Loop
  imports Event_Watcher
begin

text \<open>
  \<open>net/atp_event_loop.cpp\<close>: the task queue of an event loop, seen from one caller at a time. What a
  task does is an argument \<open>exec\<close> that acts on the whole loop, since a task may itself send tasks
  or stop the loop. The interleaving of several senders with the loop is in
  \<open>Event_Loop_Wakeup\<close>.

  \<open>el_counter\<close> is the counter of the eventfd, \<open>el_exit\<close> says that \<open>event_base_loopexit\<close> was called,
  \<open>el_watcher\<close> is the owned \<open>EventfdWatcher\<close>.
\<close>

record 'a event_loop =
  el_state :: service_state
  el_thread :: nat
  el_tasks :: "'a list"
  el_pending :: int
  el_notified :: bool
  el_counter :: nat
  el_exit :: bool
  el_watcher :: watcher

section \<open>Construction\<close>

text \<open>\<open>efd\<close> is the kernel's answer to \<open>eventfd\<close>.\<close>

definition doInitEventWatcher :: "int \<Rightarrow> 'a event_loop \<Rightarrow> 'a event_loop result" where
  "doInitEventWatcher efd lp =
     (case doInit efd None (EventfdWatcher 0) of
        (ok, w) \<Rightarrow> assert_that ok (Inr (lp\<lparr>el_watcher := w\<rparr>)))"

definition loop_doInit :: "int \<Rightarrow> nat \<Rightarrow> 'a event_loop \<Rightarrow> 'a event_loop result" where
  "loop_doInit efd tid lp = doInitEventWatcher efd (lp\<lparr>el_state := STATE_INIT, el_thread := tid, el_tasks := []\<rparr>)"

definition EventLoop :: "int \<Rightarrow> nat \<Rightarrow> 'a event_loop result" where
  "EventLoop efd tid =
     loop_doInit efd tid
       \<lparr>el_state = STATE_NULL, el_thread = 0, el_tasks = [], el_pending = 0, el_notified = False,
        el_counter = 0, el_exit = False, el_watcher = EventfdWatcher 0\<rparr>"

text \<open>
  The destructor frees the event base first; the watcher is a member and is destroyed afterwards,
  where \<open>event_del\<close> on an attached event reads the freed base.
\<close>

definition EventLoop_destroy :: "'a event_loop \<Rightarrow> unit result" where
  "EventLoop_destroy lp =
     (let w = doTerminate (el_watcher lp) in
      if w_event w \<and> w_attached w then Inl UseAfterFree else Inr ())"

section \<open>Queue operations\<close>

definition threadSafety :: "nat \<Rightarrow> 'a event_loop \<Rightarrow> bool" where
  "threadSafety tid lp \<longleftrightarrow> el_thread lp = tid"

definition pendingTaskQueueSize :: "'a event_loop \<Rightarrow> int" where
  "pendingTaskQueueSize lp = el_pending lp"

definition getThreadId :: "'a event_loop \<Rightarrow> nat" where
  "getThreadId lp = el_thread lp"

definition getPendingTaskQueueSize :: "'a event_loop \<Rightarrow> int" where
  "getPendingTaskQueueSize lp = int (length (el_tasks lp))"

definition pendingTaskQueueIsEmpty :: "'a event_loop \<Rightarrow> bool" where
  "pendingTaskQueueIsEmpty lp \<longleftrightarrow> el_tasks lp = []"

type_synonym 'a executor = "'a \<Rightarrow> 'a event_loop \<Rightarrow> 'a event_loop"

definition sendToQueue :: "'a executor \<Rightarrow> nat \<Rightarrow> 'a \<Rightarrow> 'a event_loop \<Rightarrow> 'a event_loop" where
  "sendToQueue exec tid task lp =
     (if threadSafety tid lp then exec task lp
      else
        (let lp1 = lp\<lparr>el_tasks := el_tasks lp @ [task]\<rparr>;
             lp2 = lp1\<lparr>el_pending := el_pending lp1 + 1\<rparr>
         in if \<not> el_notified lp2
            then lp2\<lparr>el_notified := True, el_counter := eventfd_eventNotify True (el_counter lp2)\<rparr>
            else lp2))"

text \<open>The overload for an rvalue is written out a second time in the code.\<close>

definition sendToQueue_move :: "'a executor \<Rightarrow> nat \<Rightarrow> 'a \<Rightarrow> 'a event_loop \<Rightarrow> 'a event_loop" where
  "sendToQueue_move exec tid task lp =
     (if threadSafety tid lp then exec task lp
      else
        (let lp1 = lp\<lparr>el_tasks := el_tasks lp @ [task]\<rparr>;
             lp2 = lp1\<lparr>el_pending := el_pending lp1 + 1\<rparr>
         in if \<not> el_notified lp2
            then lp2\<lparr>el_notified := True, el_counter := eventfd_eventNotify True (el_counter lp2)\<rparr>
            else lp2))"

lemma sendToQueue_overloads: "sendToQueue_move = sendToQueue"
  by (intro ext) (simp add: sendToQueue_def sendToQueue_move_def)

fun run_tasks :: "'a executor \<Rightarrow> 'a list \<Rightarrow> 'a event_loop \<Rightarrow> 'a event_loop" where
  "run_tasks exec [] lp = lp"
| "run_tasks exec (t # ts) lp =
     (let lp1 = exec t lp in run_tasks exec ts (lp1\<lparr>el_pending := el_pending lp1 - 1\<rparr>))"

definition doPendingTasks :: "'a executor \<Rightarrow> 'a event_loop \<Rightarrow> 'a event_loop" where
  "doPendingTasks exec lp =
     (let tmp_pending_tasks = el_tasks lp
      in run_tasks exec tmp_pending_tasks (lp\<lparr>el_notified := False, el_tasks := []\<rparr>))"

definition eventfd_ready :: "'a executor \<Rightarrow> 'a event_loop \<Rightarrow> 'a event_loop" where
  "eventfd_ready exec lp =
     (case eventfdNotifyHandle (el_counter lp) of
        (run, n) \<Rightarrow> if run then doPendingTasks exec (lp\<lparr>el_counter := n\<rparr>) else lp\<lparr>el_counter := n\<rparr>)"

text \<open>The loop of \<open>stopHandle\<close> ends when the queue is empty; tasks that keep sending may keep it going.\<close>

partial_function (option) drain :: "'a executor \<Rightarrow> 'a event_loop \<Rightarrow> 'a event_loop option" where
  "drain exec lp =
     (if pendingTaskQueueIsEmpty lp then Some lp else drain exec (doPendingTasks exec lp))"

definition stopHandle :: "'a executor \<Rightarrow> 'a event_loop \<Rightarrow> 'a event_loop option" where
  "stopHandle exec lp =
     (case drain exec lp of
        None \<Rightarrow> None
      | Some lp1 \<Rightarrow>
          (let lp2 = lp1\<lparr>el_exit := True\<rparr>;
               lp3 = (if \<not> pendingTaskQueueIsEmpty lp2 then lp2\<lparr>el_tasks := []\<rparr> else lp2)
           in Some (lp3\<lparr>el_state := STATE_STOPPED\<rparr>)))"

text \<open>\<open>stop_task\<close> is the bound call of \<open>stopHandle\<close>.\<close>

definition loop_stop :: "'a executor \<Rightarrow> nat \<Rightarrow> 'a \<Rightarrow> 'a event_loop \<Rightarrow> 'a event_loop" where
  "loop_stop exec tid stop_task lp = sendToQueue exec tid stop_task (lp\<lparr>el_state := STATE_STOPPING\<rparr>)"

text \<open>\<open>dispatch\<close> up to the call of \<open>event_base_dispatch\<close>.\<close>

definition dispatch_enter :: "bool \<Rightarrow> bool \<Rightarrow> nat \<Rightarrow> 'a event_loop \<Rightarrow> 'a event_loop result" where
  "dispatch_enter del_ok add_ok tid lp =
     bnd (asyncWait del_ok add_ok (el_watcher lp)) (\<lambda>(ok, w).
       assert_that ok (Inr (lp\<lparr>el_watcher := w, el_state := STATE_RUNNING, el_thread := tid\<rparr>)))"

text \<open>\<open>start_task\<close> is the closure that \<open>CycleTimer::start\<close> sends, see \<open>timer_start_task\<close>.\<close>

definition addCycleTask ::
  "'a executor \<Rightarrow> nat \<Rightarrow> 'a \<Rightarrow> int \<Rightarrow> bool \<Rightarrow> 'a event_loop \<Rightarrow> cycle_timer \<times> 'a event_loop" where
  "addCycleTask exec tid start_task delay_ms persist lp =
     (newCycleTimer delay_ms persist, sendToQueue exec tid start_task lp)"

section \<open>Tasks that do not send\<close>

definition quiet :: "'a executor \<Rightarrow> bool" where
  "quiet exec \<longleftrightarrow> (\<forall>t lp. el_tasks (exec t lp) = el_tasks lp \<and> el_pending (exec t lp) = el_pending lp
     \<and> el_counter (exec t lp) = el_counter lp \<and> el_notified (exec t lp) = el_notified lp)"

lemma run_tasks_quiet:
  "quiet exec \<Longrightarrow> el_tasks (run_tasks exec ts lp) = el_tasks lp \<and>
     el_pending (run_tasks exec ts lp) = el_pending lp - int (length ts)"
proof (induction ts arbitrary: lp)
  case (Cons t ts)
  let ?lp = "exec t lp\<lparr>el_pending := el_pending (exec t lp) - 1\<rparr>"
  have "el_tasks ?lp = el_tasks lp" "el_pending ?lp = el_pending lp - 1"
    using Cons.prems by (simp_all add: quiet_def)
  then show ?case using Cons.IH [OF Cons.prems, of ?lp] by (simp add: Let_def)
qed simp

lemma drain_empty: "el_tasks lp = [] \<Longrightarrow> drain exec lp = Some lp"
  by (subst drain.simps) (simp add: pendingTaskQueueIsEmpty_def)

lemma drain_quiet:
  assumes "quiet exec"
  shows "drain exec lp = Some (if el_tasks lp = [] then lp else doPendingTasks exec lp)"
proof (cases "el_tasks lp = []")
  case True
  then show ?thesis by (simp add: drain_empty)
next
  case False
  have "el_tasks (doPendingTasks exec lp) = []"
    using run_tasks_quiet [OF assms] by (simp add: doPendingTasks_def Let_def)
  then have "drain exec (doPendingTasks exec lp) = Some (doPendingTasks exec lp)" by (rule drain_empty)
  then show ?thesis using False by (subst drain.simps) (simp add: pendingTaskQueueIsEmpty_def)
qed

section \<open>Properties\<close>

text \<open>
  C30. With tasks that send nothing, \<open>stopHandle\<close> returns: every queued task has run, in order, with
  the counter of pending tasks reduced by their number, the queue is empty, the loop was told to
  exit and its state is stopped.
\<close>

theorem stop_drains_queue:
  assumes "quiet exec"
  shows "\<exists>lp'. stopHandle exec lp = Some lp' \<and> el_tasks lp' = [] \<and> el_exit lp' \<and> el_state lp' = STATE_STOPPED \<and>
    el_pending lp' = el_pending lp - int (length (el_tasks lp)) \<and>
    (el_tasks lp \<noteq> [] \<longrightarrow>
      lp' = (run_tasks exec (el_tasks lp) (lp\<lparr>el_notified := False, el_tasks := []\<rparr>))\<lparr>el_exit := True, el_state := STATE_STOPPED\<rparr>)"
proof (cases "el_tasks lp = []")
  case True
  then show ?thesis using drain_empty [OF True, of exec] by (simp add: stopHandle_def pendingTaskQueueIsEmpty_def)
next
  case False
  let ?lp = "doPendingTasks exec lp"
  have "el_tasks ?lp = []" "el_pending ?lp = el_pending lp - int (length (el_tasks lp))"
    using run_tasks_quiet [OF assms, of "el_tasks lp" "lp\<lparr>el_notified := False, el_tasks := []\<rparr>"]
    by (simp_all add: doPendingTasks_def Let_def)
  then show ?thesis
    using drain_quiet [OF assms, of lp] False
    by (simp add: stopHandle_def pendingTaskQueueIsEmpty_def doPendingTasks_def Let_def)
qed

text \<open>A loop with two tasks; a task writes its digit into \<open>el_thread\<close>.\<close>

definition digit_task :: "nat executor" where
  "digit_task t lp = lp\<lparr>el_thread := 10 * el_thread lp + t\<rparr>"

definition sample_loop :: "nat event_loop" where
  "sample_loop = \<lparr>el_state = STATE_RUNNING, el_thread = 0, el_tasks = [1, 2], el_pending = 2, el_notified = True,
     el_counter = 3399, el_exit = False, el_watcher = EventfdWatcher 0\<rparr>"

theorem stop_drains_queue_witness:
  "\<exists>lp'. stopHandle digit_task sample_loop = Some lp' \<and> el_state lp' = STATE_STOPPED \<and> el_pending lp' = 0 \<and> el_thread lp' = 12"
proof -
  have "quiet digit_task" by (simp add: quiet_def digit_task_def)
  from stop_drains_queue [OF this, of sample_loop] show ?thesis
    by (auto simp: sample_loop_def digit_task_def Let_def)
qed

text \<open>
  An event loop that has entered \<open>dispatch\<close> is destroyed with an access to the freed event base;
  one that never ran is not.
\<close>

lemma destroy_after_dispatch:
  assumes "EventLoop efd tid = Inr lp" and "dispatch_enter del_ok True tid' lp = Inr lp'"
  shows "EventLoop_destroy lp = Inr () \<and> EventLoop_destroy lp' = Inl UseAfterFree"
  using assms
  by (auto simp: EventLoop_def loop_doInit_def doInitEventWatcher_def dispatch_enter_def EventLoop_destroy_def
      EventfdWatcher_def EventWatcher_def evutil_make_internal_eventfd_def watcher_defs bnd_simps
      split: if_splits)

lemma destroy_after_dispatch_witness:
  "\<exists>lp lp'. (EventLoop 7 1 :: nat event_loop result) = Inr lp \<and> dispatch_enter True True 2 lp = Inr lp' \<and>
     EventLoop_destroy lp' = Inl UseAfterFree"
proof -
  have "\<exists>lp lp'. (EventLoop 7 1 :: nat event_loop result) = Inr lp \<and> dispatch_enter True True 2 lp = Inr lp'"
    by (simp add: EventLoop_def loop_doInit_def doInitEventWatcher_def dispatch_enter_def
        EventfdWatcher_def EventWatcher_def evutil_make_internal_eventfd_def watcher_defs)
  then show ?thesis using destroy_after_dispatch by blast
qed

end
