(* ===== verification/Event_Loop_Wakeup.thy ===== *)
theory Event_Loop_Wakeup
  imports Event_Loop
begin

text \<open>
  The task queue under concurrency: any number of threads in \<open>sendToQueue\<close> (none of them the loop's)
  and the loop's thread between \<open>epoll\<close> and \<open>doPendingTasks\<close>. Every access to shared memory is a step
  of its own: the push under the mutex, the increment of the counter, the load and the store of
  \<open>notified_\<close>, the write to the eventfd; on the loop's side the read of the eventfd, the section
  under the mutex, and each task with the decrement that follows it.
\<close>

datatype sender = Idle | Inc | Check | Store | Write

datatype 'a looper = Waiting | Swap | Run "'a list"

text \<open>\<open>sent\<close> and \<open>ran\<close> are the history of pushes and of executed tasks.\<close>

record 'a shared =
  tasks :: "'a list"
  pending_size :: int
  notified :: bool
  counter :: nat
  senders :: "nat \<Rightarrow> sender"
  looper :: "'a looper"
  sent :: "'a list"
  ran :: "'a list"

definition shared_init :: "'a shared" where
  "shared_init = \<lparr>tasks = [], pending_size = 0, notified = False, counter = 0, senders = (\<lambda>_. Idle),
     looper = Waiting, sent = [], ran = []\<rparr>"

inductive loop_step :: "'a shared \<Rightarrow> 'a shared \<Rightarrow> bool" where
  push: "senders s i = Idle \<Longrightarrow>
    loop_step s (s\<lparr>tasks := tasks s @ [t], sent := sent s @ [t], senders := (senders s)(i := Inc)\<rparr>)"
| inc: "senders s i = Inc \<Longrightarrow>
    loop_step s (s\<lparr>pending_size := pending_size s + 1, senders := (senders s)(i := Check)\<rparr>)"
| check: "senders s i = Check \<Longrightarrow>
    loop_step s (s\<lparr>senders := (senders s)(i := if notified s then Idle else Store)\<rparr>)"
| store: "senders s i = Store \<Longrightarrow>
    loop_step s (s\<lparr>notified := True, senders := (senders s)(i := Write)\<rparr>)"
| notify: "senders s i = Write \<Longrightarrow>
    loop_step s (s\<lparr>counter := eventfd_eventNotify True (counter s), senders := (senders s)(i := Idle)\<rparr>)"
| wake: "looper s = Waiting \<Longrightarrow> eventfdNotifyHandle (counter s) = (True, n) \<Longrightarrow>
    loop_step s (s\<lparr>counter := n, looper := Swap\<rparr>)"
| swap: "looper s = Swap \<Longrightarrow>
    loop_step s (s\<lparr>notified := False, tasks := [], looper := Run (tasks s)\<rparr>)"
| run: "looper s = Run (t # ts) \<Longrightarrow>
    loop_step s (s\<lparr>ran := ran s @ [t], pending_size := pending_size s - 1, looper := Run ts\<rparr>)"
| rest: "looper s = Run [] \<Longrightarrow> loop_step s (s\<lparr>looper := Waiting\<rparr>)"

section \<open>Invariants\<close>

definition batch :: "'a shared \<Rightarrow> 'a list" where
  "batch s = (case looper s of Run ts \<Rightarrow> ts | _ \<Rightarrow> [])"

definition at :: "sender \<Rightarrow> 'a shared \<Rightarrow> nat set" where
  "at p s = {i. senders s i = p}"

text \<open>A wake-up is on its way: the eventfd is readable, or the loop is about to take the queue.\<close>

definition waking :: "'a shared \<Rightarrow> bool" where
  "waking s \<longleftrightarrow> 0 < counter s \<or> looper s = Swap"

definition wakeup_inv :: "'a shared \<Rightarrow> bool" where
  "wakeup_inv s \<longleftrightarrow>
     (notified s \<longrightarrow> waking s \<or> (\<exists>i. senders s i = Write)) \<and>
     (tasks s \<noteq> [] \<longrightarrow> waking s \<or> (\<exists>i. senders s i \<noteq> Idle))"

definition order_inv :: "'a shared \<Rightarrow> bool" where
  "order_inv s \<longleftrightarrow> sent s = ran s @ batch s @ tasks s"

definition busy :: "'a shared \<Rightarrow> nat set" where
  "busy s = {i. senders s i \<noteq> Idle}"

definition count_inv :: "'a shared \<Rightarrow> bool" where
  "count_inv s \<longleftrightarrow> finite (busy s) \<and>
     pending_size s = int (length (batch s) + length (tasks s)) - int (card (at Inc s))"

lemmas loop_defs = waking_def batch_def at_def eventfd_eventNotify_def eventfd_value_def eventfdNotifyHandle_def

text \<open>A sender that is not the one that moves stays where it is.\<close>

lemma others_stay:
  "\<exists>j. senders s j = p \<Longrightarrow> senders s i \<noteq> p \<Longrightarrow> \<exists>j. ((senders s)(i := q)) j = p"
  "\<exists>j. ((senders s)(i := q)) j = q"
  "q \<noteq> Idle \<Longrightarrow> \<exists>j. ((senders s)(i := q)) j \<noteq> Idle"
  by (metis fun_upd_other, (metis fun_upd_same)+)

lemma wakeup_step: "loop_step s t \<Longrightarrow> wakeup_inv s \<Longrightarrow> wakeup_inv t"
proof (induction rule: loop_step.induct)
  case (push s i t)
  then have "senders s i \<noteq> Write" by simp
  then have "notified s \<longrightarrow> waking s \<or> (\<exists>j. ((senders s)(i := Inc)) j = Write)"
    using others_stay(1) [of s Write i Inc] push(2) unfolding wakeup_inv_def by blast
  then show ?case using others_stay(3) [of Inc s i] by (simp add: wakeup_inv_def waking_def)
next
  case (inc s i)
  then have "senders s i \<noteq> Write" by simp
  then have "notified s \<longrightarrow> waking s \<or> (\<exists>j. ((senders s)(i := Check)) j = Write)"
    using others_stay(1) [of s Write i Check] inc(2) unfolding wakeup_inv_def by blast
  then show ?case using others_stay(3) [of Check s i] by (simp add: wakeup_inv_def waking_def)
next
  case (check s i)
  show ?case
  proof (cases "notified s")
    case True
    have "senders s i \<noteq> Write" using check(1) by simp
    then have w: "waking s \<or> (\<exists>j. ((senders s)(i := Idle)) j = Write)"
      using others_stay(1) [of s Write i Idle] check(2) True unfolding wakeup_inv_def by blast
    have "waking s \<or> (\<exists>j. ((senders s)(i := Idle)) j \<noteq> Idle)" using w by (metis sender.distinct(7))
    with w True show ?thesis by (simp add: wakeup_inv_def waking_def)
  next
    case False
    then show ?thesis using others_stay(3) [of Store s i] by (simp add: wakeup_inv_def waking_def)
  qed
next
  case (store s i)
  then show ?case using others_stay(2) [of s i Write] others_stay(3) [of Write s i] by (simp add: wakeup_inv_def waking_def)
qed (auto simp: wakeup_inv_def loop_defs split: if_splits)

lemma order_step: "loop_step s t \<Longrightarrow> order_inv s \<Longrightarrow> order_inv t"
  by (induction rule: loop_step.induct) (auto simp: order_inv_def batch_def split: looper.splits)

text \<open>The sets of senders when one of them moves.\<close>

lemma busy_move: "finite (busy s) \<Longrightarrow> senders t = (senders s)(i := q) \<Longrightarrow> finite (busy t)"
  by (rule finite_subset [of _ "insert i (busy s)"]) (auto simp: busy_def)

lemma at_Inc_finite: "finite (busy s) \<Longrightarrow> finite (at Inc s)"
  by (rule finite_subset [of _ "busy s"]) (auto simp: at_def busy_def)

lemma at_Inc_enter:
  assumes "finite (busy s)" and "senders s i = Idle" and "senders t = (senders s)(i := Inc)"
  shows "card (at Inc t) = Suc (card (at Inc s))"
proof -
  have "at Inc t = insert i (at Inc s)" "i \<notin> at Inc s" using assms(2,3) by (auto simp: at_def)
  then show ?thesis using at_Inc_finite [OF assms(1)] by simp
qed

lemma at_Inc_leave:
  assumes "finite (busy s)" and "senders s i = Inc" and "senders t = (senders s)(i := Check)"
  shows "card (at Inc s) = Suc (card (at Inc t))"
proof -
  have "at Inc t = at Inc s - {i}" "i \<in> at Inc s" using assms(2,3) by (auto simp: at_def)
  then show ?thesis using at_Inc_finite [OF assms(1)] by (metis card_Suc_Diff1)
qed

lemma at_Inc_same:
  assumes "senders s i \<noteq> Inc" and "q \<noteq> Inc" and "senders t = (senders s)(i := q)"
  shows "at Inc t = at Inc s"
  using assms by (auto simp: at_def)

lemma count_step: "loop_step s t \<Longrightarrow> count_inv s \<Longrightarrow> count_inv t"
proof (induction rule: loop_step.induct)
  case (push s i t)
  let ?t = "s\<lparr>tasks := tasks s @ [t], sent := sent s @ [t], senders := (senders s)(i := Inc)\<rparr>"
  have "finite (busy s)" using push by (simp add: count_inv_def)
  then show ?case using push at_Inc_enter [of s i ?t] busy_move [of s ?t i Inc]
    by (simp add: count_inv_def batch_def)
next
  case (inc s i)
  let ?t = "s\<lparr>pending_size := pending_size s + 1, senders := (senders s)(i := Check)\<rparr>"
  have "finite (busy s)" using inc by (simp add: count_inv_def)
  then show ?case using inc at_Inc_leave [of s i ?t] busy_move [of s ?t i Check]
    by (simp add: count_inv_def batch_def)
next
  case (check s i)
  let ?q = "if notified s then Idle else Store"
  let ?t = "s\<lparr>senders := (senders s)(i := ?q)\<rparr>"
  show ?case using check at_Inc_same [of s i ?q ?t] busy_move [of s ?t i ?q]
    by (simp add: count_inv_def batch_def)
next
  case (store s i)
  let ?t = "s\<lparr>notified := True, senders := (senders s)(i := Write)\<rparr>"
  show ?case using store at_Inc_same [of s i Write ?t] busy_move [of s ?t i Write]
    by (simp add: count_inv_def batch_def)
next
  case (notify s i)
  let ?t = "s\<lparr>counter := eventfd_eventNotify True (counter s), senders := (senders s)(i := Idle)\<rparr>"
  show ?case using notify at_Inc_same [of s i Idle ?t] busy_move [of s ?t i Idle]
    by (simp add: count_inv_def batch_def)
qed (auto simp: count_inv_def batch_def at_def busy_def)

definition loop_inv :: "'a shared \<Rightarrow> bool" where
  "loop_inv s \<longleftrightarrow> wakeup_inv s \<and> order_inv s \<and> count_inv s"

interpretation task_queue: step_invariant loop_step loop_inv
  by unfold_locales (auto simp: loop_inv_def intro: wakeup_step order_step count_step)

lemma loop_inv_init: "loop_inv shared_init"
  by (simp add: loop_inv_def wakeup_inv_def order_inv_def count_inv_def shared_init_def batch_def at_def busy_def)

section \<open>Properties\<close>

text \<open>
  C6. No wake-up is lost and no task is lost, duplicated or reordered, whatever the interleaving:
  the tasks sent are the tasks run, the rest of the batch in execution and the queue, in this
  order; and when no sender is inside \<open>sendToQueue\<close> and the loop waits with a task in the queue, the
  eventfd is readable, so the loop can go on.
\<close>

theorem no_lost_wakeup:
  assumes "loop_step\<^sup>*\<^sup>* shared_init s"
  shows "sent s = ran s @ batch s @ tasks s \<and>
    (tasks s \<noteq> [] \<and> busy s = {} \<and> looper s = Waiting \<longrightarrow> (\<exists>t. loop_step s t \<and> looper t = Swap))"
proof -
  have inv: "loop_inv s" by (rule task_queue.steps_keep [OF assms loop_inv_init])
  have "\<exists>t. loop_step s t \<and> looper t = Swap" if "tasks s \<noteq> []" "busy s = {}" "looper s = Waiting"
  proof -
    have "0 < counter s" using inv that by (auto simp: loop_inv_def wakeup_inv_def waking_def busy_def)
    then have "eventfdNotifyHandle (counter s) = (True, 0)" by (simp add: eventfdNotifyHandle_def)
    from loop_step.wake [OF that(3) this] show ?thesis by fastforce
  qed
  then show ?thesis using inv by (auto simp: loop_inv_def order_inv_def)
qed

text \<open>One sender up to the push, and the loop asleep.\<close>

definition one_sent :: "nat shared" where
  "one_sent = shared_init\<lparr>tasks := [5], pending_size := 1, notified := True, counter := 3399, sent := [5]\<rparr>"

lemma one_sent_reachable: "loop_step\<^sup>*\<^sup>* shared_init one_sent"
proof -
  define s1 :: "nat shared" where "s1 = shared_init\<lparr>tasks := [5], sent := [5], senders := (senders shared_init)(0 := Inc)\<rparr>"
  define s2 where "s2 = s1\<lparr>pending_size := 1, senders := (senders s1)(0 := Check)\<rparr>"
  define s3 where "s3 = s2\<lparr>senders := (senders s2)(0 := Store)\<rparr>"
  define s4 where "s4 = s3\<lparr>notified := True, senders := (senders s3)(0 := Write)\<rparr>"
  define s5 where "s5 = s4\<lparr>counter := 3399, senders := (senders s4)(0 := Idle)\<rparr>"
  have "loop_step shared_init s1" using loop_step.push [of shared_init 0 5] by (simp add: s1_def shared_init_def)
  moreover have "loop_step s1 s2" using loop_step.inc [of s1 0] by (simp add: s2_def s1_def shared_init_def)
  moreover have "loop_step s2 s3" using loop_step.check [of s2 0] by (simp add: s3_def s2_def s1_def shared_init_def)
  moreover have "loop_step s3 s4" using loop_step.store [of s3 0] by (simp add: s4_def s3_def s2_def s1_def shared_init_def)
  moreover have "loop_step s4 s5" using loop_step.notify [of s4 0]
    by (simp add: s5_def s4_def s3_def s2_def s1_def shared_init_def eventfd_eventNotify_def eventfd_value_def)
  moreover have "s5 = one_sent"
    by (simp add: s5_def s4_def s3_def s2_def s1_def shared_init_def one_sent_def fun_upd_idem)
  ultimately show ?thesis by (metis converse_rtranclp_into_rtranclp rtranclp.rtrancl_refl)
qed

theorem no_lost_wakeup_witness: "\<exists>t. loop_step one_sent t \<and> looper t = Swap"
  using no_lost_wakeup [OF one_sent_reachable] by (simp add: one_sent_def shared_init_def busy_def)

text \<open>
  \<open>pending_tasks_size_\<close> is the number of tasks in the queue and in the running batch, less the
  senders that have pushed and not yet counted; with no sender inside it is exact.
\<close>

lemma pending_size_exact:
  assumes "loop_step\<^sup>*\<^sup>* shared_init s"
  shows "pending_size s = int (length (batch s) + length (tasks s)) - int (card (at Inc s))"
  using task_queue.steps_keep [OF assms loop_inv_init] by (simp add: loop_inv_def count_inv_def)

lemma pending_size_exact_witness: "pending_size one_sent = 1"
  using pending_size_exact [OF one_sent_reachable] by (simp add: one_sent_def shared_init_def batch_def at_def)

end
