(* ===== verification/Channel.thy ===== *)
theory Channel
  imports Net_Base
begin

text \<open>
  \<open>net/atp_channel.cpp\<close>: a file descriptor with the events its owner wants, kept in step with
  libevent. \<open>ch_event\<close> says whether \<open>event_\<close> is non-null; \<open>in_base\<close> is what libevent has registered
  for it. Whether \<open>event_add\<close> and \<open>event_del\<close> succeed, and whether the caller is on the loop's
  thread, are arguments.
\<close>

unbundle bit_operations_syntax

record channel =
  ch_event :: bool
  ch_fd :: int
  events :: flags
  attached :: bool
  read_cb :: bool
  write_cb :: bool
  in_base :: "flags option"

record event_env =
  add_ok :: bool
  del_ok :: bool
  on_loop :: bool

definition Channel :: "int \<Rightarrow> bool \<Rightarrow> bool \<Rightarrow> channel result" where
  "Channel fd readable writable =
     assert_that (0 < fd)
       (Inr \<lparr>ch_event = True, ch_fd = fd,
             events = (if readable then ATP_READ_EVENT else 0) OR (if writable then ATP_WRITE_EVENT else 0),
             attached = False, read_cb = False, write_cb = False, in_base = None\<rparr>)"

definition Channel_destroy :: "channel \<Rightarrow> unit result" where
  "Channel_destroy ch = assert_that (\<not> ch_event ch) (Inr ())"

definition isNone :: "channel \<Rightarrow> bool" where
  "isNone ch \<longleftrightarrow> events ch = ATP_NONE_EVENT"

definition isReadable :: "channel \<Rightarrow> bool" where
  "isReadable ch \<longleftrightarrow> (events ch AND ATP_READ_EVENT) \<noteq> 0"

definition isWritable :: "channel \<Rightarrow> bool" where
  "isWritable ch \<longleftrightarrow> (events ch AND ATP_WRITE_EVENT) \<noteq> 0"

definition isAttached :: "channel \<Rightarrow> bool" where
  "isAttached ch \<longleftrightarrow> attached ch"

definition setReadCallback :: "channel \<Rightarrow> channel" where
  "setReadCallback ch = ch\<lparr>read_cb := True\<rparr>"

definition setWriteCallback :: "channel \<Rightarrow> channel" where
  "setWriteCallback ch = ch\<lparr>write_cb := True\<rparr>"

definition getInternalFd :: "channel \<Rightarrow> int" where
  "getInternalFd ch = ch_fd ch"

definition detachFromEventLoop :: "event_env \<Rightarrow> channel \<Rightarrow> channel" where
  "detachFromEventLoop env ch =
     (if attached ch \<and> del_ok env then ch\<lparr>attached := False, in_base := None\<rparr> else ch)"

text \<open>\<open>event_assign\<close> stores into the event; on a pending event its effect is undefined.\<close>

definition attachToEventLoop :: "event_env \<Rightarrow> channel \<Rightarrow> channel result" where
  "attachToEventLoop env ch =
     (if isNone ch then Inr ch
      else
        (let ch1 = (if attached ch then detachFromEventLoop env ch else ch) in
         if \<not> ch_event ch1 then Inl NullDeref
         else if in_base ch1 \<noteq> None then Inl Misuse
         else if add_ok env then Inr (ch1\<lparr>attached := True, in_base := Some (events ch1 OR EV_PERSIST)\<rparr>)
         else Inr ch1))"

definition updateEvents :: "event_env \<Rightarrow> channel \<Rightarrow> channel result" where
  "updateEvents env ch =
     assert_that (on_loop env)
       (if isNone ch then Inr (detachFromEventLoop env ch) else attachToEventLoop env ch)"

definition channel_close :: "event_env \<Rightarrow> channel \<Rightarrow> channel" where
  "channel_close env ch =
     (let ch1 = (if ch_event ch then (detachFromEventLoop env ch)\<lparr>ch_event := False\<rparr> else ch)
      in ch1\<lparr>read_cb := False, write_cb := False\<rparr>)"

definition enableEvents :: "event_env \<Rightarrow> bool \<Rightarrow> bool \<Rightarrow> channel \<Rightarrow> channel result" where
  "enableEvents env readable writable ch =
     (let orig_events = events ch;
          ev = (if readable then orig_events OR ATP_READ_EVENT else orig_events);
          ev = (if writable then ev OR ATP_WRITE_EVENT else ev);
          ch1 = ch\<lparr>events := ev\<rparr>
      in if ev \<noteq> orig_events then updateEvents env ch1 else Inr ch1)"

definition disableEvents :: "event_env \<Rightarrow> bool \<Rightarrow> bool \<Rightarrow> channel \<Rightarrow> channel result" where
  "disableEvents env readable writable ch =
     (let orig_events = events ch;
          ev = (if readable then orig_events AND NOT ATP_READ_EVENT else orig_events);
          ev = (if writable then ev AND NOT ATP_WRITE_EVENT else ev);
          ch1 = ch\<lparr>events := ev\<rparr>
      in if ev \<noteq> orig_events then updateEvents env ch1 else Inr ch1)"

definition disableAllEvents :: "event_env \<Rightarrow> channel \<Rightarrow> channel result" where
  "disableAllEvents env ch =
     (if events ch \<noteq> ATP_NONE_EVENT then updateEvents env (ch\<lparr>events := ATP_NONE_EVENT\<rparr>) else Inr ch)"

definition eventsToString :: "channel \<Rightarrow> string" where
  "eventsToString ch =
     (if (events ch AND ATP_READ_EVENT) \<noteq> 0 then ''ATP_READ_EVENT'' else [])
     @ (if (events ch AND ATP_WRITE_EVENT) \<noteq> 0 then ''|ATP_WRITE_EVENT'' else [])"

text \<open>
  The callbacks are arguments that act on the owner's state \<open>'s\<close>, of which the channel is a part
  (\<open>chan\<close>): the write callback is looked up after the read callback has run.
\<close>

definition eventHandle ::
  "('s \<Rightarrow> channel) \<Rightarrow> ('s \<Rightarrow> 's result) \<Rightarrow> ('s \<Rightarrow> 's result) \<Rightarrow> int \<Rightarrow> flags \<Rightarrow> 's \<Rightarrow> 's result" where
  "eventHandle chan on_read on_write fd which st =
     assert_that (fd = ch_fd (chan st))
       (bnd (if (which AND ATP_READ_EVENT) \<noteq> 0 \<and> read_cb (chan st) then on_read st else Inr st) (\<lambda>st1.
          if (which AND ATP_WRITE_EVENT) \<noteq> 0 \<and> write_cb (chan st1) then on_write st1 else Inr st1))"

section \<open>The wanted events as two booleans\<close>

text \<open>Only the two flags of the library occur in \<open>events\<close>.\<close>

definition event_bits :: "bool \<Rightarrow> bool \<Rightarrow> flags" where
  "event_bits r w = (if r then ATP_READ_EVENT else 0) OR (if w then ATP_WRITE_EVENT else 0)"

lemma event_bits_simps:
  "event_bits r w = 0 \<longleftrightarrow> \<not> r \<and> \<not> w"
  "event_bits r w = event_bits r' w' \<longleftrightarrow> r = r' \<and> w = w'"
  "event_bits r w AND ATP_READ_EVENT = 0 \<longleftrightarrow> \<not> r"
  "event_bits r w AND ATP_WRITE_EVENT = 0 \<longleftrightarrow> \<not> w"
  "event_bits r w OR ATP_READ_EVENT = event_bits True w"
  "event_bits r w OR ATP_WRITE_EVENT = event_bits r True"
  "event_bits r w AND NOT ATP_READ_EVENT = event_bits False w"
  "event_bits r w AND NOT ATP_WRITE_EVENT = event_bits r False"
  by (cases r; cases w; cases r'; cases w'; simp add: event_bits_def ATP_READ_EVENT_def ATP_WRITE_EVENT_def)+

text \<open>An open channel whose registration is exactly what its owner wants.\<close>

definition chan_sync :: "bool \<Rightarrow> bool \<Rightarrow> channel \<Rightarrow> bool" where
  "chan_sync r w ch \<longleftrightarrow> ch_event ch \<and> events ch = event_bits r w \<and>
     attached ch = (r \<or> w) \<and> in_base ch = (if r \<or> w then Some (event_bits r w OR EV_PERSIST) else None)"

definition good_env :: "event_env \<Rightarrow> bool" where
  "good_env env \<longleftrightarrow> add_ok env \<and> del_ok env \<and> on_loop env"

lemmas channel_defs = isNone_def detachFromEventLoop_def attachToEventLoop_def updateEvents_def
  enableEvents_def disableEvents_def disableAllEvents_def chan_sync_def good_env_def ATP_NONE_EVENT_def

lemma enable_sync:
  assumes "chan_sync r w ch" and "good_env env"
  shows "\<exists>ch'. enableEvents env rd wr ch = Inr ch' \<and> chan_sync (r \<or> rd) (w \<or> wr) ch' \<and>
    read_cb ch' = read_cb ch \<and> write_cb ch' = write_cb ch \<and> ch_fd ch' = ch_fd ch"
  using assms by (cases r; cases w; cases rd; cases wr; simp add: channel_defs Let_def event_bits_simps)

lemma disable_sync:
  assumes "chan_sync r w ch" and "good_env env"
  shows "\<exists>ch'. disableEvents env rd wr ch = Inr ch' \<and> chan_sync (r \<and> \<not> rd) (w \<and> \<not> wr) ch' \<and>
    read_cb ch' = read_cb ch \<and> write_cb ch' = write_cb ch \<and> ch_fd ch' = ch_fd ch"
  using assms by (cases r; cases w; cases rd; cases wr; simp add: channel_defs Let_def event_bits_simps)

lemma disable_all_sync:
  assumes "chan_sync r w ch" and "good_env env"
  shows "\<exists>ch'. disableAllEvents env ch = Inr ch' \<and> chan_sync False False ch' \<and>
    read_cb ch' = read_cb ch \<and> write_cb ch' = write_cb ch \<and> ch_fd ch' = ch_fd ch"
  using assms by (cases r; cases w; simp add: channel_defs Let_def event_bits_simps; simp add: event_bits_def)

lemma attach_sync:
  assumes "chan_sync r w ch" and "good_env env"
  shows "\<exists>ch'. attachToEventLoop env ch = Inr ch' \<and> chan_sync r w ch'"
  using assms by (cases r; cases w; simp add: channel_defs Let_def event_bits_simps)

text \<open>A closed channel: no event, nothing registered. Its wanted events stay.\<close>

definition chan_shut :: "bool \<Rightarrow> bool \<Rightarrow> channel \<Rightarrow> bool" where
  "chan_shut r w ch \<longleftrightarrow> \<not> ch_event ch \<and> events ch = event_bits r w \<and> \<not> attached ch \<and> in_base ch = None"

lemma close_shut:
  assumes "good_env env"
  shows "chan_sync r w ch \<Longrightarrow> chan_shut r w (channel_close env ch)" and "chan_shut r w ch \<Longrightarrow> chan_shut r w (channel_close env ch)"
  using assms by (auto simp: channel_close_def chan_sync_def chan_shut_def detachFromEventLoop_def good_env_def Let_def)

section \<open>Sequences of operations\<close>

datatype channel_op = Enable bool bool | Disable bool bool | DisableAll | Attach | Close

fun channel_exec :: "event_env \<Rightarrow> channel_op \<Rightarrow> channel \<Rightarrow> channel result" where
  "channel_exec env (Enable r w) ch = enableEvents env r w ch"
| "channel_exec env (Disable r w) ch = disableEvents env r w ch"
| "channel_exec env DisableAll ch = disableAllEvents env ch"
| "channel_exec env Attach ch = attachToEventLoop env ch"
| "channel_exec env Close ch = Inr (channel_close env ch)"

fun channel_run :: "event_env \<Rightarrow> channel_op list \<Rightarrow> channel \<Rightarrow> channel result" where
  "channel_run env [] ch = Inr ch"
| "channel_run env (a # as) ch = bnd (channel_exec env a ch) (channel_run env as)"

text \<open>
  The specification: the wanted directions and whether the channel is open. On a closed channel an
  operation is legal as long as it does not try to register anything.
\<close>

fun wanted :: "channel_op \<Rightarrow> bool \<times> bool \<Rightarrow> bool \<times> bool" where
  "wanted (Enable r w) (a, b) = (a \<or> r, b \<or> w)"
| "wanted (Disable r w) (a, b) = (a \<and> \<not> r, b \<and> \<not> w)"
| "wanted DisableAll _ = (False, False)"
| "wanted Attach ab = ab"
| "wanted Close ab = ab"

definition registers :: "channel_op \<Rightarrow> bool \<times> bool \<Rightarrow> bool" where
  "registers a ab \<longleftrightarrow> a \<noteq> Close \<and> wanted a ab \<noteq> (False, False) \<and> (a = Attach \<or> wanted a ab \<noteq> ab)"

fun channel_spec :: "channel_op list \<Rightarrow> bool \<times> bool \<times> bool \<Rightarrow> (bool \<times> bool \<times> bool) option" where
  "channel_spec [] st = Some st"
| "channel_spec (a # as) (opened, ab) =
     (if \<not> opened \<and> registers a ab then None else channel_spec as (opened \<and> a \<noteq> Close, wanted a ab))"

definition chan_refines :: "bool \<times> bool \<times> bool \<Rightarrow> channel \<Rightarrow> bool" where
  "chan_refines st ch \<longleftrightarrow> (case st of (opened, r, w) \<Rightarrow> if opened then chan_sync r w ch else chan_shut r w ch)"

lemma exec_open:
  assumes "chan_sync (fst ab) (snd ab) ch" and "good_env env"
  shows "\<exists>ch'. channel_exec env a ch = Inr ch' \<and> chan_refines (a \<noteq> Close, wanted a ab) ch'"
  using enable_sync [OF assms] disable_sync [OF assms] disable_all_sync [OF assms] attach_sync [OF assms] close_shut(1) [OF assms(2,1)]
  by (cases ab; cases a; fastforce simp: chan_refines_def)

lemma exec_shut:
  assumes "chan_shut r w ch" and "good_env env"
  shows "if registers a (r, w) then channel_exec env a ch = Inl NullDeref
    else \<exists>ch'. channel_exec env a ch = Inr ch' \<and> chan_refines (False, wanted a (r, w)) ch'"
proof (cases a)
  case (Enable rd wr)
  then show ?thesis using assms
    by (cases r; cases w; cases rd; cases wr; simp add: chan_refines_def registers_def chan_shut_def channel_defs Let_def event_bits_simps)
next
  case (Disable rd wr)
  then show ?thesis using assms
    by (cases r; cases w; cases rd; cases wr; simp add: chan_refines_def registers_def chan_shut_def channel_defs Let_def event_bits_simps)
next
  case DisableAll
  then show ?thesis using assms
    by (cases r; cases w; simp add: chan_refines_def registers_def chan_shut_def channel_defs Let_def event_bits_simps; simp add: event_bits_def)
next
  case Attach
  then show ?thesis using assms
    by (cases r; cases w; simp add: chan_refines_def registers_def chan_shut_def channel_defs Let_def event_bits_simps)
next
  case Close
  then show ?thesis using close_shut(2) [OF assms(2,1)] by (simp add: chan_refines_def registers_def)
qed

lemma run_refines:
  "chan_refines st ch \<Longrightarrow> good_env env \<Longrightarrow>
   case channel_spec as st of
     None \<Rightarrow> channel_run env as ch = Inl NullDeref
   | Some st' \<Rightarrow> \<exists>ch'. channel_run env as ch = Inr ch' \<and> chan_refines st' ch'"
proof (induction as st arbitrary: ch rule: channel_spec.induct)
  case (2 a as opened ab)
  obtain r w where ab: "ab = (r, w)" by (cases ab)
  show ?case
  proof (cases opened)
    case True
    then obtain ch1 where "channel_exec env a ch = Inr ch1" "chan_refines (a \<noteq> Close, wanted a ab) ch1"
      using exec_open [of ab ch env a] "2.prems" by (auto simp: chan_refines_def ab)
    then show ?thesis using "2.IH" [of ch1] "2.prems"(2) True by (auto split: option.splits)
  next
    case False
    then have "chan_shut r w ch" using "2.prems"(1) by (simp add: chan_refines_def ab)
    note e = exec_shut [OF this "2.prems"(2), of a]
    show ?thesis
    proof (cases "registers a ab")
      case True
      then show ?thesis using e False by (simp add: ab)
    next
      case no: False
      then obtain ch1 where "channel_exec env a ch = Inr ch1" "chan_refines (False, wanted a ab) ch1" using e by (auto simp: ab)
      then show ?thesis using "2.IH" [of ch1] "2.prems"(2) False no by (auto split: option.splits)
    qed
  qed
qed simp

section \<open>Properties\<close>

text \<open>
  C18. A channel created without events and driven on its loop's thread with libevent calls that
  succeed, through any sequence of its operations, \<open>close\<close> included. While it is open no operation
  faults, the events it reports are those of the set-of-directions specification and libevent has
  registered exactly these, persistently, or nothing when the set is empty. Once it is closed nothing is
  registered and it may be destroyed (before, the destructor's assertion fails); an operation that would
  register an event then, even by disabling one of two directions, dereferences the null event, and no
  other does.
\<close>

theorem channel_refines_directions:
  assumes "0 < fd" and "good_env env"
  shows "\<exists>ch0. Channel fd False False = Inr ch0 \<and>
    (case channel_spec as (True, False, False) of
       None \<Rightarrow> channel_run env as ch0 = Inl NullDeref
     | Some (opened, r, w) \<Rightarrow>
         (\<exists>ch. channel_run env as ch0 = Inr ch \<and> (isReadable ch, isWritable ch) = (r, w) \<and>
           in_base ch = (if opened \<and> (r \<or> w) then Some (events ch OR EV_PERSIST) else None) \<and>
           isAttached ch = (opened \<and> (r \<or> w)) \<and> Channel_destroy ch = (if opened then Inl AssertFail else Inr ())))"
proof -
  obtain ch0 where ch0: "Channel fd False False = Inr ch0" "chan_refines (True, False, False) ch0"
    using assms(1) by (simp add: Channel_def chan_refines_def chan_sync_def event_bits_def)
  show ?thesis
  proof (cases "channel_spec as (True, False, False)")
    case None
    then show ?thesis using run_refines [OF ch0(2) assms(2), of as] ch0(1) by simp
  next
    case (Some st)
    obtain opened r w where st: "st = (opened, r, w)" by (cases st)
    obtain ch where ch: "channel_run env as ch0 = Inr ch" "chan_refines st ch" using run_refines [OF ch0(2) assms(2), of as] Some by auto
    have "(isReadable ch, isWritable ch) = (r, w) \<and> in_base ch = (if opened \<and> (r \<or> w) then Some (events ch OR EV_PERSIST) else None) \<and>
      isAttached ch = (opened \<and> (r \<or> w)) \<and> Channel_destroy ch = (if opened then Inl AssertFail else Inr ())"
      using ch(2) by (cases opened) (simp_all add: st chan_refines_def chan_sync_def chan_shut_def isReadable_def isWritable_def isAttached_def
          Channel_destroy_def event_bits_simps)
    then show ?thesis using ch0(1) ch(1) Some st by auto
  qed
qed

theorem channel_refines_directions_witness:
  "\<exists>ch0 ch. Channel 5 False False = Inr ch0 \<and>
     channel_run \<lparr>add_ok = True, del_ok = True, on_loop = True\<rparr> [Enable True True, Disable True False] ch0 = Inr ch \<and>
     \<not> isReadable ch \<and> isWritable ch \<and> isAttached ch \<and>
     channel_run \<lparr>add_ok = True, del_ok = True, on_loop = True\<rparr> [Enable True True, Close, Disable True False] ch0 = Inl NullDeref"
proof -
  let ?env = "\<lparr>add_ok = True, del_ok = True, on_loop = True\<rparr>"
  have env: "good_env ?env" by (simp add: good_env_def)
  show ?thesis
    using channel_refines_directions [of 5, OF _ env, of "[Enable True True, Disable True False]"]
      channel_refines_directions [of 5, OF _ env, of "[Enable True True, Close, Disable True False]"]
    by (auto simp: registers_def)
qed

text \<open>
  \<open>disableAllEvents\<close> followed by \<open>close\<close> on a channel in step with libevent leaves nothing
  registered, frees the event and drops both callbacks, after which the destructor passes and no
  event calls a callback; but any later call that enables a direction dereferences the null event.
\<close>

lemma channel_close_final:
  assumes "chan_sync r w ch" and "good_env env"
  shows "\<exists>ch1 ch2. disableAllEvents env ch = Inr ch1 \<and> channel_close env ch1 = ch2 \<and>
    in_base ch2 = None \<and> Channel_destroy ch2 = Inr () \<and>
    eventHandle id on_read on_write (ch_fd ch) which ch2 = Inr ch2 \<and>
    (rd \<or> wr \<longrightarrow> enableEvents env rd wr ch2 = Inl NullDeref)"
proof -
  obtain ch1 where ch1: "disableAllEvents env ch = Inr ch1" "chan_sync False False ch1" "ch_fd ch1 = ch_fd ch"
    using disable_all_sync [OF assms] by blast
  let ?ch2 = "channel_close env ch1"
  have ch2: "?ch2 = ch1\<lparr>ch_event := False, read_cb := False, write_cb := False\<rparr>"
    using ch1(2) by (simp add: channel_close_def chan_sync_def detachFromEventLoop_def Let_def)
  have "enableEvents env rd wr ?ch2 = Inl NullDeref" if "rd \<or> wr"
    using that ch1(2) assms(2) unfolding ch2
    by (cases rd; cases wr; simp add: channel_defs Let_def event_bits_simps)
  moreover have "in_base ?ch2 = None" "Channel_destroy ?ch2 = Inr ()"
    "eventHandle id on_read on_write (ch_fd ch) which ?ch2 = Inr ?ch2"
    using ch1(2,3) unfolding ch2 by (simp_all add: chan_sync_def Channel_destroy_def eventHandle_def)
  ultimately show ?thesis using ch1(1) by blast
qed

definition sample_channel :: channel where
  "sample_channel = \<lparr>ch_event = True, ch_fd = 5, events = 2, attached = True, read_cb = True, write_cb = True,
     in_base = Some 0x12\<rparr>"

definition sample_env :: event_env where
  "sample_env = \<lparr>add_ok = True, del_ok = True, on_loop = True\<rparr>"

lemma sample_channel_sync: "chan_sync True False sample_channel" "good_env sample_env"
  by (simp_all add: chan_sync_def sample_channel_def event_bits_def ATP_READ_EVENT_def EV_PERSIST_def
      good_env_def sample_env_def)

lemma channel_close_final_witness:
  "\<exists>ch1. disableAllEvents sample_env sample_channel = Inr ch1 \<and>
     enableEvents sample_env False True (channel_close sample_env ch1) = Inl NullDeref"
  using channel_close_final [OF sample_channel_sync, of Inr Inr 2 False True] by auto

end
