(* ===== verification/Tcp_Conn.thy ===== *)
theory Tcp_Conn
  imports Byte_Buffer Channel Step_System
begin

text \<open>
  \<open>net/atp_tcp_conn.cpp\<close>: a connection with its channel and its two buffers. The answers of the
  kernel and of libevent are arguments. \<open>cn_sent\<close> holds the bytes that the kernel has taken,
  \<open>cn_events\<close> the application callbacks that were called, \<open>cn_closed\<close> the descriptors closed.

  A pointer that the application passes to \<open>send\<close> is an object (its bytes) with an offset, so that an
  address before the object is a fault.
\<close>

datatype conn_event = Connected | Message | Write_complete | Closed

record conn =
  cn_fd :: int
  cn_id :: string
  cn_remote :: string
  cn_chan :: channel
  cn_read :: byte_buffer
  cn_write :: byte_buffer
  cn_conn_fn :: bool
  cn_read_fn :: bool
  cn_write_complete_fn :: bool
  cn_close_fn :: bool
  cn_sent :: "byte list"
  cn_events :: "conn_event list"
  cn_closed :: "int list"

section \<open>Operations\<close>

definition Connection :: "(nat \<Rightarrow> bool) \<Rightarrow> int \<Rightarrow> string \<Rightarrow> string \<Rightarrow> conn result" where
  "Connection ok fd cid remote_addr =
     bnd (ByteBuffer ok RESERVED_PREPEND_SIZE INIT_BUFFER_SIZE) (\<lambda>rb.
     bnd (ByteBuffer ok RESERVED_PREPEND_SIZE INIT_BUFFER_SIZE) (\<lambda>wb.
       assert_that (0 \<le> fd) (assert_that (0 < length cid) (assert_that (remote_addr \<noteq> [])
         (bnd (Channel fd False False) (\<lambda>ch.
            Inr \<lparr>cn_fd = fd, cn_id = cid, cn_remote = remote_addr, cn_chan = setWriteCallback (setReadCallback ch),
                 cn_read = rb, cn_write = wb, cn_conn_fn = False, cn_read_fn = False, cn_write_complete_fn = False,
                 cn_close_fn = False, cn_sent = [], cn_events = [], cn_closed = []\<rparr>))))))"

text \<open>The destructor closes the descriptor; then the channel member is destroyed.\<close>

definition Connection_destroy :: "conn \<Rightarrow> conn result" where
  "Connection_destroy c =
     (let c1 = c\<lparr>cn_closed := cn_closed c @ [cn_fd c], cn_fd := - 1\<rparr>
      in bnd (Channel_destroy (cn_chan c1)) (\<lambda>_. Inr c1))"

definition getUUID :: "conn \<Rightarrow> string" where
  "getUUID c = cn_id c"

definition getAddress :: "conn \<Rightarrow> string" where
  "getAddress c = cn_remote c"

definition setConnectionCallback :: "bool \<Rightarrow> conn \<Rightarrow> conn" where
  "setConnectionCallback f c = c\<lparr>cn_conn_fn := f\<rparr>"

definition setReadMessageCallback :: "bool \<Rightarrow> conn \<Rightarrow> conn" where
  "setReadMessageCallback f c = c\<lparr>cn_read_fn := f\<rparr>"

definition setWriteCompleteCallback :: "bool \<Rightarrow> conn \<Rightarrow> conn" where
  "setWriteCompleteCallback f c = c\<lparr>cn_write_complete_fn := f\<rparr>"

definition setCloseCallback :: "bool \<Rightarrow> conn \<Rightarrow> conn" where
  "setCloseCallback f c = c\<lparr>cn_close_fn := f\<rparr>"

definition conn_attachToEventLoop :: "event_env \<Rightarrow> conn \<Rightarrow> conn result" where
  "conn_attachToEventLoop env c =
     assert_that (on_loop env)
       (bnd (enableEvents env True False (cn_chan c)) (\<lambda>ch.
          let c1 = c\<lparr>cn_chan := ch\<rparr> in
          Inr (if cn_conn_fn c1 then c1\<lparr>cn_events := cn_events c1 @ [Connected]\<rparr> else c1)))"

definition netFdCloseHandle :: "event_env \<Rightarrow> conn \<Rightarrow> conn result" where
  "netFdCloseHandle env c =
     bnd (disableAllEvents env (cn_chan c)) (\<lambda>ch.
       let c1 = c\<lparr>cn_chan := channel_close env ch\<rparr> in
       Inr (if cn_close_fn c1 then c1\<lparr>cn_events := cn_events c1 @ [Closed]\<rparr> else c1))"

definition netFdErrorHandle :: "event_env \<Rightarrow> conn \<Rightarrow> conn result" where
  "netFdErrorHandle env c = netFdCloseHandle env c"

text \<open>What the application passes: an object, the offset of \<open>data\<close> in it, and \<open>len\<close>.\<close>

record message =
  obj :: "byte list"
  off :: nat
  len :: nat

text \<open>The bytes at \<open>data + k\<close>, for an integer \<open>k\<close>.\<close>

definition bytes_at :: "message \<Rightarrow> int \<Rightarrow> byte list result" where
  "bytes_at m k =
     (let p = int (off m) + k in
      if p < 0 \<or> int (length (obj m)) < p then Inl OutOfBounds else Inr (drop (nat p) (obj m)))"

text \<open>The body of the closure of \<open>send\<close>; \<open>sr\<close> and \<open>e\<close> are the result and the \<open>errno\<close> of \<open>::send\<close>.\<close>

definition conn_send_now :: "event_env \<Rightarrow> (nat \<Rightarrow> bool) \<Rightarrow> int \<Rightarrow> errno \<Rightarrow> message \<Rightarrow> conn \<Rightarrow> conn result" where
  "conn_send_now env ok sr e m c =
     bnd (unreadBytes (cn_write c)) (\<lambda>unread.
     bnd (if \<not> isWritable (cn_chan c) \<and> unread = 0
          then if 0 \<le> sr
               then let remaining_data_size = len m - nat sr;
                        c1 = c\<lparr>cn_sent := cn_sent c @ take (nat sr) (drop (off m) (obj m))\<rparr>
                    in Inr (sr, remaining_data_size,
                         if remaining_data_size = 0 \<and> cn_write_complete_fn c1
                         then c1\<lparr>cn_events := cn_events c1 @ [Write_complete]\<rparr> else c1)
               else if \<not> EVUTIL_ERR_RW_RETRIABLE e
               then bnd (netFdErrorHandle env c) (\<lambda>c1. Inr (sr, len m, c1))
               else Inr (sr, len m, c)
          else Inr (0, len m, c)) (\<lambda>(nwrite, remaining_data_size, c1).
       if 0 < remaining_data_size
       then bnd (bytes_at m nwrite) (\<lambda>d.
            bnd (append ok d remaining_data_size (cn_write c1)) (\<lambda>wb.
            bnd (enableEvents env False True (cn_chan c1)) (\<lambda>ch.
              Inr (c1\<lparr>cn_write := wb, cn_chan := ch\<rparr>))))
       else Inr c1))"

text \<open>
  \<open>send\<close> itself. On the loop's thread the closure runs at once; on another it is queued, with its
  references to the parameters \<open>data\<close> and \<open>len\<close>, which are gone when it runs.
\<close>

definition conn_send :: "event_env \<Rightarrow> (nat \<Rightarrow> bool) \<Rightarrow> int \<Rightarrow> errno \<Rightarrow> message option \<Rightarrow> conn \<Rightarrow> (bool \<times> conn) result" where
  "conn_send env ok sr e data_len c =
     (case data_len of
        None \<Rightarrow> Inr (False, c)
      | Some m \<Rightarrow>
          if len m = 0 then Inr (False, c)
          else if on_loop env then bnd (conn_send_now env ok sr e m c) (\<lambda>c1. Inr (False, c1))
          else Inr (True, c))"

definition queued_send :: "conn \<Rightarrow> conn result" where
  "queued_send c = Inl UseAfterFree"

definition conn_send_buffer ::
  "event_env \<Rightarrow> (nat \<Rightarrow> bool) \<Rightarrow> int \<Rightarrow> errno \<Rightarrow> byte_buffer option \<Rightarrow> conn \<Rightarrow> (bool \<times> conn \<times> byte_buffer option) result" where
  "conn_send_buffer env ok sr e buffer c =
     (case buffer of
        None \<Rightarrow> Inr (False, c, None)
      | Some b \<Rightarrow>
          bnd (unreadBytes b) (\<lambda>n. bnd (consume n b) (\<lambda>(s, b1).
            bnd (conn_send env ok sr e (Some \<lparr>obj = buff b, off = read_index b, len = n\<rparr>) c) (\<lambda>(queued, c1).
              Inr (queued, c1, Some b1)))))"

text \<open>\<open>close\<close> on the loop's thread.\<close>

definition conn_close :: "event_env \<Rightarrow> conn \<Rightarrow> conn result" where
  "conn_close env c = assert_that (on_loop env) (netFdCloseHandle env c)"

definition netFdReadHandle :: "event_env \<Rightarrow> (nat \<Rightarrow> bool) \<Rightarrow> readv_result \<Rightarrow> conn \<Rightarrow> conn result" where
  "netFdReadHandle env ok rv c =
     bnd (reader_readv ok rv (cn_read c)) (\<lambda>(n, rb).
       let c1 = c\<lparr>cn_read := rb\<rparr> in
       if n \<le> 0 then netFdErrorHandle env c1
       else Inr (if cn_read_fn c1 then c1\<lparr>cn_events := cn_events c1 @ [Message]\<rparr> else c1))"

definition netFdWriteHandle :: "event_env \<Rightarrow> int \<Rightarrow> errno \<Rightarrow> conn \<Rightarrow> conn result" where
  "netFdWriteHandle env n e c =
     assert_that (isWritable (cn_chan c))
       (bnd (unreadBytes (cn_write c)) (\<lambda>unread.
          if 0 < n
          then bnd (remove (nat n) (cn_write c)) (\<lambda>wb.
               let c1 = c\<lparr>cn_sent := cn_sent c @ take (nat n) (data (cn_write c)), cn_write := wb\<rparr> in
               bnd (unreadBytes (cn_write c1)) (\<lambda>rest.
                 if rest = 0
                 then bnd (disableEvents env False True (cn_chan c1)) (\<lambda>ch.
                        let c2 = c1\<lparr>cn_chan := ch\<rparr> in
                        Inr (if cn_write_complete_fn c2 then c2\<lparr>cn_events := cn_events c2 @ [Write_complete]\<rparr> else c2))
                 else Inr c1))
          else if \<not> EVUTIL_ERR_RW_RETRIABLE e then netFdErrorHandle env c
          else Inr c))"

section \<open>The byte stream\<close>

text \<open>The channel wants to write exactly while there are bytes in the write buffer.\<close>

definition conn_ok :: "conn \<Rightarrow> bool" where
  "conn_ok c \<longleftrightarrow> buf_wf (cn_write c) \<and> chan_sync True (content (cn_write c) \<noteq> []) (cn_chan c)"

definition payload :: "message \<Rightarrow> byte list" where
  "payload m = take (len m) (drop (off m) (obj m))"

definition message_ok :: "message \<Rightarrow> bool" where
  "message_ok m \<longleftrightarrow> 0 < len m \<and> off m + len m \<le> length (obj m)"

lemma isWritable_sync: "chan_sync r w ch \<Longrightarrow> isWritable ch \<longleftrightarrow> w"
  by (simp add: chan_sync_def isWritable_def event_bits_simps)

lemma unread_content: "buf_wf b \<Longrightarrow> unreadBytes b = Inr (length (content b))"
  by (simp add: buf_simps)

lemma bytes_at_nat: "message_ok m \<Longrightarrow> k \<le> len m \<Longrightarrow> bytes_at m (int k) = Inr (drop (off m + k) (obj m))"
  by (auto simp: bytes_at_def message_ok_def Let_def nat_int_add)

text \<open>What is left of a message goes to the end of the write buffer.\<close>

lemma buffer_rest:
  assumes "buf_wf b" and "room ok n b" and "message_ok m" and "k + n = len m" and "0 < n"
  shows "\<exists>b'. append ok (drop (off m + k) (obj m)) n b = Inr b' \<and> buf_wf b' \<and>
    content b' = content b @ drop k (payload m)"
proof -
  have "n \<le> length (drop (off m + k) (obj m))" using assms(3,4) by (auto simp: message_ok_def)
  from append_ok [OF assms(1,2) this]
  obtain b' where b': "append ok (drop (off m + k) (obj m)) n b = Inr b'" "buf_wf b'"
    "content b' = content b @ take n (drop (off m + k) (obj m))"
    by blast
  have "take n (drop (off m + k) (obj m)) = drop k (payload m)"
    unfolding assms(4) [symmetric] payload_def by (simp add: drop_take add.commute)
  then show ?thesis using b' by auto
qed

lemma drop_payload_Nil: "message_ok m \<Longrightarrow> drop k (payload m) = [] \<longleftrightarrow> len m \<le> k"
  by (auto simp: message_ok_def payload_def)

lemma send_now_ok:
  assumes ok: "conn_ok c" and env: "good_env env" and m: "message_ok m" and sr: "0 \<le> sr" "sr \<le> int (len m)"
    and rm: "\<forall>n\<le>len m. room ok n (cn_write c)"
  shows "\<exists>c'. conn_send_now env ok sr e m c = Inr c' \<and> conn_ok c' \<and>
    cn_sent c' @ content (cn_write c') = cn_sent c @ content (cn_write c) @ payload m"
proof -
  have wf: "buf_wf (cn_write c)" and ch: "chan_sync True (content (cn_write c) \<noteq> []) (cn_chan c)"
    using ok by (simp_all add: conn_ok_def)
  define k where "k = (if content (cn_write c) = [] then nat sr else 0)"
  have k: "k \<le> len m" "int k = (if content (cn_write c) = [] then sr else 0)" using sr by (auto simp: k_def)
  have sent: "take (nat sr) (drop (off m) (obj m)) = take (nat sr) (payload m)" using sr by (simp add: payload_def min_def)
  obtain ch' where ch': "enableEvents env False True (cn_chan c) = Inr ch'" "chan_sync True True ch'"
    using enable_sync [OF ch env, of False True] by auto
  show ?thesis
  proof (cases "k = len m")
    case True
    then have empty: "content (cn_write c) = []" and full: "nat sr = len m" using m by (auto simp: k_def message_ok_def split: if_splits)
    have "take (nat sr) (drop (off m) (obj m)) = payload m" by (simp add: full payload_def)
    then show ?thesis using empty full wf ch sr(1) ok isWritable_sync [OF ch]
      by (auto simp: conn_send_now_def unread_content conn_ok_def Let_def)
  next
    case False
    then have n: "k + (len m - k) = len m" "0 < len m - k" using k(1) by auto
    from buffer_rest [OF wf _ m n] rm obtain b' where
      b': "append ok (drop (off m + k) (obj m)) (len m - k) (cn_write c) = Inr b'" "buf_wf b'"
        "content b' = content (cn_write c) @ drop k (payload m)"
      by (metis diff_le_self)
    have ne: "content b' \<noteq> []" using b'(3) drop_payload_Nil [OF m, of k] n by auto
    show ?thesis
    proof (cases "content (cn_write c) = []")
      case True
      then have ks: "k = nat sr" by (simp add: k_def)
      then show ?thesis using True n b' ne wf ch ch' sr(1) sent isWritable_sync [OF ch] bytes_at_nat [OF m k(1)] k(2)
        by (simp add: conn_send_now_def unread_content conn_ok_def Let_def bnd_simps)
    next
      case not_empty: False
      then have "k = 0" by (simp add: k_def)
      then show ?thesis using not_empty n b' ne wf ch ch' isWritable_sync [OF ch] bytes_at_nat [OF m k(1)]
        by (simp add: conn_send_now_def unread_content conn_ok_def Let_def bnd_simps)
    qed
  qed
qed

lemma write_handle_ok:
  assumes ok: "conn_ok c" and env: "good_env env" and w: "content (cn_write c) \<noteq> []"
    and n: "0 < n \<or> EVUTIL_ERR_RW_RETRIABLE e" "n \<le> int (length (content (cn_write c)))"
  shows "\<exists>c'. netFdWriteHandle env n e c = Inr c' \<and> conn_ok c' \<and>
    cn_sent c' @ content (cn_write c') = cn_sent c @ content (cn_write c)"
proof -
  have wf: "buf_wf (cn_write c)" and ch: "chan_sync True True (cn_chan c)" using ok w by (simp_all add: conn_ok_def)
  have iw: "isWritable (cn_chan c)" using isWritable_sync [OF ch] by simp
  show ?thesis
  proof (cases "0 < n")
    case True
    obtain b' where b': "remove (nat n) (cn_write c) = Inr b'" "buf_wf b'" "content b' = drop (nat n) (content (cn_write c))"
      using remove_ok [OF wf] by blast
    have "nat n \<le> write_index (cn_write c) - read_index (cn_write c)" using n(2) length_content [OF wf] by simp
    then have t: "take (nat n) (data (cn_write c)) = take (nat n) (content (cn_write c))"
      by (simp add: data_def content_def min_def)
    obtain ch' where ch': "disableEvents env False True (cn_chan c) = Inr ch'" "chan_sync True False ch'"
      using disable_sync [OF ch env, of False True] by auto
    show ?thesis using True iw wf b' t ch ch'
      by (cases "content b' = []") (auto simp: netFdWriteHandle_def unread_content conn_ok_def Let_def bnd_simps)
  next
    case False
    then show ?thesis using n iw wf ok by (simp add: netFdWriteHandle_def unread_content)
  qed
qed

text \<open>What happens to a connection: the application sends on the loop's thread, or the descriptor is writable.\<close>

datatype conn_op = Send int errno message | Writable int errno

fun conn_exec :: "event_env \<Rightarrow> (nat \<Rightarrow> bool) \<Rightarrow> conn_op \<Rightarrow> conn \<Rightarrow> conn result" where
  "conn_exec env ok (Send sr e m) c = bnd (conn_send env ok sr e (Some m) c) (\<lambda>(_, c1). Inr c1)"
| "conn_exec env ok (Writable n e) c = netFdWriteHandle env n e c"

text \<open>The kernel takes no more than it is offered, and does not fail; the allocator provides.\<close>

fun conn_legal :: "(nat \<Rightarrow> bool) \<Rightarrow> conn_op \<Rightarrow> conn \<Rightarrow> bool" where
  "conn_legal ok (Send sr e m) c \<longleftrightarrow>
     message_ok m \<and> 0 \<le> sr \<and> sr \<le> int (len m) \<and> (\<forall>n\<le>len m. room ok n (cn_write c))"
| "conn_legal ok (Writable n e) c \<longleftrightarrow>
     isWritable (cn_chan c) \<and> n \<le> int (length (content (cn_write c))) \<and> (0 < n \<or> EVUTIL_ERR_RW_RETRIABLE e)"

fun submitted :: "conn_op \<Rightarrow> byte list" where
  "submitted (Send sr e m) = payload m"
| "submitted (Writable n e) = []"

lemma conn_exec_ok:
  assumes "conn_ok c" and "good_env env" and "conn_legal ok op c"
  shows "\<exists>c'. conn_exec env ok op c = Inr c' \<and> conn_ok c' \<and>
    cn_sent c' @ content (cn_write c') = cn_sent c @ content (cn_write c) @ submitted op"
proof (cases op)
  case (Send sr e m)
  then show ?thesis using assms send_now_ok [OF assms(1,2), of m sr ok e]
    by (auto simp: conn_send_def good_env_def message_ok_def bnd_simps)
next
  case (Writable n e)
  have "chan_sync True (content (cn_write c) \<noteq> []) (cn_chan c)" using assms(1) by (simp add: conn_ok_def)
  then have "content (cn_write c) \<noteq> []" using assms(3) Writable isWritable_sync by auto
  then show ?thesis using assms Writable write_handle_ok [OF assms(1,2), of n e] by auto
qed

inductive conn_step :: "event_env \<Rightarrow> (nat \<Rightarrow> bool) \<Rightarrow> conn \<times> byte list \<Rightarrow> conn \<times> byte list \<Rightarrow> bool" for env ok where
  op: "conn_legal ok op c \<Longrightarrow> conn_exec env ok op c = Inr c' \<Longrightarrow> conn_step env ok (c, out) (c', out @ submitted op)"

inductive_cases conn_stepE: "conn_step env ok s t"

definition stream_inv :: "event_env \<Rightarrow> conn \<times> byte list \<Rightarrow> bool" where
  "stream_inv env s \<longleftrightarrow> good_env env \<and> conn_ok (fst s) \<and> cn_sent (fst s) @ content (cn_write (fst s)) = snd s"

interpretation conn_stream: step_invariant "conn_step env ok" "stream_inv env" for env ok
proof unfold_locales
  fix s t assume "conn_step env ok s t" and "stream_inv env s"
  then show "stream_inv env t" using conn_exec_ok [of "fst s" env ok] by (fastforce simp: stream_inv_def elim: conn_stepE)
qed

lemma close_handle:
  assumes "chan_sync r w (cn_chan c)" and "good_env env"
  shows "\<exists>c'. netFdCloseHandle env c = Inr c' \<and> \<not> ch_event (cn_chan c') \<and> in_base (cn_chan c') = None \<and>
    events (cn_chan c') = event_bits False False \<and> \<not> attached (cn_chan c') \<and> \<not> read_cb (cn_chan c') \<and> \<not> write_cb (cn_chan c') \<and>
    cn_write c' = cn_write c \<and> cn_read c' = cn_read c \<and> cn_sent c' = cn_sent c \<and>
    cn_events c' = cn_events c @ (if cn_close_fn c then [Closed] else [])"
proof -
  obtain ch where ch: "disableAllEvents env (cn_chan c) = Inr ch" "chan_sync False False ch"
    using disable_all_sync [OF assms] by blast
  then show ?thesis using assms(2)
    by (simp add: netFdCloseHandle_def channel_close_def chan_sync_def detachFromEventLoop_def Let_def)
qed

text \<open>Enabling an event on a closed channel uses its null event.\<close>

lemma enable_closed:
  assumes "\<not> ch_event ch" and "events ch = event_bits False False" and "\<not> attached ch" and "on_loop env"
  shows "enableEvents env False True ch = Inl NullDeref"
  using assms by (simp add: enableEvents_def updateEvents_def attachToEventLoop_def isNone_def ATP_NONE_EVENT_def
      event_bits_simps Let_def)

section \<open>Properties\<close>

text \<open>
  C5. The bytes of a connection arrive in order. Whatever messages are sent on the loop's thread and
  however many of their bytes the kernel takes at once or later (a direct send that fails aside): no operation faults, the bytes
  taken so far followed by the write buffer are all bytes submitted, and write events are wanted
  exactly while the buffer is not empty.
\<close>

theorem conn_stream_ordered:
  assumes "good_env env" and "conn_ok c" and "cn_sent c = []" and "content (cn_write c) = []"
    and "(conn_step env ok)\<^sup>*\<^sup>* (c, []) (s, out)"
  shows "cn_sent s @ content (cn_write s) = out \<and>
    (isWritable (cn_chan s) \<longleftrightarrow> content (cn_write s) \<noteq> []) \<and>
    (\<forall>op. conn_legal ok op s \<longrightarrow> (\<exists>s'. conn_exec env ok op s = Inr s'))"
proof -
  have "stream_inv env (s, out)"
    by (rule conn_stream.steps_keep [OF assms(5)]) (use assms(1-4) in \<open>simp add: stream_inv_def\<close>)
  then have s: "conn_ok s" "cn_sent s @ content (cn_write s) = out" by (simp_all add: stream_inv_def)
  then have "isWritable (cn_chan s) \<longleftrightarrow> content (cn_write s) \<noteq> []" using isWritable_sync by (auto simp: conn_ok_def)
  then show ?thesis using s conn_exec_ok [OF s(1) assms(1)] by blast
qed

text \<open>A new connection on descriptor 7, attached; a message of four bytes, of which the kernel takes one.\<close>

definition sample_conn :: conn where
  "sample_conn = \<lparr>cn_fd = 7, cn_id = ''id'', cn_remote = ''peer'', cn_chan = sample_channel, cn_read = consumed_buffer,
     cn_write = \<lparr>buff = replicate 16 0, caps = 16, read_index = 8, write_index = 8, reserved_prepend_size = 8\<rparr>,
     cn_conn_fn = False, cn_read_fn = False, cn_write_complete_fn = False, cn_close_fn = True,
     cn_sent = [], cn_events = [], cn_closed = []\<rparr>"

definition sample_message :: message where
  "sample_message = \<lparr>obj = [9, 1, 2, 3, 4], off = 1, len = 4\<rparr>"

lemma sample_conn_facts:
  "conn_ok sample_conn" "cn_sent sample_conn = []" "content (cn_write sample_conn) = []" "message_ok sample_message"
  "payload sample_message = [1, 2, 3, 4]"
  using sample_channel_sync(1)
  by (simp_all add: sample_conn_def conn_ok_def buf_wf_def size_mod_def content_def message_ok_def sample_message_def payload_def)

lemma sample_conn_room: "n \<le> 4 \<Longrightarrow> room (\<lambda>_. True) n (cn_write sample_conn)"
  by (simp add: sample_conn_def room_def size_mod_def)

theorem conn_stream_ordered_witness:
  "\<exists>s. conn_exec sample_env (\<lambda>_. True) (Send 1 EINTR sample_message) sample_conn = Inr s \<and>
     cn_sent s @ content (cn_write s) = [1, 2, 3, 4]"
proof -
  have l: "conn_legal (\<lambda>_. True) (Send 1 EINTR sample_message) sample_conn"
    using sample_conn_facts(4) sample_conn_room by (simp add: sample_message_def)
  obtain s where s: "conn_exec sample_env (\<lambda>_. True) (Send 1 EINTR sample_message) sample_conn = Inr s"
    using conn_exec_ok [OF sample_conn_facts(1) sample_channel_sync(2) l] by blast
  have "(conn_step sample_env (\<lambda>_. True))\<^sup>*\<^sup>* (sample_conn, []) (s, [1, 2, 3, 4])"
    using conn_step.op [OF l s, of "[]"] sample_conn_facts(5) by (simp add: r_into_rtranclp)
  from conn_stream_ordered [OF sample_channel_sync(2) sample_conn_facts(1-3) this] s show ?thesis by blast
qed

text \<open>
  C37. A \<open>::send\<close> that fails at once. When the call would block, the remaining bytes are taken from one
  byte before the message: a fault when the message is at the start of its object, otherwise the
  byte before the message is queued in front of it and its last byte is dropped. When the error is
  final and the message not at the start of its object, the connection is closed and then its channel is
  used again through a null pointer.
\<close>

theorem send_failure:
  assumes "good_env env" and "conn_ok c" and "content (cn_write c) = []" and "message_ok m"
    and "room ok (len m) (cn_write c)"
  shows "(off m = 0 \<longrightarrow> conn_send_now env ok (- 1) EAGAIN m c = Inl OutOfBounds) \<and>
    (0 < off m \<longrightarrow> (\<exists>c'. conn_send_now env ok (- 1) EAGAIN m c = Inr c' \<and>
      content (cn_write c') = obj m ! (off m - 1) # take (len m - 1) (payload m))) \<and>
    (0 < off m \<longrightarrow> conn_send_now env ok (- 1) (Eother n) m c = Inl NullDeref)"
proof -
  have wf: "buf_wf (cn_write c)" and ch: "chan_sync True False (cn_chan c)" using assms(2,3) by (simp_all add: conn_ok_def)
  have nw: "\<not> isWritable (cn_chan c)" using isWritable_sync [OF ch] by simp
  have lm: "0 < len m" using assms(4) by (simp add: message_ok_def)
  have "conn_send_now env ok (- 1) EAGAIN m c = Inl OutOfBounds" if "off m = 0"
    using that nw wf assms(3) lm by (simp add: conn_send_now_def unread_content bytes_at_def bnd_simps)
  moreover have "\<exists>c'. conn_send_now env ok (- 1) EAGAIN m c = Inr c' \<and>
      content (cn_write c') = obj m ! (off m - 1) # take (len m - 1) (payload m)"
    and "conn_send_now env ok (- 1) (Eother n) m c = Inl NullDeref" if o: "0 < off m"
  proof -
    have at: "bytes_at m (- 1) = Inr (drop (off m - 1) (obj m))"
      using o assms(4) by (simp add: bytes_at_def message_ok_def Let_def nat_diff_distrib)
    have d: "drop (off m - 1) (obj m) = obj m ! (off m - 1) # drop (off m) (obj m)"
      using o assms(4) Cons_nth_drop_Suc [of "off m - 1" "obj m"] by (auto simp: message_ok_def)
    then have "len m \<le> length (drop (off m - 1) (obj m))" using assms(4) o by (auto simp: message_ok_def)
    from append_ok [OF wf assms(5) this] obtain b where
      b: "append ok (drop (off m - 1) (obj m)) (len m) (cn_write c) = Inr b" "content b = take (len m) (drop (off m - 1) (obj m))"
      using assms(3) by auto
    have t: "content b = obj m ! (off m - 1) # take (len m - 1) (payload m)"
      using lm b(2) d by (cases "len m") (simp_all add: payload_def min_def)
    obtain ch' where "enableEvents env False True (cn_chan c) = Inr ch'"
      using enable_sync [OF ch assms(1), of False True] by auto
    then show "\<exists>c'. conn_send_now env ok (- 1) EAGAIN m c = Inr c' \<and>
        content (cn_write c') = obj m ! (off m - 1) # take (len m - 1) (payload m)"
      using nw wf assms(3) lm at b(1) t by (simp add: conn_send_now_def unread_content bnd_simps)
    obtain c1 where c1: "netFdCloseHandle env c = Inr c1" "\<not> ch_event (cn_chan c1)" "events (cn_chan c1) = event_bits False False"
      "\<not> attached (cn_chan c1)" "cn_write c1 = cn_write c"
      using close_handle [OF ch assms(1)] by blast
    then show "conn_send_now env ok (- 1) (Eother n) m c = Inl NullDeref"
      using nw wf assms(1,3) lm at b(1) enable_closed [OF c1(2-4), of env]
      by (simp add: conn_send_now_def unread_content netFdErrorHandle_def good_env_def bnd_simps)
  qed
  ultimately show ?thesis by blast
qed

theorem send_failure_witness:
  "\<exists>c'. conn_send_now sample_env (\<lambda>_. True) (- 1) EAGAIN sample_message sample_conn = Inr c' \<and>
     content (cn_write c') = [9, 1, 2, 3]"
  using send_failure [OF sample_channel_sync(2) sample_conn_facts(1,3,4), of "\<lambda>_. True"] sample_conn_facts(5)
    sample_conn_room [of 4] by (simp add: sample_message_def numeral_eq_Suc)

text \<open>
  A read that fails closes the connection, also when the error only says to try again: the
  channel is detached from libevent, the close callback runs once and the buffers are untouched.
\<close>

lemma read_failure_closes:
  assumes "good_env env" and "conn_ok c" and "buf_wf (cn_read c)" and "rv_ret rv \<le> 0" and "cn_close_fn c"
  shows "\<exists>c'. netFdReadHandle env ok rv c = Inr c' \<and> \<not> ch_event (cn_chan c') \<and> in_base (cn_chan c') = None \<and>
    cn_events c' = cn_events c @ [Closed] \<and> cn_read c' = cn_read c \<and> cn_write c' = cn_write c"
proof -
  have "reader_readv ok rv (cn_read c) = Inr (if rv_retriable rv then RETRIABLE_ERROR else rv_ret rv, cn_read c)"
    by (rule readv_failed [OF assms(3,4)])
  moreover have "chan_sync True (content (cn_write c) \<noteq> []) (cn_chan c)" using assms(2) by (simp add: conn_ok_def)
  ultimately show ?thesis using close_handle [of True _ c env] assms(1,4,5)
    by (auto simp: netFdReadHandle_def netFdErrorHandle_def RETRIABLE_ERROR_def)
qed

lemma read_failure_closes_witness:
  "\<exists>c'. netFdReadHandle sample_env (\<lambda>_. True) \<lparr>rv_ret = - 1, rv_retriable = True, rv_bytes = []\<rparr> sample_conn = Inr c' \<and>
     cn_events c' = [Closed] \<and> \<not> ch_event (cn_chan c')"
proof -
  have "buf_wf (cn_read sample_conn)" by (simp add: sample_conn_def consumed_buffer_def buf_wf_def size_mod_def)
  moreover have "cn_close_fn sample_conn" "cn_events sample_conn = []" by (simp_all add: sample_conn_def)
  ultimately show ?thesis
    using read_failure_closes [OF sample_channel_sync(2) sample_conn_facts(1), of "\<lparr>rv_ret = - 1, rv_retriable = True, rv_bytes = []\<rparr>"
        "\<lambda>_. True"] by auto
qed

end
