(* ===== verification/Socket.thy ===== *)
theory Socket
  imports Net_Base Atp_Prelude
begin

text \<open>
  \<open>net/atp_socket.cpp\<close>: the thin layer over the socket calls. What the kernel answers is an
  argument; the calls that change kernel state are collected in order (\<open>sock_call\<close>), with the
  descriptors closed in \<open>s_closed\<close>. A \<open>SocketImpl\<close> does not initialise \<open>fd_\<close>: the start value of
  \<open>s_fd\<close> is arbitrary.
\<close>

unbundle bit_operations_syntax

section \<open>Error codes and options\<close>

datatype socket_error = SOCKET_ERROR_BASE | SOCKET_CREATE_ERROR | SOCKET_SETOPT_ERROR | SOCKET_GETOPT_ERROR
  | SOCKET_SET_NONBLOCK_ERROR | SOCKET_CONNECT_ERROR | SOCKET_BIND_ERROR | SOCKET_LISTEN_ERROR | SOCKET_ACCEPT_ERROR
  | SOCKET_CONNECT_TIMEOUT | SOCKET_GET_APP_ERROR

fun socket_code :: "socket_error \<Rightarrow> int" where
  "socket_code SOCKET_ERROR_BASE = - 300"
| "socket_code SOCKET_CREATE_ERROR = - 301"
| "socket_code SOCKET_SETOPT_ERROR = - 302"
| "socket_code SOCKET_GETOPT_ERROR = - 303"
| "socket_code SOCKET_SET_NONBLOCK_ERROR = - 304"
| "socket_code SOCKET_CONNECT_ERROR = - 305"
| "socket_code SOCKET_BIND_ERROR = - 306"
| "socket_code SOCKET_LISTEN_ERROR = - 307"
| "socket_code SOCKET_ACCEPT_ERROR = - 309"
| "socket_code SOCKET_CONNECT_TIMEOUT = - 310"
| "socket_code SOCKET_GET_APP_ERROR = - 311"

lemma socket_code_negative: "socket_code e < 0"
  by (cases e) simp_all

text \<open>The option numbers of Linux.\<close>

datatype sock_opt = O_NONBLOCK | SO_REUSEADDR | SO_REUSEPORT | TCP_DEFER_ACCEPT | TCP_NODELAY | TCP_QUICKACK | Opt_other int

fun opt_id :: "sock_opt \<Rightarrow> int" where
  "opt_id O_NONBLOCK = 2048"
| "opt_id SO_REUSEADDR = 2"
| "opt_id SO_REUSEPORT = 15"
| "opt_id TCP_DEFER_ACCEPT = 9"
| "opt_id TCP_NODELAY = 1"
| "opt_id TCP_QUICKACK = 12"
| "opt_id (Opt_other i) = i"

definition O_NONBLOCK_mask :: "32 word" where
  "O_NONBLOCK_mask = 2048"

text \<open>\<open>fl\<close> is the answer of \<open>fcntl (fd, F_GETFL)\<close>, all ones when it fails.\<close>

definition get_socket_nonblocking :: "32 word \<Rightarrow> int" where
  "get_socket_nonblocking fl = (let opt_val = fl AND O_NONBLOCK_mask in if opt_val = 0 then 1 else 0)"

text \<open>\<open>gs\<close> is what \<open>getsockopt\<close> stores; on failure it stores nothing.\<close>

definition getOption :: "32 word \<Rightarrow> (sock_opt \<Rightarrow> int option) \<Rightarrow> sock_opt \<Rightarrow> bool" where
  "getOption fl gs opt =
     (let stored = (\<lambda>v. case gs opt of Some n \<Rightarrow> n | None \<Rightarrow> v) in
      case opt of
        O_NONBLOCK \<Rightarrow> get_socket_nonblocking fl = 1
      | SO_REUSEADDR \<Rightarrow> stored 0 = 1
      | SO_REUSEPORT \<Rightarrow> stored 0 = 1
      | TCP_DEFER_ACCEPT \<Rightarrow> stored 0 = 1
      | TCP_NODELAY \<Rightarrow> stored 0 = 1
      | TCP_QUICKACK \<Rightarrow> stored 0 = 1
      | Opt_other _ \<Rightarrow> False)"

text \<open>The calls that \<open>setOption\<close> makes.\<close>

datatype sock_call = Make_nonblocking int | Make_reuseable int | Make_reuseable_port int | Make_deferred int
  | Setsockopt int sock_opt int

definition setOption :: "int \<Rightarrow> sock_opt \<Rightarrow> int \<Rightarrow> sock_call list" where
  "setOption fd opt on =
     (case opt of
        O_NONBLOCK \<Rightarrow> if on = 1 then [Make_nonblocking fd] else []
      | SO_REUSEADDR \<Rightarrow> if on = 1 then [Make_reuseable fd] else []
      | SO_REUSEPORT \<Rightarrow> if on = 1 then [Make_reuseable_port fd] else []
      | TCP_DEFER_ACCEPT \<Rightarrow> if on = 1 then [Make_deferred fd] else []
      | TCP_NODELAY \<Rightarrow> [Setsockopt fd TCP_NODELAY on]
      | TCP_QUICKACK \<Rightarrow> [Setsockopt fd TCP_QUICKACK on]
      | Opt_other _ \<Rightarrow> [])"

definition setSendRecvBufferSize :: "int \<Rightarrow> int \<Rightarrow> int \<Rightarrow> sock_call list" where
  "setSendRecvBufferSize fd opt sz = [Setsockopt fd (Opt_other opt) sz]"

text \<open>The kernel stores an \<open>int\<close> of four bytes into the zeroed \<open>size_t\<close>.\<close>

definition getSendRecvBufferSize :: "(int \<Rightarrow> int \<Rightarrow> 32 word option) \<Rightarrow> int \<Rightarrow> int \<Rightarrow> nat" where
  "getSendRecvBufferSize gs fd opt = (case gs fd opt of Some v \<Rightarrow> unat v | None \<Rightarrow> 0)"

section \<open>Operations\<close>

record sock =
  s_fd :: int
  s_port :: int
  s_ip :: string
  s_closed :: "int list"

definition setfd :: "int \<Rightarrow> sock \<Rightarrow> sock" where
  "setfd fd s = s\<lparr>s_fd := fd\<rparr>"

definition sock_close :: "sock \<Rightarrow> sock" where
  "sock_close s = s\<lparr>s_closed := s_closed s @ [s_fd s], s_fd := - 1\<rparr>"

text \<open>The answers of \<open>socket\<close>, of the request for non-blocking mode and of \<open>fcntl (F_SETFD)\<close>.\<close>

record create_env =
  socket_ret :: int
  nonblock_ret :: int
  cloexec_ret :: int

definition sock_create :: "create_env \<Rightarrow> bool \<Rightarrow> sock \<Rightarrow> int \<times> sock" where
  "sock_create env stream s =
     (let error = (\<lambda>s. (socket_code SOCKET_CREATE_ERROR, s\<lparr>s_closed := s_closed s @ [s_fd s], s_fd := 0\<rparr>)) in
      if stream
      then let s1 = s\<lparr>s_fd := socket_ret env\<rparr> in
           if s_fd s1 < 0 then (- 1, s1)
           else if nonblock_ret env < 0 then error s1
           else if cloexec_ret env = - 1 then error s1
           else (s_fd s1, s1)
      else error s)"

text \<open>
  The answers of the successive calls of \<open>connect\<close> with \<open>errno\<close>; of \<open>select\<close>, with \<open>errno\<close> when it
  fails and whether the descriptor is in the set of errors; and the socket's error.
\<close>

record connect_env =
  attempts :: "(int \<times> errno) list"
  select_ret :: int
  select_errno :: errno
  select_error :: bool
  so_error :: errno

fun connect_loop :: "(int \<times> errno) list \<Rightarrow> (int \<times> errno) option" where
  "connect_loop [] = None"
| "connect_loop ((ret, e) # rest) = (if ret < 0 \<and> e = EINTR then connect_loop rest else Some (ret, e))"

definition FD_SETSIZE :: int where
  "FD_SETSIZE = 1024"

text \<open>\<open>None\<close>: still repeating the call. The result carries \<open>errno\<close>.\<close>

definition sock_connect :: "connect_env \<Rightarrow> sock \<Rightarrow> (int \<times> errno \<times> sock) option result" where
  "sock_connect env s =
     (case connect_loop (attempts env) of
        None \<Rightarrow> Inr None
      | Some (ret, e) \<Rightarrow>
          if ret = 0 then Inr (Some (0, e, s))
          else if ret < 0 \<and> e = EINPROGRESS
          then if s_fd s < 0 \<or> FD_SETSIZE \<le> s_fd s then Inl OutOfBounds
               else if select_ret env < 0 then Inr (Some (socket_code SOCKET_CONNECT_ERROR, select_errno env, sock_close s))
               else if select_ret env = 0 then Inr (Some (socket_code SOCKET_CONNECT_TIMEOUT, ETIMEDOUT, sock_close s))
               else if select_error env then Inr (Some (socket_code SOCKET_GET_APP_ERROR, so_error env, sock_close s))
               else Inr (Some (0, e, s))
          else Inr (Some (socket_code SOCKET_CONNECT_ERROR, e, s)))"

text \<open>The port in the address has 16 bits.\<close>

definition sock_bind :: "(16 word \<Rightarrow> string \<Rightarrow> int) \<Rightarrow> string \<Rightarrow> int \<Rightarrow> sock \<Rightarrow> int \<times> sock" where
  "sock_bind bind_call ip port s =
     (let s1 = s\<lparr>s_ip := ip, s_port := port\<rparr> in
      if bind_call (word_of_int (s_port s1)) (s_ip s1) < 0 then (socket_code SOCKET_BIND_ERROR, s1) else (0, s1))"

definition sock_listen :: "(int \<Rightarrow> int \<Rightarrow> int) \<Rightarrow> int \<Rightarrow> sock \<Rightarrow> int" where
  "sock_listen listen_call backlog s =
     (let SO_MAX_CONN = (if backlog \<le> 0 then ATP_SO_MAX_CONN else backlog) in
      if listen_call (s_fd s) SO_MAX_CONN < 0 then socket_code SOCKET_LISTEN_ERROR else 0)"

text \<open>\<open>ntop\<close> is the text of \<open>inet_ntop\<close>; a string is made of a null pointer when it fails.\<close>

definition sock_accept :: "(int \<Rightarrow> int) \<Rightarrow> string option \<Rightarrow> string \<Rightarrow> sock \<Rightarrow> (int \<times> string) result" where
  "sock_accept accept_call ntop remote_addr s =
     (let conn_fd = accept_call (s_fd s) in
      if conn_fd < 0 then Inr (socket_code SOCKET_ACCEPT_ERROR, remote_addr)
      else case ntop of None \<Rightarrow> Inl NullDeref | Some a \<Rightarrow> Inr (conn_fd, a))"

section \<open>Facts\<close>

text \<open>A socket in non-blocking mode is reported as not non-blocking, and the other way round.\<close>

lemma nonblocking_inverted: "getOption fl gs O_NONBLOCK \<longleftrightarrow> fl AND O_NONBLOCK_mask = 0"
  by (simp add: getOption_def get_socket_nonblocking_def Let_def)

lemma connect_loop_find: "connect_loop as = List.find (\<lambda>(ret, e). \<not> (ret < 0 \<and> e = EINTR)) as"
  by (induction as rule: connect_loop.induct) auto

text \<open>What is left of a socket that \<open>connect\<close> has closed, once.\<close>

definition closed_socket :: "sock \<Rightarrow> sock" where
  "closed_socket s = s\<lparr>s_fd := - 1, s_closed := s_closed s @ [s_fd s]\<rparr>"

text \<open>What \<open>connect\<close> tells its caller: the result, \<open>errno\<close> and what has become of the socket.\<close>

definition connect_reports :: "connect_env \<Rightarrow> sock \<Rightarrow> int \<Rightarrow> errno \<Rightarrow> sock \<Rightarrow> bool" where
  "connect_reports env s code e s' \<longleftrightarrow> sock_connect env s = Inr (Some (code, e, s'))"

text \<open>Without the stream flag no socket is made, and the stale descriptor is closed.\<close>

lemma create_datagram:
  "sock_create env False s = (socket_code SOCKET_CREATE_ERROR, s\<lparr>s_closed := s_closed s @ [s_fd s], s_fd := 0\<rparr>)"
  by (simp add: sock_create_def Let_def)

lemma create_stream_ok:
  "0 \<le> socket_ret env \<Longrightarrow> 0 \<le> nonblock_ret env \<Longrightarrow> cloexec_ret env \<noteq> - 1 \<Longrightarrow>
     sock_create env True s = (socket_ret env, s\<lparr>s_fd := socket_ret env\<rparr>)"
  by (simp add: sock_create_def Let_def)

section \<open>Properties\<close>

text \<open>
  C36. The outcome of \<open>connect\<close>. It repeats the call as long as it is interrupted. The first other answer
  decides: success is reported at once; a failure other than \<open>EINPROGRESS\<close> is \<open>SOCKET_CONNECT_ERROR\<close> with
  its \<open>errno\<close> and leaves the descriptor open. After \<open>EINPROGRESS\<close> a descriptor outside of \<open>fd_set\<close> is a
  write out of bounds; otherwise a failing \<open>select\<close>, a time-out and an error reported in the set of
  errors are \<open>SOCKET_CONNECT_ERROR\<close>, \<open>SOCKET_CONNECT_TIMEOUT\<close> and \<open>SOCKET_GET_APP_ERROR\<close> with the \<open>errno\<close> of
  \<open>select\<close>, \<open>ETIMEDOUT\<close> and the socket's error, and close the descriptor once; and a descriptor that
  is only writable counts as connected whatever the socket's error is.
\<close>

theorem connect_outcomes:
  assumes "attempts env = interrupted @ rest" and "\<forall>(r, x) \<in> set interrupted. r < 0 \<and> x = EINTR"
    and "rest = [] \<or> \<not> (fst (hd rest) < 0 \<and> snd (hd rest) = EINTR)" and "(ret, e) = hd rest"
  shows "(rest = [] \<longrightarrow> sock_connect env s = Inr None) \<and>
    (rest \<noteq> [] \<longrightarrow>
      (ret = 0 \<longrightarrow> connect_reports env s 0 e s) \<and>
      (0 < ret \<or> ret < 0 \<and> e \<noteq> EINPROGRESS \<longrightarrow> connect_reports env s (socket_code SOCKET_CONNECT_ERROR) e s) \<and>
      (ret < 0 \<and> e = EINPROGRESS \<longrightarrow>
        (s_fd s \<notin> {0..<FD_SETSIZE} \<longrightarrow> sock_connect env s = Inl OutOfBounds) \<and>
        (s_fd s \<in> {0..<FD_SETSIZE} \<longrightarrow>
          (select_ret env < 0 \<longrightarrow> connect_reports env s (socket_code SOCKET_CONNECT_ERROR) (select_errno env) (closed_socket s)) \<and>
          (select_ret env = 0 \<longrightarrow> connect_reports env s (socket_code SOCKET_CONNECT_TIMEOUT) ETIMEDOUT (closed_socket s)) \<and>
          (0 < select_ret env \<and> select_error env \<longrightarrow>
            connect_reports env s (socket_code SOCKET_GET_APP_ERROR) (so_error env) (closed_socket s)) \<and>
          (0 < select_ret env \<and> \<not> select_error env \<longrightarrow> connect_reports env s 0 EINPROGRESS s))))"
proof -
  have "List.find (\<lambda>(r, x). \<not> (r < 0 \<and> x = EINTR)) (interrupted @ rest) = (if rest = [] then None else Some (ret, e))"
    using assms(2)
  proof (induction interrupted)
    case Nil
    then show ?case using assms(3,4) by (cases rest) auto
  qed auto
  then have loop: "connect_loop (attempts env) = (if rest = [] then None else Some (ret, e))" by (simp add: connect_loop_find assms(1))
  show ?thesis
    by (auto simp: connect_reports_def sock_connect_def loop sock_close_def closed_socket_def)
qed

theorem connect_outcomes_witness:
  "connect_reports
     \<lparr>attempts = [(- 1, EINTR), (- 1, EINTR), (- 1, EINPROGRESS)], select_ret = 1, select_errno = EINTR, select_error = False,
       so_error = ECONNREFUSED\<rparr>
     \<lparr>s_fd = 5, s_port = 0, s_ip = [], s_closed = []\<rparr> 0 EINPROGRESS \<lparr>s_fd = 5, s_port = 0, s_ip = [], s_closed = []\<rparr>"
  using connect_outcomes [of
      "\<lparr>attempts = [(- 1, EINTR), (- 1, EINTR), (- 1, EINPROGRESS)], select_ret = 1, select_errno = EINTR, select_error = False,
         so_error = ECONNREFUSED\<rparr>"
      "[(- 1, EINTR), (- 1, EINTR)]" "[(- 1, EINPROGRESS)]" "- 1" EINPROGRESS "\<lparr>s_fd = 5, s_port = 0, s_ip = [], s_closed = []\<rparr>"]
  by (simp add: FD_SETSIZE_def)

end
