(* ===== verification/Listener.thy ===== *)
theory Listener
  imports Socket Channel
begin

text \<open>
  \<open>net/atp_listener.cpp\<close>: the listening socket with its channel. A task that the listener sends to its
  loop, and a connection it hands on, are returned. \<open>ln_calls\<close> collects the option calls; \<open>ln_callback\<close>
  says that \<open>new_conn_cb_\<close> is set.
\<close>

record listener =
  ln_sock :: sock
  ln_fd :: int
  ln_host :: string
  ln_port :: nat
  ln_channel :: "channel option"
  ln_callback :: bool
  ln_calls :: "sock_call list"

text \<open>The member \<open>fd_\<close> of the base class is not initialised; \<open>s0\<close> is what it holds.\<close>

definition Listener :: "sock \<Rightarrow> string \<Rightarrow> nat \<Rightarrow> listener" where
  "Listener s0 address port =
     \<lparr>ln_sock = s0, ln_fd = - 1, ln_host = address, ln_port = port, ln_channel = None, ln_callback = False, ln_calls = []\<rparr>"

text \<open>The destructor closes the descriptor, then the channel member is destroyed.\<close>

definition Listener_destroy :: "listener \<Rightarrow> listener result" where
  "Listener_destroy ln =
     (let ln1 = ln\<lparr>ln_sock := (ln_sock ln)\<lparr>s_closed := s_closed (ln_sock ln) @ [ln_fd ln]\<rparr>, ln_fd := - 1\<rparr>
      in case ln_channel ln1 of None \<Rightarrow> Inr ln1 | Some ch \<Rightarrow> bnd (Channel_destroy ch) (\<lambda>_. Inr ln1))"

definition setNewConnCallback :: "listener \<Rightarrow> listener" where
  "setNewConnCallback ln = ln\<lparr>ln_callback := True\<rparr>"

record listen_env =
  le_create :: create_env
  le_bind :: "16 word \<Rightarrow> string \<Rightarrow> int"
  le_listen :: "int \<Rightarrow> int \<Rightarrow> int"

definition listener_listen :: "listen_env \<Rightarrow> listener \<Rightarrow> listener result" where
  "listener_listen env ln =
     (case sock_create (le_create env) True (ln_sock ln) of
        (fd, s1) \<Rightarrow>
          (let ln1 = ln\<lparr>ln_sock := s1, ln_fd := fd\<rparr> in
           assert_that (0 \<le> ln_fd ln1)
             (let ln2 = ln1\<lparr>ln_calls := ln_calls ln1 @ setOption (ln_fd ln1) SO_REUSEADDR 1
                     @ setOption (ln_fd ln1) SO_REUSEPORT 1 @ setOption (ln_fd ln1) TCP_DEFER_ACCEPT 1\<rparr>
              in case sock_bind (le_bind env) (ln_host ln2) (int (ln_port ln2)) (ln_sock ln2) of
                   (r, s2) \<Rightarrow>
                     assert_that (r = 0)
                       (assert_that (sock_listen (le_listen env) ATP_SO_MAX_CONN s2 = 0)
                          (Inr (ln2\<lparr>ln_sock := s2\<rparr>))))))"

text \<open>\<open>accept\<close> makes the channel and sends its \<open>attachToEventLoop\<close>; \<open>listener_attach\<close> is that task.\<close>

definition listener_accept :: "listener \<Rightarrow> listener result" where
  "listener_accept ln =
     bnd (Channel (ln_fd ln) True False) (\<lambda>ch. Inr (ln\<lparr>ln_channel := Some (setReadCallback ch)\<rparr>))"

definition listener_attach :: "event_env \<Rightarrow> listener \<Rightarrow> listener result" where
  "listener_attach env ln =
     (case ln_channel ln of
        None \<Rightarrow> Inl NullDeref
      | Some ch \<Rightarrow> bnd (attachToEventLoop env ch) (\<lambda>ch1. Inr (ln\<lparr>ln_channel := Some ch1\<rparr>)))"

definition listener_stop :: "event_env \<Rightarrow> listener \<Rightarrow> listener result" where
  "listener_stop env ln =
     assert_that (on_loop env)
       (case ln_channel ln of
          None \<Rightarrow> Inl NullDeref
        | Some ch \<Rightarrow> bnd (disableAllEvents env ch) (\<lambda>ch1. Inr (ln\<lparr>ln_channel := Some (channel_close env ch1)\<rparr>)))"

text \<open>The connection handed to \<open>new_conn_cb_\<close>, if any.\<close>

definition acceptHandle ::
  "bool \<Rightarrow> (int \<Rightarrow> int) \<Rightarrow> string option \<Rightarrow> listener \<Rightarrow> ((int \<times> string) option \<times> listener) result" where
  "acceptHandle on_thread accept_call ntop ln =
     assert_that on_thread
       (bnd (sock_accept accept_call ntop [] (ln_sock ln)) (\<lambda>(conn_fd, remote_address).
          if conn_fd < 0 then Inr (None, ln)
          else
            (let ln1 = ln\<lparr>ln_calls := ln_calls ln @ setOption conn_fd O_NONBLOCK 1
                    @ setOption conn_fd TCP_NODELAY 1 @ setOption conn_fd TCP_QUICKACK 1\<rparr>
             in Inr (if ln_callback ln1 then Some (conn_fd, remote_address) else None, ln1))))"

lemmas listener_defs = Listener_def Listener_destroy_def listener_listen_def listener_accept_def listener_attach_def
  listener_stop_def acceptHandle_def

text \<open>A listener that has been set up accepts on the descriptor it listens on.\<close>

lemma listener_listen_fd:
  assumes "listener_listen env ln = Inr ln'"
  shows "ln_fd ln' = socket_ret (le_create env) \<and> s_fd (ln_sock ln') = ln_fd ln' \<and> 0 \<le> ln_fd ln' \<and>
    ln_channel ln' = ln_channel ln \<and> ln_callback ln' = ln_callback ln \<and> s_closed (ln_sock ln') = s_closed (ln_sock ln)"
  using assms
  by (auto simp: listener_listen_def sock_create_def sock_bind_def Let_def assert_that_def split: if_splits)

lemma listener_attached:
  assumes "listener_accept ln = Inr ln1" and "good_env env"
  shows "\<exists>ln2 ch. listener_attach env ln1 = Inr ln2 \<and> ln_channel ln2 = Some ch \<and> chan_sync True False ch \<and> read_cb ch"
  using assms
  by (auto simp: listener_accept_def listener_attach_def Channel_def channel_defs setReadCallback_def event_bits_def
      ATP_READ_EVENT_def bnd_simps assert_that_def split: if_splits)

text \<open>Stopping on the loop's thread makes the listener destructible; it was not before.\<close>

lemma listener_stop_destroy:
  assumes "ln_channel ln = Some ch" and "chan_sync True False ch" and "good_env env"
  shows "Listener_destroy ln = Inl AssertFail \<and> (\<exists>ln1 ln2. listener_stop env ln = Inr ln1 \<and> Listener_destroy ln1 = Inr ln2)"
proof -
  obtain ch1 where ch1: "disableAllEvents env ch = Inr ch1" "chan_sync False False ch1"
    using disable_all_sync [OF assms(2,3)] by blast
  then show ?thesis using assms
    by (simp add: listener_stop_def Listener_destroy_def Channel_destroy_def channel_close_def chan_sync_def good_env_def
        detachFromEventLoop_def bnd_simps Let_def)
qed

end
