(* ===== verification/Event_Loop_Pool.thy ===== *)
theory Event_Loop_Pool
  imports Event_Loop
begin

text \<open>
  \<open>net/atp_event_loop_thread_pool.cpp\<close>: a thread that runs an event loop, and the pool of such
  threads from which the server takes the loop of a connection. The worker's progress is part of the
  state: after \<open>std::thread\<close> is made it stores \<open>STATE_RUNNING\<close>, then enters \<open>dispatch\<close>, and at the
  end stores \<open>STATE_STOPPED\<close>.
\<close>

datatype worker = NoThread | Spawned | Stored | Dispatching | Finished | Joined

record 'a loop_thread =
  lt_state :: service_state
  lt_loop :: "'a event_loop"
  lt_worker :: worker

section \<open>EventLoopThread\<close>

definition EventLoopThread :: "int \<Rightarrow> nat \<Rightarrow> 'a loop_thread result" where
  "EventLoopThread efd tid =
     bnd (EventLoop efd tid) (\<lambda>lp. Inr \<lparr>lt_state = STATE_INIT, lt_loop = lp, lt_worker = NoThread\<rparr>)"

definition joinable :: "worker \<Rightarrow> bool" where
  "joinable w \<longleftrightarrow> w \<noteq> NoThread \<and> w \<noteq> Joined"

text \<open>Giving up a joinable \<open>std::thread\<close> ends the program.\<close>

definition thread_start :: "'a loop_thread \<Rightarrow> (bool \<times> 'a loop_thread) result" where
  "thread_start th = (if joinable (lt_worker th) then Inl Misuse else Inr (True, th\<lparr>lt_worker := Spawned\<rparr>))"

text \<open>\<open>None\<close> is a caller that waits for the worker.\<close>

definition thread_join :: "'a loop_thread \<Rightarrow> 'a loop_thread option" where
  "thread_join th =
     (if joinable (lt_worker th)
      then if lt_worker th = Finished then Some (th\<lparr>lt_worker := Joined\<rparr>) else None
      else Some th)"

definition thread_stop :: "'a executor \<Rightarrow> nat \<Rightarrow> 'a \<Rightarrow> 'a loop_thread \<Rightarrow> 'a loop_thread" where
  "thread_stop exec tid stop_task th =
     (let th1 = th\<lparr>lt_loop := loop_stop exec tid stop_task (lt_loop th)\<rparr> in th1\<lparr>lt_state := STATE_STOPPED\<rparr>)"

definition getEventLoop :: "'a loop_thread \<Rightarrow> 'a event_loop" where
  "getEventLoop th = lt_loop th"

text \<open>The three parts of \<open>executer\<close>, run by the worker: the store, the entry of \<open>dispatch\<close>, the end.\<close>

definition executer_store :: "'a loop_thread \<Rightarrow> 'a loop_thread" where
  "executer_store th = th\<lparr>lt_state := STATE_RUNNING, lt_worker := Stored\<rparr>"

definition executer_dispatch :: "bool \<Rightarrow> nat \<Rightarrow> 'a loop_thread \<Rightarrow> 'a loop_thread result" where
  "executer_dispatch add_ok wid th =
     bnd (dispatch_enter True add_ok wid (lt_loop th)) (\<lambda>lp. Inr (th\<lparr>lt_loop := lp, lt_worker := Dispatching\<rparr>))"

definition executer_end :: "'a loop_thread \<Rightarrow> 'a loop_thread" where
  "executer_end th = th\<lparr>lt_state := STATE_STOPPED, lt_worker := Finished\<rparr>"

text \<open>The destructor's body, then the members in reverse order: the loop before the thread.\<close>

definition EventLoopThread_destroy :: "'a loop_thread \<Rightarrow> unit result option" where
  "EventLoopThread_destroy th =
     (case (if CHECK_STATE (lt_state th) STATE_STOPPED then thread_join th else Some th) of
        None \<Rightarrow> None
      | Some th1 \<Rightarrow>
          Some (bnd (EventLoop_destroy (lt_loop th1)) (\<lambda>_.
            if joinable (lt_worker th1) then Inl Misuse else Inr ())))"

section \<open>EventLoopPool\<close>

record 'a loop_pool =
  lp_state :: service_state
  lp_threads_num :: nat
  lp_index :: int
  lp_threads :: "'a loop_thread list"

definition EventLoopPool :: "nat \<Rightarrow> 'a loop_pool" where
  "EventLoopPool threads_num =
     \<lparr>lp_state = STATE_NULL, lp_threads_num = threads_num, lp_index = - 1, lp_threads = []\<rparr>"

text \<open>
  What the kernel and the scheduler decide for one thread: the eventfd, the worker's id, the number of
  times the starter polls before the worker stores its state, whether the worker has entered
  \<open>dispatch\<close> by the time the starter sees the state, and libevent's answer there.
\<close>

record spawn_env =
  sp_efd :: int
  sp_wid :: nat
  sp_polls :: nat
  sp_entered :: bool
  sp_add_ok :: bool

fun wait_running :: "spawn_env \<Rightarrow> nat \<Rightarrow> 'a loop_thread \<Rightarrow> 'a loop_thread result" where
  "wait_running env 0 th =
     (let th1 = executer_store th
      in if sp_entered env then executer_dispatch (sp_add_ok env) (sp_wid env) th1 else Inr th1)"
| "wait_running env (Suc n) th = wait_running env n th"

definition autoStart_one :: "spawn_env \<Rightarrow> nat \<Rightarrow> (bool \<times> 'a loop_thread) result" where
  "autoStart_one env tid =
     bnd (EventLoopThread (sp_efd env) tid) (\<lambda>th0. bnd (thread_start th0) (\<lambda>(ok, th1).
       if \<not> ok then Inr (False, th1)
       else bnd (wait_running env (sp_polls env) th1) (\<lambda>th2.
         assert_that (CHECK_STATE (lt_state th2) STATE_RUNNING) (Inr (True, th2)))))"

fun autoStart_loop ::
  "(nat \<Rightarrow> spawn_env) \<Rightarrow> nat \<Rightarrow> nat \<Rightarrow> nat \<Rightarrow> 'a loop_pool \<Rightarrow> (bool \<times> 'a loop_pool) result" where
  "autoStart_loop env tid i 0 p = Inr (True, p\<lparr>lp_state := STATE_RUNNING\<rparr>)"
| "autoStart_loop env tid i (Suc n) p =
     bnd (autoStart_one (env i) tid) (\<lambda>(ok, th).
       if \<not> ok then Inr (False, p\<lparr>lp_state := STATE_STOPPED\<rparr>)
       else autoStart_loop env tid (Suc i) n (p\<lparr>lp_threads := lp_threads p @ [th]\<rparr>))"

definition autoStart :: "(nat \<Rightarrow> spawn_env) \<Rightarrow> nat \<Rightarrow> 'a loop_pool \<Rightarrow> (bool \<times> 'a loop_pool) result" where
  "autoStart env tid p =
     (if lp_threads_num p = 0 then Inr (False, p\<lparr>lp_state := STATE_STOPPED\<rparr>)
      else autoStart_loop env tid 0 (lp_threads_num p) (p\<lparr>lp_state := STATE_INIT\<rparr>))"

fun join_all :: "'a loop_thread list \<Rightarrow> 'a loop_thread list option" where
  "join_all [] = Some []"
| "join_all (th # ths) =
     (case thread_join th of None \<Rightarrow> None
      | Some th1 \<Rightarrow> (case join_all ths of None \<Rightarrow> None | Some ths1 \<Rightarrow> Some (th1 # ths1)))"

definition autoJoin :: "'a loop_pool \<Rightarrow> 'a loop_pool option result" where
  "autoJoin p =
     assert_that (CHECK_STATE (lp_state p) STATE_STOPPED)
       (Inr (case join_all (lp_threads p) of None \<Rightarrow> None | Some ths \<Rightarrow> Some (p\<lparr>lp_threads := ths\<rparr>)))"

definition stop_fn :: "'a loop_pool \<Rightarrow> bool" where
  "stop_fn p \<longleftrightarrow> (\<forall>th\<in>set (lp_threads p). CHECK_STATE (lt_state th) STATE_STOPPED)"

text \<open>\<open>tick i\<close> is what the other threads do during the \<open>i\<close>-th sleep; at most 15 rounds are left.\<close>

function stop_wait :: "(nat \<Rightarrow> 'a loop_pool \<Rightarrow> 'a loop_pool) \<Rightarrow> nat \<Rightarrow> 'a loop_pool \<Rightarrow> bool \<times> 'a loop_pool" where
  "stop_wait tick sleep_seconds p =
     (if stop_fn p then (True, p\<lparr>lp_state := STATE_STOPPED\<rparr>)
      else
        (let p1 = tick sleep_seconds p; s1 = sleep_seconds + 1
         in if s1 \<ge> 15 then (False, p1) else stop_wait tick s1 p1))"
  by pat_completeness auto

termination
  by (relation "measure (\<lambda>(_, s, _). 15 - s)") auto

declare stop_wait.simps [simp del]

definition autoStop ::
  "'a executor \<Rightarrow> nat \<Rightarrow> 'a \<Rightarrow> (nat \<Rightarrow> 'a loop_pool \<Rightarrow> 'a loop_pool) \<Rightarrow> 'a loop_pool \<Rightarrow> (bool \<times> 'a loop_pool) result" where
  "autoStop exec tid stop_task tick p =
     assert_that (CHECK_STATE (lp_state p) STATE_RUNNING)
       (let p1 = p\<lparr>lp_state := STATE_STOPPING\<rparr>;
            p2 = p1\<lparr>lp_threads := map (thread_stop exec tid stop_task) (lp_threads p1)\<rparr>
        in Inr (stop_wait tick 0 p2))"

text \<open>The counter is an atomic \<open>int\<close>, whose increment wraps around.\<close>

text \<open>The index and the pool after \<open>getIOEventLoop\<close>; the division by \<open>threads_.size()\<close> is unsigned.\<close>

definition getIOEventLoop_index :: "'a loop_pool \<Rightarrow> (nat \<times> 'a loop_pool) result" where
  "getIOEventLoop_index p =
     assert_that (CHECK_STATE (lp_state p) STATE_RUNNING)
       (let current = lp_index p; p1 = p\<lparr>lp_index := int_wrap (current + 1)\<rparr>
        in if lp_threads p = [] then Inl BadCall
           else Inr (int_to_size current mod length (lp_threads p), p1))"

definition getIOEventLoop :: "'a loop_pool \<Rightarrow> ('a event_loop \<times> 'a loop_pool) result" where
  "getIOEventLoop p =
     bnd (getIOEventLoop_index p) (\<lambda>(current, p1).
       if current < length (lp_threads p1) then Inr (getEventLoop (lp_threads p1 ! current), p1)
       else Inl OutOfBounds)"

definition getThreadSize :: "'a loop_pool \<Rightarrow> nat result" where
  "getThreadSize p = assert_that (CHECK_STATE (lp_state p) STATE_RUNNING) (Inr (lp_threads_num p))"

section \<open>Taking loops\<close>






section \<open>Starting\<close>

definition good_spawn :: "nat \<Rightarrow> spawn_env \<Rightarrow> bool" where
  "good_spawn tid env \<longleftrightarrow> 0 < sp_efd env \<and> sp_wid env \<noteq> tid \<and> sp_add_ok env"

definition started :: "nat \<Rightarrow> spawn_env \<Rightarrow> 'a loop_thread \<Rightarrow> bool" where
  "started tid env th \<longleftrightarrow>
     lt_state th = STATE_RUNNING \<and> lt_worker th = (if sp_entered env then Dispatching else Stored) \<and>
     el_thread (lt_loop th) = (if sp_entered env then sp_wid env else tid) \<and>
     el_tasks (lt_loop th) = [] \<and> \<not> el_notified (lt_loop th) \<and> \<not> el_exit (lt_loop th)"

lemma wait_running_polls:
  "wait_running env n th =
     (if sp_entered env then executer_dispatch (sp_add_ok env) (sp_wid env) (executer_store th) else Inr (executer_store th))"
  by (induction n) (simp_all add: Let_def)

lemma autoStart_one_started:
  assumes "good_spawn tid env"
  obtains th where "autoStart_one env tid = Inr (True, th)" and "started tid env th"
proof -
  have "\<exists>th. autoStart_one env tid = Inr (True, th) \<and> started tid env th"
    using assms
    by (cases "sp_entered env")
      (simp_all add: wait_running_polls good_spawn_def started_def autoStart_one_def EventLoopThread_def thread_start_def joinable_def
        executer_store_def executer_dispatch_def EventLoop_def loop_doInit_def doInitEventWatcher_def dispatch_enter_def
        EventfdWatcher_def EventWatcher_def evutil_make_internal_eventfd_def watcher_defs bnd_simps)
  then show thesis using that by blast
qed

lemma autoStart_loop_started:
  assumes "\<forall>j<n. good_spawn tid (env (i + j))"
  shows "\<exists>ths. autoStart_loop env tid i n p = Inr (True, p\<lparr>lp_threads := lp_threads p @ ths, lp_state := STATE_RUNNING\<rparr>) \<and>
    length ths = n \<and> (\<forall>j<n. started tid (env (i + j)) (ths ! j))"
  using assms
proof (induction n arbitrary: i p)
  case (Suc n)
  obtain th :: "'a loop_thread" where th: "autoStart_one (env i) tid = Inr (True, th)" "started tid (env i) th"
    using Suc.prems autoStart_one_started [of tid "env i", where 'a = 'a] by (metis add.right_neutral zero_less_Suc)
  have "\<forall>j<n. good_spawn tid (env (Suc i + j))" using Suc.prems by (metis Suc_less_eq add_Suc add_Suc_right)
  from Suc.IH [OF this, of "p\<lparr>lp_threads := lp_threads p @ [th]\<rparr>"]
  obtain ths where ths: "autoStart_loop env tid (Suc i) n (p\<lparr>lp_threads := lp_threads p @ [th]\<rparr>) =
      Inr (True, p\<lparr>lp_threads := lp_threads p @ th # ths, lp_state := STATE_RUNNING\<rparr>)"
    "length ths = n" "\<forall>j<n. started tid (env (Suc i + j)) (ths ! j)"
    by auto
  have "\<forall>j<Suc n. started tid (env (i + j)) ((th # ths) ! j)"
    using th(2) ths(3) by (auto simp: nth_Cons split: nat.split)
  then show ?case using th(1) ths(1,2) by (intro exI [of _ "th # ths"]) (simp add: bnd_simps)
qed simp

section \<open>Properties\<close>




text \<open>
  C29. Starting and stopping the pool. With descriptors and registrations granted, \<open>autoStart\<close> brings
  up all threads; a loop whose worker has not entered \<open>dispatch\<close> yet still takes the starter for its
  own thread, so a task sent to it runs in the starter. \<open>autoStop\<close> reports success at once, without
  waiting for the loops: it does so even if no loop in \<open>dispatch\<close> has taken the stop task from its queue yet.
\<close>

theorem pool_start_stop:
  assumes "\<forall>i<n. good_spawn tid (env i)" and "0 < n"
  shows "\<exists>p p' :: 'a loop_pool. autoStart env tid (EventLoopPool n) = Inr (True, p) \<and> lp_state p = STATE_RUNNING \<and> length (lp_threads p) = n \<and>
    (\<forall>i<n. \<not> sp_entered (env i) \<longrightarrow>
      sendToQueue exec tid task (lt_loop (lp_threads p ! i)) = exec task (lt_loop (lp_threads p ! i))) \<and>
    autoStop exec tid stop_task tick p = Inr (True, p') \<and> lp_state p' = STATE_STOPPED \<and>
    (\<forall>i<n. sp_entered (env i) \<longrightarrow> lt_worker (lp_threads p' ! i) = Dispatching \<and>
      el_tasks (lt_loop (lp_threads p' ! i)) = [stop_task] \<and> \<not> el_exit (lt_loop (lp_threads p' ! i)))"
proof -
  from autoStart_loop_started [of n tid env 0 "(EventLoopPool n :: 'a loop_pool)\<lparr>lp_state := STATE_INIT\<rparr>"] assms(1)
  obtain ths :: "'a loop_thread list" where ths: "autoStart_loop env tid 0 n ((EventLoopPool n)\<lparr>lp_state := STATE_INIT\<rparr>) =
      Inr (True, (EventLoopPool n)\<lparr>lp_threads := ths, lp_state := STATE_RUNNING\<rparr>)"
    "length ths = n" "\<forall>j<n. started tid (env j) (ths ! j)"
    by (auto simp: EventLoopPool_def)
  define p where "p = (EventLoopPool n)\<lparr>lp_threads := ths, lp_state := STATE_RUNNING\<rparr>"
  define p2 where "p2 = p\<lparr>lp_state := STATE_STOPPING, lp_threads := map (thread_stop exec tid stop_task) ths\<rparr>"
  have p: "autoStart env tid (EventLoopPool n) = Inr (True, p)"
    using ths(1) assms(2) by (simp add: autoStart_def p_def EventLoopPool_def)
  have "stop_fn p2" by (simp add: stop_fn_def p2_def thread_stop_def)
  then have stop: "autoStop exec tid stop_task tick p = Inr (True, p2\<lparr>lp_state := STATE_STOPPED\<rparr>)"
    by (simp add: autoStop_def stop_wait.simps p2_def p_def)
  have inline: "sendToQueue exec tid task (lt_loop (ths ! i)) = exec task (lt_loop (ths ! i))"
    if "i < n" "\<not> sp_entered (env i)" for i
    using that ths(3) by (simp add: sendToQueue_def threadSafety_def started_def)
  have queued: "lt_worker (thread_stop exec tid stop_task (ths ! i)) = Dispatching \<and>
      el_tasks (lt_loop (thread_stop exec tid stop_task (ths ! i))) = [stop_task] \<and>
      \<not> el_exit (lt_loop (thread_stop exec tid stop_task (ths ! i)))"
    if "i < n" "sp_entered (env i)" for i
    using that ths(3) assms(1)
    by (simp add: thread_stop_def loop_stop_def sendToQueue_def threadSafety_def started_def good_spawn_def)
  show ?thesis using p stop inline queued ths(2)
    by (intro exI [of _ p] exI [of _ "p2\<lparr>lp_state := STATE_STOPPED\<rparr>"]) (simp add: p_def p2_def EventLoopPool_def)
qed

theorem pool_start_stop_witness:
  "\<exists>p p'. autoStart (\<lambda>i. \<lparr>sp_efd = 7, sp_wid = 5, sp_polls = 2, sp_entered = (i = 0), sp_add_ok = True\<rparr>) 1 (EventLoopPool 2)
       = Inr (True, p) \<and>
     sendToQueue digit_task 1 4 (lt_loop (lp_threads p ! 1)) = digit_task 4 (lt_loop (lp_threads p ! 1)) \<and>
     autoStop digit_task 1 9 (\<lambda>_ q. q) p = Inr (True, p') \<and> el_tasks (lt_loop (lp_threads p' ! 0)) = [9]"
  using pool_start_stop [of 2 1 "\<lambda>i. \<lparr>sp_efd = 7, sp_wid = 5, sp_polls = 2, sp_entered = (i = 0), sp_add_ok = True\<rparr>"
      digit_task 4 9 "\<lambda>_ q. q"]
  by (force simp: good_spawn_def)

end
