(* ===== verification/Dynamic_Thread_Pool.thy ===== *)
theory Dynamic_Thread_Pool
  imports Atp_Prelude Step_System
begin

text \<open>
  \<open>net/atp_dynamic_thread_pool.cpp\<close>: a pool that grows on demand up to 128 threads and keeps at most
  \<open>core_threads_\<close> of them waiting. A thread is known by its number in the order of creation; its entry
  in \<open>threads\<close> says where it is. Every piece of code between taking and releasing \<open>lock_\<close> is one
  function, and the step relation interleaves them.

  Positions of a thread: \<open>Enter\<close>, about to take the lock at the top of the loop of \<open>executerImpl\<close>;
  \<open>Sleeping\<close> in \<open>cond_var_.wait\<close>; \<open>Woken\<close>, notified but without the lock; \<open>Busy\<close> in a callback;
  \<open>Leaving\<close>, returned from \<open>executerImpl\<close>; \<open>Dead\<close>, in \<open>dead_threads_\<close>; \<open>Gone\<close>, joined and deleted.
\<close>

datatype position = Enter | Sleeping | Woken | Busy | Leaving | Dead | Gone

text \<open>Where the destructor is: not called, in \<open>cond_var_.wait\<close>, notified, returned.\<close>

datatype destructor = Live | Waiting | Notified | Finished

record 'a dpool =
  shutdown :: bool
  core_threads :: nat
  current_threads :: nat
  waiting_threads :: nat
  max_threads :: nat
  callbacks :: "'a list"
  dead_threads :: "nat list"
  threads :: "position list"
  dtor :: destructor
  added :: "'a list"
  started :: "'a list"

definition THREAD_POOL_MAX_THREADS :: nat where
  "THREAD_POOL_MAX_THREADS = 128"

section \<open>Operations\<close>

definition DynamicThread :: "'a dpool \<Rightarrow> 'a dpool" where
  "DynamicThread s = s\<lparr>threads := threads s @ [Enter]\<rparr>"

fun core_loop :: "nat \<Rightarrow> 'a dpool \<Rightarrow> 'a dpool" where
  "core_loop 0 s = s"
| "core_loop (Suc n) s = core_loop n (DynamicThread (s\<lparr>current_threads := current_threads s + 1\<rparr>))"

definition DynamicThreadPool :: "nat \<Rightarrow> 'a dpool" where
  "DynamicThreadPool core =
     core_loop core
       \<lparr>shutdown = False, core_threads = core, current_threads = 0, waiting_threads = 0,
        max_threads = THREAD_POOL_MAX_THREADS, callbacks = [], dead_threads = [], threads = [], dtor = Live,
        added = [], started = []\<rparr>"

text \<open>\<open>notify_one\<close> wakes the thread \<open>pick\<close>, if that one sleeps.\<close>

definition notify_one :: "nat \<Rightarrow> 'a dpool \<Rightarrow> 'a dpool" where
  "notify_one pick s =
     (if pick < length (threads s) \<and> threads s ! pick = Sleeping
      then s\<lparr>threads := (threads s)[pick := Woken]\<rparr> else s)"

definition wake :: "position \<Rightarrow> position" where
  "wake p = (if p = Sleeping then Woken else p)"

definition notify_all :: "'a dpool \<Rightarrow> 'a dpool" where
  "notify_all s = s\<lparr>threads := map wake (threads s)\<rparr>"

definition dpool_add :: "nat \<Rightarrow> 'a \<Rightarrow> 'a dpool \<Rightarrow> 'a dpool" where
  "dpool_add pick callback s =
     (let s1 = s\<lparr>callbacks := callbacks s @ [callback], added := added s @ [callback]\<rparr> in
      if waiting_threads s1 = 0 \<and> current_threads s1 \<ge> max_threads s1 then s1
      else if waiting_threads s1 = 0 then DynamicThread (s1\<lparr>current_threads := current_threads s1 + 1\<rparr>)
      else notify_one pick s1)"

definition getTaskQueueSize :: "'a dpool \<Rightarrow> nat" where
  "getTaskQueueSize s = length (callbacks s)"

text \<open>The loop of \<open>executerImpl\<close> from the second test on.\<close>

definition executerImpl_take :: "nat \<Rightarrow> 'a dpool \<Rightarrow> 'a dpool" where
  "executerImpl_take i s =
     (case callbacks s of
        cb # rest \<Rightarrow> s\<lparr>callbacks := rest, started := started s @ [cb], threads := (threads s)[i := Busy]\<rparr>
      | [] \<Rightarrow> s\<lparr>threads := (threads s)[i := if shutdown s then Leaving else Enter]\<rparr>)"

text \<open>The loop from its top up to the wait, a return, or the end of the round.\<close>

definition executerImpl :: "nat \<Rightarrow> 'a dpool \<Rightarrow> 'a dpool" where
  "executerImpl i s =
     (if \<not> shutdown s \<and> callbacks s = []
      then if waiting_threads s \<ge> core_threads s then s\<lparr>threads := (threads s)[i := Leaving]\<rparr>
           else s\<lparr>waiting_threads := waiting_threads s + 1, threads := (threads s)[i := Sleeping]\<rparr>
      else executerImpl_take i s)"

text \<open>After the wait.\<close>

definition executerImpl_resume :: "nat \<Rightarrow> 'a dpool \<Rightarrow> 'a dpool" where
  "executerImpl_resume i s = executerImpl_take i (s\<lparr>waiting_threads := waiting_threads s - 1\<rparr>)"

text \<open>\<open>DynamicThread::executer\<close> after \<open>executerImpl\<close>; with no thread left only the destructor can wait.\<close>

definition dthread_executer :: "nat \<Rightarrow> 'a dpool \<Rightarrow> 'a dpool" where
  "dthread_executer i s =
     (let s1 = s\<lparr>current_threads := current_threads s - 1, dead_threads := dead_threads s @ [i],
                 threads := (threads s)[i := Dead]\<rparr>
      in if shutdown s1 \<and> current_threads s1 = 0
         then s1\<lparr>dtor := if dtor s1 = Waiting then Notified else dtor s1\<rparr> else s1)"

text \<open>\<open>reaper\<close> joins and deletes every thread of the list.\<close>

fun reaper :: "nat list \<Rightarrow> 'a dpool \<Rightarrow> 'a dpool" where
  "reaper [] s = s\<lparr>dead_threads := []\<rparr>"
| "reaper (t # ts) s = reaper ts (s\<lparr>threads := (threads s)[t := Gone]\<rparr>)"

text \<open>The destructor at the test of its loop: it returns, or waits again.\<close>

definition dpool_destroy_test :: "'a dpool \<Rightarrow> 'a dpool" where
  "dpool_destroy_test s =
     (if current_threads s \<noteq> 0 then s\<lparr>dtor := Waiting\<rparr> else (reaper (dead_threads s) s)\<lparr>dtor := Finished\<rparr>)"

definition dpool_destroy :: "'a dpool \<Rightarrow> 'a dpool" where
  "dpool_destroy s = dpool_destroy_test (notify_all (s\<lparr>shutdown := True\<rparr>))"

section \<open>Interleavings\<close>

text \<open>\<open>at p s i\<close>: thread \<open>i\<close> exists and is at \<open>p\<close>.\<close>

definition at :: "position \<Rightarrow> 'a dpool \<Rightarrow> nat \<Rightarrow> bool" where
  "at p s i \<longleftrightarrow> i < length (threads s) \<and> threads s ! i = p"

inductive dpool_step :: "'a dpool \<Rightarrow> 'a dpool \<Rightarrow> bool" where
  add: "dtor s = Live \<Longrightarrow> (\<exists>i. at Sleeping s i) \<longrightarrow> at Sleeping s pick \<Longrightarrow> dpool_step s (dpool_add pick cb s)"
| enter: "at Enter s i \<Longrightarrow> dpool_step s (executerImpl i s)"
| spurious: "at Sleeping s i \<Longrightarrow> dpool_step s (s\<lparr>threads := (threads s)[i := Woken]\<rparr>)"
| resume: "at Woken s i \<Longrightarrow> dpool_step s (executerImpl_resume i s)"
| finish: "at Busy s i \<Longrightarrow> dpool_step s (s\<lparr>threads := (threads s)[i := Enter]\<rparr>)"
| leave: "at Leaving s i \<Longrightarrow> dpool_step s (dthread_executer i s)"
| destroy: "dtor s = Live \<Longrightarrow> dpool_step s (dpool_destroy s)"
| reap: "dtor s = Notified \<Longrightarrow> dpool_step s (dpool_destroy_test s)"

section \<open>Counting threads\<close>

definition cnt :: "('b \<Rightarrow> bool) \<Rightarrow> 'b list \<Rightarrow> nat" where
  "cnt P xs = length (filter P xs)"

lemma cnt_simps [simp]: "cnt P [] = 0" "cnt P (x # xs) = (if P x then Suc (cnt P xs) else cnt P xs)"
  by (simp_all add: cnt_def)

lemma cnt_append [simp]: "cnt P (xs @ ys) = cnt P xs + cnt P ys"
  by (simp add: cnt_def)

lemma cnt_move:
  "i < length xs \<Longrightarrow> cnt P (xs[i := v]) + of_bool (P (xs ! i)) = cnt P xs + of_bool (P v)"
proof (induction xs arbitrary: i)
  case (Cons x xs)
  show ?case
  proof (cases i)
    case (Suc j)
    then show ?thesis using Cons.IH [of j] Cons.prems by auto
  qed auto
qed simp

lemma cnt_pos: "0 < cnt P xs \<longleftrightarrow> (\<exists>i<length xs. P (xs ! i))"
  by (simp add: cnt_def filter_empty_conv) (metis in_set_conv_nth)

lemma cnt_map_wake:
  "P Sleeping = P Woken \<Longrightarrow> cnt P (map wake xs) = cnt P xs"
  by (induction xs) (auto simp: wake_def)

abbreviation waits :: "position \<Rightarrow> bool" where
  "waits p \<equiv> p = Sleeping \<or> p = Woken"

abbreviation sleeps :: "position \<Rightarrow> bool" where
  "sleeps p \<equiv> p = Sleeping"

abbreviation alive :: "position \<Rightarrow> bool" where
  "alive p \<equiv> p \<noteq> Dead \<and> p \<noteq> Gone"

abbreviation stays :: "position \<Rightarrow> bool" where
  "stays p \<equiv> p \<noteq> Dead \<and> p \<noteq> Gone \<and> p \<noteq> Leaving"

text \<open>Threads that will look at the queue.\<close>

abbreviation active :: "position \<Rightarrow> bool" where
  "active p \<equiv> p = Enter \<or> p = Woken \<or> p = Busy"

lemma cnt_wake_sleeps: "cnt sleeps (map wake xs) = 0"
  by (induction xs) (auto simp: wake_def)

lemma cnt_wake_active: "cnt active (map wake xs) = cnt active xs + cnt sleeps xs"
  by (induction xs) (auto simp: wake_def)

lemma cnt_active_sleeps: "cnt active xs + cnt sleeps xs = cnt stays xs"
proof (induction xs)
  case (Cons x xs)
  then show ?case by (cases x) simp_all
qed simp

lemma cnt_waits: "cnt sleeps xs \<le> cnt waits xs" "cnt waits xs \<le> cnt stays xs" "cnt waits xs \<le> cnt active xs + cnt sleeps xs"
  by (induction xs) auto

section \<open>Invariants\<close>

text \<open>The counters of the pool count what they say, and the destructor waits only for live threads.\<close>

definition count_inv :: "'a dpool \<Rightarrow> bool" where
  "count_inv s \<longleftrightarrow>
     waiting_threads s = cnt waits (threads s) \<and> current_threads s = cnt alive (threads s) \<and>
     (shutdown s \<longleftrightarrow> dtor s \<noteq> Live) \<and> (shutdown s \<longrightarrow> cnt sleeps (threads s) = 0) \<and>
     (dtor s = Waiting \<longrightarrow> 0 < current_threads s) \<and> (dtor s = Notified \<or> dtor s = Finished \<longrightarrow> current_threads s = 0)"

definition bound_inv :: "'a dpool \<Rightarrow> bool" where
  "bound_inv s \<longleftrightarrow> waiting_threads s \<le> core_threads s \<and> current_threads s \<le> max (core_threads s) (max_threads s)"

definition order_inv :: "'a dpool \<Rightarrow> bool" where
  "order_inv s \<longleftrightarrow> added s = started s @ callbacks s"

text \<open>A queued task has a thread that will look at the queue, when the pool has core threads.\<close>

definition live_inv :: "'a dpool \<Rightarrow> bool" where
  "live_inv s \<longleftrightarrow> 0 < max_threads s \<and>
     (0 < core_threads s \<longrightarrow> (\<not> shutdown s \<longrightarrow> 0 < cnt stays (threads s)) \<and>
        (callbacks s \<noteq> [] \<longrightarrow> 0 < cnt active (threads s)))"

definition dead_inv :: "'a dpool \<Rightarrow> bool" where
  "dead_inv s \<longleftrightarrow> (\<forall>i. at Dead s i \<longleftrightarrow> i \<in> set (dead_threads s)) \<and> (\<forall>i. at Gone s i \<longrightarrow> dtor s = Finished) \<and>
     (dtor s = Finished \<longrightarrow> dead_threads s = [])"

lemmas dpool_defs = dpool_add_def DynamicThread_def notify_one_def executerImpl_def executerImpl_take_def
  executerImpl_resume_def dthread_executer_def dpool_destroy_test_def dpool_destroy_def notify_all_def Let_def

text \<open>How the counts change when a thread moves.\<close>

lemma cnt_at: "at p s i \<Longrightarrow> cnt P ((threads s)[i := q]) + of_bool (P p) = cnt P (threads s) + of_bool (P q)"
  using cnt_move [of i "threads s" P q] by (simp add: at_def)

lemma cnt_moves:
  assumes "at p s i"
  shows "cnt waits ((threads s)[i := q]) + of_bool (waits p) = cnt waits (threads s) + of_bool (waits q)"
    and "cnt sleeps ((threads s)[i := q]) + of_bool (sleeps p) = cnt sleeps (threads s) + of_bool (sleeps q)"
    and "cnt alive ((threads s)[i := q]) + of_bool (alive p) = cnt alive (threads s) + of_bool (alive q)"
    and "cnt stays ((threads s)[i := q]) + of_bool (stays p) = cnt stays (threads s) + of_bool (stays q)"
    and "cnt active ((threads s)[i := q]) + of_bool (active p) = cnt active (threads s) + of_bool (active q)"
  by (rule cnt_at [OF assms])+

lemma reaper_fields:
  "callbacks (reaper ts s) = callbacks s" "shutdown (reaper ts s) = shutdown s"
  "core_threads (reaper ts s) = core_threads s" "max_threads (reaper ts s) = max_threads s"
  "current_threads (reaper ts s) = current_threads s" "waiting_threads (reaper ts s) = waiting_threads s"
  "added (reaper ts s) = added s" "started (reaper ts s) = started s" "dead_threads (reaper ts s) = []"
  "length (threads (reaper ts s)) = length (threads s)"
  by (induction ts arbitrary: s) simp_all

lemma reaper_nth:
  "i < length (threads s) \<Longrightarrow> threads (reaper ts s) ! i = (if i \<in> set ts then Gone else threads s ! i)"
  by (induction ts arbitrary: s) (auto simp: nth_list_update)

lemma reaper_alive: "cnt alive (threads (reaper ts s)) \<le> cnt alive (threads s)"
proof (induction ts arbitrary: s)
  case (Cons t ts)
  have "cnt alive ((threads s)[t := Gone]) \<le> cnt alive (threads s)"
    using cnt_move [of t "threads s" alive Gone]
    by (cases "t < length (threads s)") (auto simp: list_update_beyond)
  then show ?case using Cons.IH [of "s\<lparr>threads := (threads s)[t := Gone]\<rparr>"] by simp
qed simp

lemma nobody_alive:
  "cnt alive xs = 0 \<Longrightarrow> cnt waits xs = 0 \<and> cnt sleeps xs = 0 \<and> cnt stays xs = 0 \<and> cnt active xs = 0"
  by (induction xs) (auto split: if_splits)

lemma reaper_nobody: "cnt alive (threads s) = 0 \<Longrightarrow> cnt alive (threads (reaper ts s)) = 0"
  using reaper_alive [of ts s] by simp

lemma dpool_order_step: "dpool_step s t \<Longrightarrow> order_inv s \<Longrightarrow> order_inv t"
  by (induction rule: dpool_step.induct)
    (auto simp: order_inv_def dpool_defs reaper_fields split: list.splits if_splits)

text \<open>One thread moves and the counters follow.\<close>

lemma dpool_count_step: "dpool_step s t \<Longrightarrow> count_inv s \<Longrightarrow> count_inv t"
proof (induction rule: dpool_step.induct)
  case (add s pick cb)
  show ?case
  proof (cases "waiting_threads s = 0")
    case True
    then show ?thesis using add by (auto simp: count_inv_def dpool_defs)
  next
    case False
    then show ?thesis using add cnt_moves [of Sleeping s pick Woken]
      by (auto simp: count_inv_def dpool_defs at_def)
  qed
next
  case (enter s i)
  then show ?case using cnt_moves [OF enter(1), of Leaving] cnt_moves [OF enter(1), of Sleeping] cnt_moves [OF enter(1), of Busy]
    by (auto simp: count_inv_def dpool_defs split: list.splits)
next
  case (spurious s i)
  then show ?case using cnt_moves [OF spurious(1), of Woken] by (auto simp: count_inv_def)
next
  case (resume s i)
  then show ?case using cnt_moves [OF resume(1), of Leaving] cnt_moves [OF resume(1), of Enter] cnt_moves [OF resume(1), of Busy]
    by (auto simp: count_inv_def dpool_defs split: list.splits)
next
  case (finish s i)
  then show ?case using cnt_moves [OF finish(1), of Enter] by (auto simp: count_inv_def)
next
  case (leave s i)
  then show ?case using cnt_moves [OF leave(1), of Dead] by (auto simp: count_inv_def dpool_defs)
next
  case (destroy s)
  let ?s = "s\<lparr>shutdown := True, threads := map wake (threads s)\<rparr>"
  show ?case
  proof (cases "current_threads s = 0")
    case True
    then have "cnt alive (threads ?s) = 0" "cnt alive (threads s) = 0"
      using destroy by (simp_all add: count_inv_def cnt_map_wake)
    then show ?thesis using True destroy nobody_alive [of "threads s"] reaper_nobody [of ?s "dead_threads s"]
        nobody_alive [OF reaper_nobody [of ?s "dead_threads s"]]
      by (simp add: count_inv_def dpool_defs reaper_fields)
  next
    case False
    then show ?thesis using destroy by (simp add: count_inv_def dpool_defs cnt_map_wake cnt_wake_sleeps)
  qed
next
  case (reap s)
  then have "current_threads s = 0" "cnt alive (threads s) = 0" by (simp_all add: count_inv_def)
  then show ?case using reap nobody_alive [of "threads s"] reaper_nobody [of s "dead_threads s"]
      nobody_alive [OF reaper_nobody [of s "dead_threads s"]]
    by (simp add: count_inv_def dpool_defs reaper_fields)
qed

lemma dpool_bound_step: "dpool_step s t \<Longrightarrow> count_inv s \<Longrightarrow> bound_inv s \<Longrightarrow> bound_inv t"
  by (induction rule: dpool_step.induct)
    (auto simp: bound_inv_def dpool_defs reaper_fields split: list.splits)

lemma dpool_live_step: "dpool_step s t \<Longrightarrow> count_inv s \<Longrightarrow> live_inv s \<Longrightarrow> live_inv t"
proof (induction rule: dpool_step.induct)
  case (add s pick cb)
  show ?case
  proof (cases "waiting_threads s = 0")
    case True
    then have "cnt sleeps (threads s) = 0" using add cnt_waits(1) [of "threads s"] by (simp add: count_inv_def)
    then show ?thesis using add True cnt_active_sleeps [of "threads s"] by (auto simp: live_inv_def count_inv_def dpool_defs)
  next
    case False
    show ?thesis
    proof (cases "\<exists>i. at Sleeping s i")
      case True
      then have "at Sleeping s pick" using add by simp
      then show ?thesis using False add cnt_moves [of Sleeping s pick Woken] by (auto simp: live_inv_def dpool_defs at_def)
    next
      case none: False
      then have "cnt sleeps (threads s) = 0" using cnt_pos [of sleeps "threads s"] by (auto simp: at_def)
      then have "0 < cnt active (threads s)" using False add cnt_waits(3) [of "threads s"] by (simp add: count_inv_def)
      then show ?thesis using False add none by (auto simp: live_inv_def dpool_defs at_def)
    qed
  qed
next
  case (enter s i)
  then have "waiting_threads s = cnt waits ((threads s)[i := Leaving])"
    using cnt_moves(1) [OF enter(1), of Leaving] by (simp add: count_inv_def)
  then have "waiting_threads s \<le> cnt stays ((threads s)[i := Leaving])" using cnt_waits(2) by metis
  then show ?case
    using enter cnt_moves [OF enter(1), of Leaving] cnt_moves [OF enter(1), of Sleeping] cnt_moves [OF enter(1), of Busy]
    by (auto simp: live_inv_def dpool_defs split: list.splits)
next
  case (spurious s i)
  then show ?case using cnt_moves [OF spurious(1), of Woken] by (auto simp: live_inv_def)
next
  case (resume s i)
  then show ?case using cnt_moves [OF resume(1), of Leaving] cnt_moves [OF resume(1), of Enter] cnt_moves [OF resume(1), of Busy]
    by (auto simp: live_inv_def dpool_defs split: list.splits)
next
  case (finish s i)
  then show ?case using cnt_moves [OF finish(1), of Enter] by (auto simp: live_inv_def)
next
  case (leave s i)
  then show ?case using cnt_moves [OF leave(1), of Dead] by (auto simp: live_inv_def dpool_defs)
next
  case (destroy s)
  then show ?case using nobody_alive [of "threads s"]
    by (auto simp: live_inv_def count_inv_def dpool_defs cnt_wake_active reaper_fields)
next
  case (reap s)
  then show ?case using nobody_alive [of "threads s"] by (auto simp: live_inv_def count_inv_def dpool_defs reaper_fields)
qed

text \<open>The dead threads are those in \<open>dead_threads_\<close>, and only the destructor deletes them.\<close>

lemma at_upd: "at p (s\<lparr>threads := (threads s)[i := q]\<rparr>) j \<longleftrightarrow> (if j = i \<and> i < length (threads s) then p = q else at p s j)"
  by (auto simp: at_def nth_list_update)

lemma at_cong: "threads s = threads t \<Longrightarrow> at p s = at p t"
  by (intro ext) (simp add: at_def)

lemma at_other: "at p s i \<Longrightarrow> p \<noteq> q \<Longrightarrow> \<not> at q s i"
  by (simp add: at_def)

lemma dead_move:
  assumes "dead_inv s" and "at p s i" and "p \<noteq> Dead" and "q \<noteq> Dead" and "q \<noteq> Gone"
    and "threads t = (threads s)[i := q]" and "dead_threads t = dead_threads s" and "dtor t = dtor s"
  shows "dead_inv t"
proof -
  have "at r t j \<longleftrightarrow> (if j = i then r = q else at r s j)" for r j
    using assms(2,6) by (auto simp: at_def nth_list_update)
  then show ?thesis using assms(1-5,7,8) at_other [OF assms(2), of Dead] by (auto simp: dead_inv_def split: if_splits)
qed

lemma dead_destroy_test:
  assumes "\<forall>i. at Dead s i \<longleftrightarrow> i \<in> set (dead_threads s)" and "\<forall>i. \<not> at Gone s i"
  shows "dead_inv (dpool_destroy_test s)"
proof (cases "current_threads s = 0")
  case True
  have "at Dead (reaper (dead_threads s) s) i \<longleftrightarrow> False" for i
    using assms(1) reaper_nth [of i s "dead_threads s"] by (auto simp: at_def reaper_fields split: if_splits)
  then show ?thesis using True by (simp add: dpool_destroy_test_def dead_inv_def reaper_fields at_def)
next
  case False
  then show ?thesis using assms by (simp add: dpool_destroy_test_def dead_inv_def at_def)
qed

lemma dpool_dead_step: "dpool_step s t \<Longrightarrow> count_inv s \<Longrightarrow> dead_inv s \<Longrightarrow> dead_inv t"
proof (induction rule: dpool_step.induct)
  case (add s pick cb)
  have new: "at p (s\<lparr>threads := threads s @ [Enter]\<rparr>) i \<longleftrightarrow> at p s i" if "p = Dead \<or> p = Gone" for p i
    using that by (auto simp: at_def nth_append less_Suc_eq)
  show ?case
  proof (cases "at Sleeping s pick")
    case True
    have "dead_inv (s\<lparr>threads := (threads s)[pick := Woken]\<rparr>)" by (rule dead_move [OF add(4) True]) simp_all
    then show ?thesis using add new by (auto simp: dpool_defs dead_inv_def at_def)
  next
    case False
    then show ?thesis using add new by (auto simp: dpool_defs dead_inv_def at_def)
  qed
next
  case (enter s i)
  show ?case by (rule dead_move [OF enter(3,1), of "threads (executerImpl i s) ! i"])
      (use enter(1) in \<open>auto simp: dpool_defs at_def split: list.splits\<close>)
next
  case (spurious s i)
  show ?case by (rule dead_move [OF spurious(3,1)]) simp_all
next
  case (resume s i)
  show ?case by (rule dead_move [OF resume(3,1), of "threads (executerImpl_resume i s) ! i"])
      (use resume(1) in \<open>auto simp: dpool_defs at_def split: list.splits\<close>)
next
  case (finish s i)
  show ?case by (rule dead_move [OF finish(3,1)]) simp_all
next
  case (leave s i)
  have "0 < cnt alive (threads s)" using cnt_pos [of alive "threads s"] leave(1) by (auto simp: at_def)
  then have "dtor s \<noteq> Finished" using leave(2) by (auto simp: count_inv_def)
  then show ?case using leave at_other [OF leave(1), of Gone] at_upd [of _ s i Dead]
    by (auto simp: dpool_defs dead_inv_def at_def nth_list_update)
next
  case (destroy s)
  have "at p (s\<lparr>shutdown := True, threads := map wake (threads s)\<rparr>) i \<longleftrightarrow> at p s i" if "p = Dead \<or> p = Gone" for p i
    using that by (auto simp: at_def wake_def split: if_splits)
  moreover have "\<forall>i. at Dead s i \<longleftrightarrow> i \<in> set (dead_threads s)" "\<forall>i. \<not> at Gone s i" using destroy by (auto simp: dead_inv_def)
  ultimately show ?case unfolding dpool_destroy_def notify_all_def by (intro dead_destroy_test) simp_all
next
  case (reap s)
  then have "\<forall>i. at Dead s i \<longleftrightarrow> i \<in> set (dead_threads s)" "\<forall>i. \<not> at Gone s i" by (auto simp: dead_inv_def)
  then show ?case by (rule dead_destroy_test)
qed

definition dpool_inv :: "'a dpool \<Rightarrow> bool" where
  "dpool_inv s \<longleftrightarrow> count_inv s \<and> bound_inv s \<and> order_inv s \<and> live_inv s \<and> dead_inv s"

interpretation thread_pool: step_invariant dpool_step dpool_inv
  by unfold_locales (auto simp: dpool_inv_def intro: dpool_count_step dpool_bound_step dpool_order_step dpool_live_step dpool_dead_step)

lemma core_loop_eq:
  "core_loop n s = s\<lparr>current_threads := current_threads s + n, threads := threads s @ replicate n Enter\<rparr>"
  by (induction n arbitrary: s) (simp_all add: DynamicThread_def replicate_app_Cons_same)

lemma cnt_replicate: "cnt P (replicate n p) = (if P p then n else 0)"
  by (induction n) simp_all

lemma dpool_inv_init: "dpool_inv (DynamicThreadPool core)"
  by (simp add: dpool_inv_def count_inv_def bound_inv_def order_inv_def live_inv_def dead_inv_def DynamicThreadPool_def
      core_loop_eq cnt_replicate THREAD_POOL_MAX_THREADS_def at_def)

lemma core_threads_fixed: "dpool_step\<^sup>*\<^sup>* s t \<Longrightarrow> core_threads t = core_threads s \<and> max_threads t = max_threads s"
proof (induction rule: rtranclp_induct)
  case (step t u)
  from step(2) have "core_threads u = core_threads t \<and> max_threads u = max_threads t"
    by (cases rule: dpool_step.cases) (auto simp: dpool_defs reaper_fields split: list.splits)
  with step show ?case by simp
qed simp

section \<open>Shutting down\<close>

fun weight :: "position \<Rightarrow> nat" where
  "weight Enter = 2"
| "weight Sleeping = 3"
| "weight Woken = 2"
| "weight Busy = 3"
| "weight Leaving = 1"
| "weight Dead = 0"
| "weight Gone = 0"

text \<open>What is left to do once the destructor runs.\<close>

definition work :: "'a dpool \<Rightarrow> nat" where
  "work s = 2 * length (callbacks s) + sum_list (map weight (threads s)) + (if dtor s = Finished then 0 else if dtor s = Notified then 1 else 2)"

lemma weight_at: "at p s i \<Longrightarrow> sum_list (map weight ((threads s)[i := q])) + weight p = sum_list (map weight (threads s)) + weight q"
  using sum_list_move [of i "threads s" weight q] by (simp add: at_def)

lemma weight_reaper: "sum_list (map weight (threads (reaper ts s))) \<le> sum_list (map weight (threads s))"
proof (induction ts arbitrary: s)
  case (Cons t ts)
  have "sum_list (map weight ((threads s)[t := Gone])) \<le> sum_list (map weight (threads s))"
    using sum_list_move [of t "threads s" weight Gone] by (cases "t < length (threads s)") (auto simp: list_update_beyond)
  then show ?case using Cons.IH [of "s\<lparr>threads := (threads s)[t := Gone]\<rparr>"] by simp
qed simp

lemma work_step: "dpool_step s t \<Longrightarrow> count_inv s \<Longrightarrow> shutdown s \<Longrightarrow> work t < work s"
proof (induction rule: dpool_step.induct)
  case (enter s i)
  then show ?case using weight_at [OF enter(1), of Leaving] weight_at [OF enter(1), of Busy]
    by (auto simp: work_def dpool_defs split: list.splits)
next
  case (spurious s i)
  then have "0 < cnt sleeps (threads s)" using cnt_pos [of sleeps "threads s"] by (auto simp: at_def)
  then show ?case using spurious by (simp add: count_inv_def)
next
  case (resume s i)
  then show ?case using weight_at [OF resume(1), of Leaving] weight_at [OF resume(1), of Busy]
    by (auto simp: work_def dpool_defs split: list.splits)
next
  case (finish s i)
  then show ?case using weight_at [OF finish(1), of Enter] by (simp add: work_def)
next
  case (leave s i)
  then show ?case using weight_at [OF leave(1), of Dead] by (simp add: work_def dpool_defs)
next
  case (reap s)
  then show ?case using weight_reaper [of "dead_threads s" s] by (simp add: work_def dpool_defs count_inv_def reaper_fields)
qed (simp_all add: count_inv_def)

lemma shutdown_progress:
  assumes "count_inv s" and "shutdown s" and "dtor s \<noteq> Finished"
  shows "\<exists>t. dpool_step s t"
proof (cases "dtor s = Notified")
  case True
  then show ?thesis by (blast intro: dpool_step.reap)
next
  case False
  then have "dtor s = Waiting" using assms by (cases "dtor s") (simp_all add: count_inv_def)
  then have "0 < cnt alive (threads s)" using assms by (simp add: count_inv_def)
  then obtain i where i: "i < length (threads s)" "alive (threads s ! i)" using cnt_pos [of alive "threads s"] by blast
  then have a: "at (threads s ! i) s i" by (simp add: at_def)
  show ?thesis
  proof (cases "threads s ! i")
    case Enter
    then show ?thesis using a dpool_step.enter by metis
  next
    case Sleeping
    then show ?thesis using a dpool_step.spurious by metis
  next
    case Woken
    then show ?thesis using a dpool_step.resume by metis
  next
    case Busy
    then show ?thesis using a dpool_step.finish by metis
  next
    case Leaving
    then show ?thesis using a dpool_step.leave by metis
  qed (use i in simp_all)
qed

section \<open>Properties\<close>

text \<open>
  C7. In every interleaving the tasks are started in the order they were added, each once; at most
  \<open>core_threads_\<close> threads wait and at most \<open>max (core_threads_, 128)\<close> exist; and while a task is
  queued in a pool with core threads some thread is on its way to the queue.
\<close>

theorem thread_pool_tasks:
  assumes "dpool_step\<^sup>*\<^sup>* (DynamicThreadPool core) s"
  shows "added s = started s @ callbacks s \<and>
    waiting_threads s \<le> core \<and> current_threads s \<le> max core 128 \<and>
    (0 < core \<and> callbacks s \<noteq> [] \<longrightarrow> (\<exists>i. at Enter s i \<or> at Woken s i \<or> at Busy s i))"
proof -
  have inv: "dpool_inv s" by (rule thread_pool.steps_keep [OF assms dpool_inv_init])
  have cm: "core_threads s = core" "max_threads s = 128" using core_threads_fixed [OF assms]
    by (simp_all add: DynamicThreadPool_def core_loop_eq THREAD_POOL_MAX_THREADS_def)
  have "\<exists>i. at Enter s i \<or> at Woken s i \<or> at Busy s i" if "0 < cnt active (threads s)"
    using that cnt_pos [of active "threads s"] by (auto simp: at_def)
  then show ?thesis using inv cm by (auto simp: dpool_inv_def order_inv_def bound_inv_def live_inv_def)
qed

text \<open>A pool with one core thread, which has gone to sleep and is woken by a task.\<close>

definition pool_one :: "nat dpool" where
  "pool_one = dpool_add 0 7 (executerImpl 0 (DynamicThreadPool 1))"

lemma pool_one_reachable: "dpool_step\<^sup>*\<^sup>* (DynamicThreadPool 1) pool_one"
proof -
  have "dpool_step (DynamicThreadPool 1 :: nat dpool) (executerImpl 0 (DynamicThreadPool 1))"
    by (rule dpool_step.enter) (simp add: at_def DynamicThreadPool_def core_loop_eq)
  moreover have "dpool_step (executerImpl 0 (DynamicThreadPool 1)) pool_one"
    unfolding pool_one_def
    by (rule dpool_step.add) (simp_all add: at_def dpool_defs DynamicThreadPool_def core_loop_eq)
  ultimately show ?thesis by simp
qed

theorem thread_pool_tasks_witness:
  "callbacks pool_one = [7] \<and> (\<exists>i. at Enter pool_one i \<or> at Woken pool_one i \<or> at Busy pool_one i)"
proof -
  have "callbacks pool_one = [7]" by (simp add: pool_one_def dpool_defs DynamicThreadPool_def core_loop_eq)
  then show ?thesis using thread_pool_tasks [OF pool_one_reachable] by simp
qed

text \<open>
  C8. The destructor returns: once it has been called no thread sleeps any more, every step reduces
  the work left and some step is possible until it has returned; then no thread is left that has not been joined and, in a
  pool with core threads, every task added has been started.
\<close>

theorem thread_pool_shutdown:
  assumes "dpool_step\<^sup>*\<^sup>* (DynamicThreadPool core) s" and "shutdown s"
  shows "(\<forall>i. \<not> at Sleeping s i) \<and> (\<forall>t. dpool_step s t \<longrightarrow> work t < work s) \<and>
    (dtor s \<noteq> Finished \<longrightarrow> (\<exists>t. dpool_step s t)) \<and>
    (dtor s = Finished \<longrightarrow> current_threads s = 0 \<and> (\<forall>p\<in>set (threads s). p = Gone) \<and>
      (0 < core \<longrightarrow> started s = added s))"
proof -
  have inv: "dpool_inv s" by (rule thread_pool.steps_keep [OF assms(1) dpool_inv_init])
  then have c: "count_inv s" by (simp add: dpool_inv_def)
  have cm: "core_threads s = core" using core_threads_fixed [OF assms(1)] by (simp add: DynamicThreadPool_def core_loop_eq)
  have fin: "current_threads s = 0 \<and> (\<forall>p\<in>set (threads s). p = Gone) \<and> (0 < core \<longrightarrow> started s = added s)"
    if "dtor s = Finished"
  proof -
    have z: "current_threads s = 0" "cnt alive (threads s) = 0" using that c by (simp_all add: count_inv_def)
    then have "\<forall>p\<in>set (threads s). p = Dead \<or> p = Gone" by (auto simp: cnt_def filter_empty_conv)
    moreover have "\<forall>i. \<not> at Dead s i" using inv that by (simp add: dpool_inv_def dead_inv_def)
    ultimately have "\<forall>p\<in>set (threads s). p = Gone" unfolding at_def by (metis in_set_conv_nth)
    moreover have "0 < core \<longrightarrow> callbacks s = []" using inv nobody_alive [OF z(2)] cm
      by (auto simp: dpool_inv_def live_inv_def)
    ultimately show ?thesis using z inv by (auto simp: dpool_inv_def order_inv_def)
  qed
  have "cnt sleeps (threads s) = 0" using c assms(2) by (simp add: count_inv_def)
  then have "\<forall>i. \<not> at Sleeping s i" using cnt_pos [of sleeps "threads s"] by (auto simp: at_def)
  then show ?thesis using fin work_step [OF _ c assms(2)] shutdown_progress [OF c assms(2)] by blast
qed

theorem thread_pool_shutdown_witness: "\<exists>t. dpool_step (dpool_destroy pool_one) t \<and> work t < work (dpool_destroy pool_one)"
proof -
  have d: "dtor pool_one = Live" "current_threads pool_one = 1"
    by (simp_all add: pool_one_def dpool_defs DynamicThreadPool_def core_loop_eq)
  then have r: "dpool_step\<^sup>*\<^sup>* (DynamicThreadPool 1) (dpool_destroy pool_one)"
    using pool_one_reachable dpool_step.destroy by (metis rtranclp.rtrancl_into_rtrancl)
  have "shutdown (dpool_destroy pool_one)" "dtor (dpool_destroy pool_one) \<noteq> Finished"
    using d by (simp_all add: dpool_defs)
  then show ?thesis using thread_pool_shutdown [OF r] by blast
qed

end
