(* ===== verification/Tcp_Server.thy ===== *)
theory Tcp_Server
  imports Tcp_Conn Listener Event_Loop_Pool Dynamic_Thread_Pool Timing_Wheel
begin

text \<open>
  \<open>net/atp_tcp_server.cpp\<close>: the server puts the parts together. A listener on the control loop
  accepts connections, each connection lives on a loop of the pool, the table of connections is
  changed only on the control loop, and a timing wheel closes idle connections.

  Connections are shared objects: \<open>sv_objs\<close> maps the address of an object to its state, the table
  and the queued tasks refer to addresses, and an object goes when the last reference goes; \<open>sv_home\<close>
  is the loop that a connection was given (its member \<open>event_loop_\<close>).
  \<open>sv_destroyed\<close> lists the objects destroyed. The application keeps no references of its own.
\<close>

datatype server_task = AttachListener | StartTimer | AttachConn nat | RemoveConn nat | CloseConn nat | StopLoop

text \<open>A loop of the server: the control loop, or a loop of the pool.\<close>

datatype loop_id = Control | Io nat

record server =
  sv_state :: service_state
  sv_name :: string
  sv_addr :: string
  sv_port :: nat
  sv_thread_num :: int
  sv_mode :: nat
  sv_ctl :: "server_task event_loop"
  sv_listener :: listener
  sv_pool :: "server_task loop_pool option"
  sv_dpool :: "nat dpool option"
  sv_wheel :: "timing_wheel option"
  sv_timer :: "cycle_timer option"
  sv_table :: "string \<rightharpoonup> nat"
  sv_objs :: "nat \<rightharpoonup> conn"
  sv_home :: "nat \<rightharpoonup> loop_id"
  sv_next :: nat
  sv_conn_fn :: bool
  sv_message_fn :: bool
  sv_destroyed :: "nat list"

section \<open>Construction\<close>

definition TIMIING_WHEEL_STEP :: nat where
  "TIMIING_WHEEL_STEP = 1"

text \<open>\<open>nprocs\<close>, the contents of a new socket object and a fresh UUID come from outside.\<close>

definition getSystemCPUProcessers :: "nat \<Rightarrow> nat" where
  "getSystemCPUProcessers nprocs = nprocs"

definition server_doInit :: "nat \<Rightarrow> sock \<Rightarrow> string \<Rightarrow> server \<Rightarrow> server result" where
  "server_doInit nprocs s0 uuid sv =
     (let dynamic_thread_pool_size = getSystemCPUProcessers nprocs * 2;
          sv1 = sv\<lparr>sv_listener := Listener s0 (sv_addr sv) (sv_port sv), sv_table := Map.empty,
                   sv_wheel := Some (TimingWheel CONN_READ_WRITE_EXPIRES TIMIING_WHEEL_STEP),
                   sv_dpool := Some (DynamicThreadPool dynamic_thread_pool_size),
                   sv_pool := (if 0 < sv_thread_num sv then Some (EventLoopPool (nat (sv_thread_num sv))) else None)\<rparr>
      in assert_that (length (sv_addr sv1) \<noteq> 0) (assert_that (0 < sv_port sv1)
           (let sv2 = (if length (sv_name sv1) = 0 then sv1\<lparr>sv_name := ''SERVER-'' @ uuid\<rparr> else sv1)
            in Inr (sv2\<lparr>sv_state := STATE_INIT\<rparr>))))"

definition server_blank :: "string \<Rightarrow> string \<Rightarrow> nat \<Rightarrow> int \<Rightarrow> nat \<Rightarrow> sock \<Rightarrow> server_task event_loop \<Rightarrow> server" where
  "server_blank name addr port thread_num mode s0 lp =
     \<lparr>sv_state = STATE_NULL, sv_name = name, sv_addr = addr, sv_port = port, sv_thread_num = thread_num, sv_mode = mode,
      sv_ctl = lp, sv_listener = Listener s0 addr port, sv_pool = None, sv_dpool = None, sv_wheel = None, sv_timer = None,
      sv_table = Map.empty, sv_objs = Map.empty, sv_home = Map.empty, sv_next = 0, sv_conn_fn = False, sv_message_fn = False, sv_destroyed = []\<rparr>"

definition Server :: "int \<Rightarrow> nat \<Rightarrow> nat \<Rightarrow> sock \<Rightarrow> string \<Rightarrow> string \<Rightarrow> string \<Rightarrow> nat \<Rightarrow> int \<Rightarrow> server result" where
  "Server efd tid nprocs s0 uuid name addr port thread_num =
     bnd (EventLoop efd tid) (\<lambda>lp. server_doInit nprocs s0 uuid (server_blank name addr port thread_num 0 s0 lp))"

definition Server_loop ::
  "server_task event_loop \<Rightarrow> nat \<Rightarrow> sock \<Rightarrow> string \<Rightarrow> string \<Rightarrow> string \<Rightarrow> nat \<Rightarrow> int \<Rightarrow> server result" where
  "Server_loop event_loop nprocs s0 uuid name addr port thread_num =
     server_doInit nprocs s0 uuid (server_blank name addr port thread_num 1 s0 event_loop)"

definition Server_destroy :: "server \<Rightarrow> unit result" where
  "Server_destroy sv = assert_that (CHECK_STATE (sv_state sv) STATE_STOPPED) (Inr ())"

definition server_setConnectionCallback :: "bool \<Rightarrow> server \<Rightarrow> server" where
  "server_setConnectionCallback f sv = sv\<lparr>sv_conn_fn := f\<rparr>"

definition server_setMessageCallback :: "bool \<Rightarrow> server \<Rightarrow> server" where
  "server_setMessageCallback f sv = sv\<lparr>sv_message_fn := f\<rparr>"

section \<open>The table\<close>

definition hashTableSize :: "server \<Rightarrow> nat" where
  "hashTableSize sv = card (dom (sv_table sv))"

text \<open>\<open>unordered_map::insert\<close> keeps an entry that is there.\<close>

definition hashTableInsert :: "string \<Rightarrow> nat \<Rightarrow> server \<Rightarrow> server" where
  "hashTableInsert uuid i sv =
     (if sv_table sv uuid = None then sv\<lparr>sv_table := (sv_table sv)(uuid \<mapsto> i)\<rparr> else sv)"

definition hashTableRemove :: "string \<Rightarrow> server \<Rightarrow> server" where
  "hashTableRemove uuid sv = sv\<lparr>sv_table := (sv_table sv)(uuid := None)\<rparr>"

section \<open>Loops and tasks\<close>

definition loops :: "server \<Rightarrow> server_task loop_thread list" where
  "loops sv = (case sv_pool sv of None \<Rightarrow> [] | Some p \<Rightarrow> lp_threads p)"

fun loop_of :: "loop_id \<Rightarrow> server \<Rightarrow> server_task event_loop" where
  "loop_of Control sv = sv_ctl sv"
| "loop_of (Io k) sv = lt_loop (loops sv ! k)"

fun set_loop :: "loop_id \<Rightarrow> server_task event_loop \<Rightarrow> server \<Rightarrow> server" where
  "set_loop Control lp sv = sv\<lparr>sv_ctl := lp\<rparr>"
| "set_loop (Io k) lp sv =
     sv\<lparr>sv_pool := map_option (\<lambda>p. p\<lparr>lp_threads := (lp_threads p)[k := (lp_threads p ! k)\<lparr>lt_loop := lp\<rparr>]\<rparr>) (sv_pool sv)\<rparr>"

text \<open>How many tasks of the pool's loops, and of the control loop, are \<open>t\<close>.\<close>

definition io_count :: "server_task \<Rightarrow> server \<Rightarrow> nat" where
  "io_count t sv = sum_list (map (\<lambda>th. count_list (el_tasks (lt_loop th)) t) (loops sv))"

definition ctl_count :: "server_task \<Rightarrow> server \<Rightarrow> nat" where
  "ctl_count t sv = count_list (el_tasks (sv_ctl sv)) t"

text \<open>A reference to the object \<open>i\<close> is in the table or in a queued task.\<close>

definition referenced :: "nat \<Rightarrow> conn \<Rightarrow> server \<Rightarrow> bool" where
  "referenced i c sv \<longleftrightarrow>
     sv_table sv (getUUID c) = Some i \<or> 0 < io_count (AttachConn i) sv \<or> 0 < ctl_count (AttachConn i) sv \<or>
     0 < io_count (RemoveConn i) sv \<or> 0 < ctl_count (RemoveConn i) sv \<or>
     0 < io_count (CloseConn i) sv \<or> 0 < ctl_count (CloseConn i) sv"

text \<open>A reference to \<open>i\<close> goes; with the last one the object is destroyed.\<close>

definition drop_reference :: "nat \<Rightarrow> server \<Rightarrow> server result" where
  "drop_reference i sv =
     (case sv_objs sv i of
        None \<Rightarrow> Inr sv
      | Some c \<Rightarrow>
          if referenced i c sv then Inr sv
          else bnd (Connection_destroy c) (\<lambda>_.
                 Inr (sv\<lparr>sv_objs := (sv_objs sv)(i := None), sv_destroyed := sv_destroyed sv @ [i]\<rparr>)))"

text \<open>
  \<open>sendToQueue\<close> on a loop of the server, from the thread \<open>tid\<close>: on the loop's own thread the task runs at
  once, by \<open>run\<close>.
\<close>

definition post :: "(server_task \<Rightarrow> server \<Rightarrow> server result) \<Rightarrow> nat \<Rightarrow> loop_id \<Rightarrow> server_task \<Rightarrow> server \<Rightarrow> server result" where
  "post run tid l t sv =
     (if threadSafety tid (loop_of l sv) then run t sv
      else Inr (set_loop l (sendToQueue (\<lambda>_ lp. lp) tid t (loop_of l sv)) sv))"

text \<open>The closure of \<open>handleCloseConnection\<close>, and the reference it held.\<close>

definition remove_connection :: "nat \<Rightarrow> server \<Rightarrow> server result" where
  "remove_connection i sv =
     (case sv_objs sv i of
        None \<Rightarrow> Inl UseAfterFree
      | Some c \<Rightarrow> drop_reference i (hashTableRemove (getUUID c) sv))"

definition handleCloseConnection :: "nat \<Rightarrow> nat \<Rightarrow> server \<Rightarrow> server result" where
  "handleCloseConnection tid i sv = post (\<lambda>_. remove_connection i) tid Control (RemoveConn i) sv"

text \<open>A connection closes on its loop (end of file, error, or a call of \<open>close\<close>); its close callback is the server's.\<close>

definition connection_closes :: "event_env \<Rightarrow> nat \<Rightarrow> nat \<Rightarrow> server \<Rightarrow> server result" where
  "connection_closes env tid i sv =
     (case sv_objs sv i of
        None \<Rightarrow> Inl UseAfterFree
      | Some c \<Rightarrow> bnd (netFdCloseHandle env c) (\<lambda>c1.
          let sv1 = sv\<lparr>sv_objs := (sv_objs sv)(i \<mapsto> c1)\<rparr> in
          if cn_close_fn c1 then handleCloseConnection tid i sv1 else Inr sv1))"

text \<open>What the tasks do. The exit of a loop is \<open>stopHandle\<close> of \<open>Event_Loop\<close>.\<close>

fun run_task :: "event_env \<Rightarrow> loop_id \<Rightarrow> server_task \<Rightarrow> server \<Rightarrow> server result" where
  "run_task env l AttachListener sv = bnd (listener_attach env (sv_listener sv)) (\<lambda>ln. Inr (sv\<lparr>sv_listener := ln\<rparr>))"
| "run_task env l StartTimer sv =
     (case sv_timer sv of None \<Rightarrow> Inl NullDeref | Some t \<Rightarrow> bnd (timer_start_task t) (\<lambda>t1. Inr (sv\<lparr>sv_timer := Some t1\<rparr>)))"
| "run_task env l (AttachConn i) sv =
     (case sv_objs sv i of
        None \<Rightarrow> Inl UseAfterFree
      | Some c \<Rightarrow> bnd (conn_attachToEventLoop env c) (\<lambda>c1. drop_reference i (sv\<lparr>sv_objs := (sv_objs sv)(i \<mapsto> c1)\<rparr>)))"
| "run_task env l (RemoveConn i) sv = remove_connection i sv"
| "run_task env l (CloseConn i) sv =
     assert_that (on_loop env) (bnd (connection_closes env (el_thread (loop_of l sv)) i sv) (drop_reference i))"
| "run_task env l StopLoop sv = Inr (set_loop l ((loop_of l sv)\<lparr>el_exit := True, el_state := STATE_STOPPED\<rparr>) sv)"

definition server_send :: "event_env \<Rightarrow> nat \<Rightarrow> loop_id \<Rightarrow> server_task \<Rightarrow> server \<Rightarrow> server result" where
  "server_send env tid l t sv = post (run_task env l) tid l t sv"

text \<open>A loop takes the next task of its queue, see \<open>run_tasks\<close>.\<close>

definition next_task :: "event_env \<Rightarrow> loop_id \<Rightarrow> server \<Rightarrow> server result" where
  "next_task env l sv =
     (case el_tasks (loop_of l sv) of
        [] \<Rightarrow> Inr sv
      | t # ts \<Rightarrow> run_task env l t (set_loop l ((loop_of l sv)\<lparr>el_tasks := ts, el_pending := el_pending (loop_of l sv) - 1\<rparr>) sv))"

section \<open>Connections\<close>

definition server_getIOEventLoop :: "server \<Rightarrow> (loop_id \<times> server) result" where
  "server_getIOEventLoop sv =
     assert_that (CHECK_STATE (sv_state sv) STATE_RUNNING)
       (case sv_pool sv of
          None \<Rightarrow> Inl NullDeref
        | Some p \<Rightarrow> bnd (getIOEventLoop_index p) (\<lambda>(k, p1). Inr (Io k, sv\<lparr>sv_pool := Some p1\<rparr>)))"

definition handleNewConnection ::
  "event_env \<Rightarrow> (nat \<Rightarrow> bool) \<Rightarrow> nat \<Rightarrow> string \<Rightarrow> int \<Rightarrow> string \<Rightarrow> server \<Rightarrow> server result" where
  "handleNewConnection env ok tid uuid fd taddr sv =
     assert_that (CHECK_STATE (sv_state sv) STATE_RUNNING)
       (bnd (if sv_thread_num sv = 0 then Inr (Control, sv) else server_getIOEventLoop sv) (\<lambda>(l, sv1).
        bnd (Connection ok fd uuid taddr) (\<lambda>c0.
          let c = setCloseCallback True (setReadMessageCallback (sv_message_fn sv1) (setConnectionCallback (sv_conn_fn sv1) c0));
              i = sv_next sv1;
              sv2 = sv1\<lparr>sv_objs := (sv_objs sv1)(i \<mapsto> c), sv_home := (sv_home sv1)(i \<mapsto> l), sv_next := Suc i\<rparr>;
              sv3 = hashTableInsert (getUUID c) i sv2
          in server_send env tid l (AttachConn i) sv3)))"

text \<open>
  \<open>Connection::close\<close>, called from the thread \<open>tid\<close>: the closing is a task of the connection's loop, which
  keeps a reference.
\<close>

definition connection_close :: "event_env \<Rightarrow> nat \<Rightarrow> nat \<Rightarrow> server \<Rightarrow> server result" where
  "connection_close env tid i sv =
     (case (sv_objs sv i, sv_home sv i) of
        (Some c, Some l) \<Rightarrow> server_send env tid l (CloseConn i) sv
      | _ \<Rightarrow> Inl UseAfterFree)"

text \<open>The callbacks that a handler of a connection has called, and the thread that its handlers run on.\<close>

definition new_events :: "conn \<Rightarrow> conn \<Rightarrow> conn_event list" where
  "new_events c c1 = drop (length (cn_events c)) (cn_events c1)"

definition home_thread :: "nat \<Rightarrow> server \<Rightarrow> nat" where
  "home_thread i sv = (case sv_home sv i of None \<Rightarrow> 0 | Some l \<Rightarrow> el_thread (loop_of l sv))"

section \<open>The timing wheel\<close>

definition timingWheelInsert :: "entry \<Rightarrow> server \<Rightarrow> server result" where
  "timingWheelInsert e sv =
     (case sv_wheel sv of None \<Rightarrow> Inl NullDeref | Some w \<Rightarrow> bnd (wheel_push_back e w) (\<lambda>w1. Inr (sv\<lparr>sv_wheel := Some w1\<rparr>)))"

text \<open>The timer task of \<open>start\<close>; the result lists the entries destroyed.\<close>

definition wheel_tick :: "(entry \<Rightarrow> bool) \<Rightarrow> server \<Rightarrow> (entry list \<times> server) result" where
  "wheel_tick held sv =
     (case sv_wheel sv of
        None \<Rightarrow> Inl NullDeref
      | Some w \<Rightarrow> bnd (wheel_push_bucket held [] w) (\<lambda>(es, w1). Inr (es, sv\<lparr>sv_wheel := Some w1\<rparr>)))"

section \<open>Starting and stopping\<close>

definition startEventLoopPool :: "(nat \<Rightarrow> spawn_env) \<Rightarrow> nat \<Rightarrow> server \<Rightarrow> server result" where
  "startEventLoopPool spawn tid sv =
     (if 0 < sv_thread_num sv
      then case sv_pool sv of
             None \<Rightarrow> Inl NullDeref
           | Some p \<Rightarrow> bnd (autoStart spawn tid p) (\<lambda>(_, p1). Inr (sv\<lparr>sv_pool := Some p1\<rparr>))
      else Inr sv)"

definition stopEventLoopPool ::
  "(nat \<Rightarrow> server_task loop_pool \<Rightarrow> server_task loop_pool) \<Rightarrow> nat \<Rightarrow> server \<Rightarrow> server result" where
  "stopEventLoopPool tick tid sv =
     (if 0 < sv_thread_num sv
      then case sv_pool sv of
             None \<Rightarrow> Inl NullDeref
           | Some p \<Rightarrow> bnd (autoStop (\<lambda>_ lp. lp\<lparr>el_exit := True, el_state := STATE_STOPPED\<rparr>) tid StopLoop tick p) (\<lambda>(_, p1).
               Inr (sv\<lparr>sv_pool := Some p1\<rparr>))
      else Inr sv)"

text \<open>Up to the call of \<open>event_base_dispatch\<close> in mode 0.\<close>

definition server_start ::
  "listen_env \<Rightarrow> (nat \<Rightarrow> spawn_env) \<Rightarrow> event_env \<Rightarrow> nat \<Rightarrow> server \<Rightarrow> server result" where
  "server_start lenv spawn env tid sv =
     bnd (listener_listen lenv (sv_listener sv)) (\<lambda>ln.
     bnd (startEventLoopPool spawn tid (sv\<lparr>sv_listener := ln\<rparr>)) (\<lambda>sv1.
     bnd (server_send env tid Control StartTimer (sv1\<lparr>sv_timer := Some (newCycleTimer 1 True)\<rparr>)) (\<lambda>sv2.
     bnd (listener_accept (setNewConnCallback (sv_listener sv2))) (\<lambda>ln2.
     bnd (server_send env tid Control AttachListener (sv2\<lparr>sv_listener := ln2\<rparr>)) (\<lambda>sv3.
       let sv4 = sv3\<lparr>sv_state := STATE_RUNNING\<rparr> in
       if sv_mode sv4 = 0
       then bnd (dispatch_enter True (add_ok env) tid (sv_ctl sv4)) (\<lambda>lp. Inr (sv4\<lparr>sv_ctl := lp\<rparr>))
       else Inr sv4)))))"

text \<open>\<open>tid\<close> is the caller; the listener insists on the control loop's thread.\<close>

definition server_stop ::
  "(nat \<Rightarrow> server_task loop_pool \<Rightarrow> server_task loop_pool) \<Rightarrow> event_env \<Rightarrow> nat \<Rightarrow> server \<Rightarrow> server result" where
  "server_stop tick env tid sv =
     (let sv1 = sv\<lparr>sv_state := STATE_STOPPING\<rparr> in
      bnd (listener_stop (env\<lparr>on_loop := threadSafety tid (sv_ctl sv1)\<rparr>) (sv_listener sv1)) (\<lambda>ln.
      bnd (stopEventLoopPool tick tid (sv1\<lparr>sv_listener := ln\<rparr>)) (\<lambda>sv2.
        Inr (sv2\<lparr>sv_state := STATE_STOPPED\<rparr>))))"

section \<open>What the handlers of a connection leave alone\<close>

definition same_conn :: "conn \<Rightarrow> conn \<Rightarrow> bool" where
  "same_conn c c' \<longleftrightarrow> cn_id c' = cn_id c \<and> cn_conn_fn c' = cn_conn_fn c \<and> cn_read_fn c' = cn_read_fn c \<and>
     cn_write_complete_fn c' = cn_write_complete_fn c \<and> cn_close_fn c' = cn_close_fn c"

lemma attach_frame:
  "conn_attachToEventLoop env c = Inr c' \<Longrightarrow> same_conn c c' \<and> cn_read c' = cn_read c \<and> cn_write c' = cn_write c \<and>
     new_events c c' = (if cn_conn_fn c then [Connected] else [])"
  by (auto simp: conn_attachToEventLoop_def bnd_eq_Inr assert_that_eq_Inr same_conn_def new_events_def Let_def)

lemma close_frame:
  "netFdCloseHandle env c = Inr c' \<Longrightarrow> same_conn c c' \<and> cn_read c' = cn_read c \<and> cn_write c' = cn_write c \<and>
     new_events c c' = (if cn_close_fn c then [Closed] else [])"
  by (auto simp: netFdCloseHandle_def bnd_eq_Inr same_conn_def new_events_def Let_def)

lemma send_frame:
  assumes "conn_send_now env ok sr e m c = Inr c'" and "0 \<le> sr"
  shows "same_conn c c' \<and> cn_read c' = cn_read c"
proof -
  obtain u where u: "unreadBytes (cn_write c) = Inr u" using assms(1) by (auto simp: conn_send_now_def bnd_eq_Inr)
  define c1 where "c1 = c\<lparr>cn_sent := cn_sent c @ take (nat sr) (drop (off m) (obj m))\<rparr>"
  define c2 where "c2 = (if len m - nat sr = 0 \<and> cn_write_complete_fn c1 then c1\<lparr>cn_events := cn_events c1 @ [Write_complete]\<rparr> else c1)"
  have c2: "same_conn c c2" "cn_read c2 = cn_read c" by (simp_all add: c2_def c1_def same_conn_def)
  define finish where "finish k r x =
     (if 0 < r then bnd (bytes_at m k) (\<lambda>d. bnd (append ok d r (cn_write x)) (\<lambda>wb.
        bnd (enableEvents env False True (cn_chan x)) (\<lambda>ch. Inr (x\<lparr>cn_write := wb, cn_chan := ch\<rparr>))))
      else Inr x)" for k :: int and r and x :: conn
  have fin: "same_conn c c' \<and> cn_read c' = cn_read c" if "finish k r x = Inr c'" "same_conn c x \<and> cn_read x = cn_read c" for k r x
    using that by (cases "0 < r") (auto simp: finish_def bnd_eq_Inr same_conn_def)
  show ?thesis
  proof (cases "\<not> isWritable (cn_chan c) \<and> u = 0")
    case True
    have "conn_send_now env ok sr e m c = finish sr (len m - nat sr) c2"
      unfolding conn_send_now_def u bnd_Inr if_P [OF True] if_P [OF assms(2)] Let_def prod.case c2_def c1_def finish_def ..
    then show ?thesis using fin assms(1) c2 by metis
  next
    case False
    have "conn_send_now env ok sr e m c = finish 0 (len m) c"
      unfolding conn_send_now_def u bnd_Inr if_not_P [OF False] prod.case finish_def ..
    then show ?thesis using fin [of 0 "len m" c] assms(1) by (simp add: same_conn_def)
  qed
qed

lemma write_frame:
  "netFdWriteHandle env n e c = Inr c' \<Longrightarrow> 0 < n \<or> EVUTIL_ERR_RW_RETRIABLE e \<Longrightarrow> \<not> cn_write_complete_fn c \<Longrightarrow>
     same_conn c c' \<and> cn_read c' = cn_read c \<and> new_events c c' = []"
  by (auto simp: netFdWriteHandle_def bnd_eq_Inr assert_that_eq_Inr same_conn_def new_events_def Let_def split: if_splits)

lemma read_eof: "buf_wf (cn_read c) \<Longrightarrow> rv_ret rv \<le> 0 \<Longrightarrow> netFdReadHandle env ok rv c = netFdCloseHandle env c"
  by (simp add: netFdReadHandle_def netFdErrorHandle_def readv_failed RETRIABLE_ERROR_def)

end
