(* ===== verification/Server_Lifecycle.thy ===== *)
theory Server_Lifecycle
  imports Tcp_Server
begin

text \<open>
  The life of the connections of a server with a pool: accepted on the control loop, attached on a
  loop of the pool, closed there, removed from the table on the control loop and destroyed with the
  last reference. The invariant \<open>life\<close> is stated over the table, the objects and the numbers of
  pending tasks of each object, and every operation of the server is shown to keep it.
\<close>

section \<open>Phases of a connection\<close>

definition chan_closed :: "channel \<Rightarrow> bool" where
  "chan_closed ch \<longleftrightarrow> \<not> ch_event ch \<and> events ch = event_bits False False \<and> \<not> attached ch \<and> in_base ch = None"

text \<open>
  Waiting to be attached, open, or closed with a removal or another closing pending; \<open>tab\<close> says that the
  table has the connection, \<open>io\<close> and \<open>cl\<close> count its attachments and closings queued on the pool, \<open>rem\<close> its
  removals queued on the control loop.
\<close>

definition conn_phase :: "bool \<Rightarrow> nat \<Rightarrow> nat \<Rightarrow> nat \<Rightarrow> conn \<Rightarrow> bool" where
  "conn_phase tab io cl rem c \<longleftrightarrow> cn_close_fn c \<and>
     (io = 1 \<and> cl = 0 \<and> rem = 0 \<and> tab \<and> chan_sync False False (cn_chan c) \<or>
      io = 0 \<and> rem = 0 \<and> tab \<and> (\<exists>w. chan_sync True w (cn_chan c)) \<or>
      io = 0 \<and> 0 < cl + rem \<and> chan_closed (cn_chan c))"

text \<open>The table points to objects with that identifier, and identifiers are unique.\<close>

definition ids_ok :: "(string \<rightharpoonup> nat) \<Rightarrow> (nat \<rightharpoonup> string) \<Rightarrow> bool" where
  "ids_ok T I \<longleftrightarrow> (\<forall>u i. T u = Some i \<longrightarrow> I i = Some u) \<and> (\<forall>i j u. I i = Some u \<and> I j = Some u \<longrightarrow> i = j)"

definition ids :: "(nat \<rightharpoonup> conn) \<Rightarrow> nat \<rightharpoonup> string" where
  "ids B i = map_option cn_id (B i)"

definition life ::
  "(string \<rightharpoonup> nat) \<Rightarrow> (nat \<rightharpoonup> conn) \<Rightarrow> nat \<Rightarrow> nat list \<Rightarrow> (nat \<Rightarrow> nat) \<Rightarrow> (nat \<Rightarrow> nat) \<Rightarrow> (nat \<Rightarrow> nat) \<Rightarrow> bool" where
  "life T B n D io cl rem \<longleftrightarrow> ids_ok T (ids B) \<and>
     (\<forall>i c. B i = Some c \<longrightarrow> i < n \<and> i \<notin> set D \<and> conn_phase (T (cn_id c) = Some i) (io i) (cl i) (rem i) c) \<and>
     (\<forall>i. B i = None \<longrightarrow> io i = 0 \<and> cl i = 0 \<and> rem i = 0 \<and> (i < n \<longrightarrow> i \<in> set D)) \<and>
     distinct D \<and> (\<forall>i\<in>set D. i < n)"

lemma ids_same: "B i = Some c \<Longrightarrow> cn_id c' = cn_id c \<Longrightarrow> ids (B(i \<mapsto> c')) = ids B"
  by (rule ext) (simp add: ids_def)

lemma ids_new: "ids (B(i \<mapsto> c)) = (ids B)(i \<mapsto> cn_id c)"
  by (rule ext) (simp add: ids_def)

lemma ids_gone: "ids (B(i := None)) = (ids B)(i := None)"
  by (rule ext) (simp add: ids_def)

lemma ids_ok_new: "ids_ok T I \<Longrightarrow> I n = None \<Longrightarrow> \<forall>i. I i \<noteq> Some u \<Longrightarrow> ids_ok (T(u \<mapsto> n)) (I(n \<mapsto> u))"
  by (auto simp: ids_ok_def)

lemma ids_ok_unlist: "ids_ok T I \<Longrightarrow> ids_ok (T(u := None)) I"
  by (simp add: ids_ok_def)

lemma ids_ok_gone: "ids_ok T I \<Longrightarrow> I i = Some u \<Longrightarrow> ids_ok (T(u := None)) (I(i := None))"
  by (auto simp: ids_ok_def)

lemma life_phase:
  "life T B n D io cl rem \<Longrightarrow> B i = Some c \<Longrightarrow>
     i < n \<and> i \<notin> set D \<and> conn_phase (T (cn_id c) = Some i) (io i) (cl i) (rem i) c"
  by (simp add: life_def)

lemma life_none:
  "life T B n D io cl rem \<Longrightarrow> B i = None \<Longrightarrow> io i = 0 \<and> cl i = 0 \<and> rem i = 0 \<and> (i < n \<longrightarrow> i \<in> set D)"
  by (simp add: life_def)

lemma life_new: "life T B n D io cl rem \<Longrightarrow> B n = None \<and> n \<notin> set D"
  unfolding life_def by (metis less_irrefl not_None_eq)

text \<open>An object and its tasks change and everything else stays.\<close>

lemma life_update:
  assumes "life T B n D io cl rem" and "B i = Some c" and "cn_id c' = cn_id c"
    and "conn_phase (T (cn_id c) = Some i) (io' i) (cl' i) (rem' i) c'"
    and "\<And>j. j \<noteq> i \<Longrightarrow> io' j = io j \<and> cl' j = cl j \<and> rem' j = rem j"
  shows "life T (B(i \<mapsto> c')) n D io' cl' rem'"
proof -
  have "conn_phase (T (cn_id d) = Some j) (io' j) (cl' j) (rem' j) d \<and> j < n \<and> j \<notin> set D"
    if "(B(i \<mapsto> c')) j = Some d" for j d
    using that assms(2-5) life_phase [OF assms(1)] by (cases "j = i") auto
  moreover have "io' j = 0 \<and> cl' j = 0 \<and> rem' j = 0 \<and> (j < n \<longrightarrow> j \<in> set D)" if "(B(i \<mapsto> c')) j = None" for j
    using that assms(5) life_none [OF assms(1)] by (cases "j = i") auto
  ultimately show ?thesis using assms(1) ids_same [of B i c c', OF assms(2,3)] by (simp add: life_def)
qed

lemma life_accept:
  assumes "life T B n D io cl rem" and "\<forall>i. ids B i \<noteq> Some (cn_id c0)"
    and "cn_close_fn c0" and "chan_sync False False (cn_chan c0)"
  shows "life (T(cn_id c0 \<mapsto> n)) (B(n \<mapsto> c0)) (Suc n) D (io(n := 1)) cl rem"
proof -
  have n: "B n = None" "n \<notin> set D" "cl n = 0" "rem n = 0" using life_new [OF assms(1)] life_none [OF assms(1)] by auto
  then have "ids B n = None" by (simp add: ids_def)
  then have i: "ids_ok (T(cn_id c0 \<mapsto> n)) (ids (B(n \<mapsto> c0)))"
    using assms(1,2) unfolding ids_new life_def by (intro ids_ok_new) simp_all
  have "conn_phase ((T(cn_id c0 \<mapsto> n)) (cn_id d) = Some j) ((io(n := 1)) j) (cl j) (rem j) d \<and> j < Suc n \<and> j \<notin> set D"
    if "(B(n \<mapsto> c0)) j = Some d" for j d
  proof (cases "j = n")
    case True
    then show ?thesis using that n assms(3,4) by (auto simp: conn_phase_def)
  next
    case False
    then have d: "B j = Some d" using that by simp
    then have "cn_id d \<noteq> cn_id c0" using assms(2) by (metis ids_def option.simps(9))
    then show ?thesis using False life_phase [OF assms(1) d] by simp
  qed
  moreover have "(io(n := 1)) j = 0 \<and> cl j = 0 \<and> rem j = 0 \<and> (j < Suc n \<longrightarrow> j \<in> set D)" if "(B(n \<mapsto> c0)) j = None" for j
    using that life_none [OF assms(1)] by (cases "j = n") auto
  ultimately show ?thesis using assms(1) i by (auto simp: life_def)
qed

lemma life_attach:
  assumes "life T B n D io cl rem" and "B i = Some c" and "0 < io i"
  shows "chan_sync False False (cn_chan c) \<and> T (cn_id c) = Some i \<and> io i = 1 \<and>
    (\<forall>c' w. chan_sync True w (cn_chan c') \<and> cn_id c' = cn_id c \<and> cn_close_fn c' = cn_close_fn c \<longrightarrow>
      life T (B(i \<mapsto> c')) n D (io(i := io i - 1)) cl rem)"
proof -
  have "conn_phase (T (cn_id c) = Some i) (io i) (cl i) (rem i) c" using life_phase [OF assms(1,2)] by simp
  then have p: "io i = 1" "cl i = 0" "rem i = 0" "T (cn_id c) = Some i" "chan_sync False False (cn_chan c)" "cn_close_fn c"
    using assms(3) by (auto simp: conn_phase_def)
  have "life T (B(i \<mapsto> c')) n D (io(i := io i - 1)) cl rem"
    if "chan_sync True w (cn_chan c')" "cn_id c' = cn_id c" "cn_close_fn c' = cn_close_fn c" for c' w
    by (rule life_update [OF assms(1,2) that(2)]) (use p that in \<open>auto simp: conn_phase_def\<close>)
  then show ?thesis using p by blast
qed

text \<open>A closing, of which \<open>x\<close> more are then queued, queues a removal.\<close>

lemma life_close:
  assumes "life T B n D io cl rem" and "B i = Some c" and "io i = 0"
    and "chan_closed (cn_chan c')" and "cn_id c' = cn_id c" and "cn_close_fn c' = cn_close_fn c"
  shows "life T (B(i \<mapsto> c')) n D io (cl(i := x)) (rem(i := Suc (rem i)))"
proof -
  have "cn_close_fn c" using life_phase [OF assms(1,2)] by (simp add: conn_phase_def)
  then show ?thesis using assms(3-6) by (intro life_update [OF assms(1,2,5)]) (auto simp: conn_phase_def)
qed

lemma life_request:
  assumes "life T B n D io cl rem" and "B i = Some c" and "io i = 0"
  shows "life T B n D io (cl(i := Suc (cl i))) rem"
proof -
  have "life T (B(i \<mapsto> c)) n D io (cl(i := Suc (cl i))) rem"
    by (rule life_update [OF assms(1,2)]) (use assms(3) life_phase [OF assms(1,2)] in \<open>auto simp: conn_phase_def\<close>)
  then show ?thesis using assms(2) by (simp add: map_upd_triv)
qed

lemma life_active:
  assumes "life T B n D io cl rem" and "B i = Some c" and "chan_sync True w (cn_chan c)" and "chan_sync True w' (cn_chan c')"
    and "cn_id c' = cn_id c" and "cn_close_fn c' = cn_close_fn c"
  shows "life T (B(i \<mapsto> c')) n D io cl rem"
  by (rule life_update [OF assms(1,2,5)]) (use assms(3-6) life_phase [OF assms(1,2)] in
    \<open>auto simp: conn_phase_def chan_sync_def chan_closed_def\<close>)

lemma life_remove:
  assumes "life T B n D io cl rem" and "B i = Some c" and "0 < rem i"
  shows "chan_closed (cn_chan c) \<and> io i = 0 \<and>
    (1 < cl i + rem i \<longrightarrow> life (T(cn_id c := None)) B n D io cl (rem(i := rem i - 1))) \<and>
    (cl i + rem i = 1 \<longrightarrow> life (T(cn_id c := None)) (B(i := None)) n (D @ [i]) io cl (rem(i := 0)))"
proof -
  have p: "conn_phase (T (cn_id c) = Some i) (io i) (cl i) (rem i) c" "i < n" "i \<notin> set D"
    using life_phase [OF assms(1,2)] by simp_all
  then have q: "io i = 0" "chan_closed (cn_chan c)" "cn_close_fn c" using assms(3) by (auto simp: conn_phase_def)
  have I: "ids_ok T (ids B)" using assms(1) by (simp add: life_def)
  have Ii: "ids B i = Some (cn_id c)" using assms(2) by (simp add: ids_def)
  have other: "conn_phase ((T(cn_id c := None)) (cn_id d) = Some j) (io j) (cl j) (rem j) d" if "B j = Some d" "j \<noteq> i" for j d
  proof -
    have "ids B j = Some (cn_id d)" using that by (simp add: ids_def)
    then have "cn_id d \<noteq> cn_id c" using I Ii that(2) by (auto simp: ids_ok_def)
    then show ?thesis using life_phase [OF assms(1) that(1)] by simp
  qed
  have "life (T(cn_id c := None)) B n D io cl (rem(i := rem i - 1))" if r: "1 < cl i + rem i"
  proof -
    have "conn_phase ((T(cn_id c := None)) (cn_id d) = Some j) (io j) (cl j) ((rem(i := rem i - 1)) j) d \<and> j < n \<and> j \<notin> set D"
      if "B j = Some d" for j d
      using that assms(2) q r other life_phase [OF assms(1) that] by (cases "j = i") (auto simp: conn_phase_def)
    then show ?thesis using assms(1,2) ids_ok_unlist [OF I] by (auto simp: life_def)
  qed
  moreover have "life (T(cn_id c := None)) (B(i := None)) n (D @ [i]) io cl (rem(i := 0))" if r: "cl i + rem i = 1"
  proof -
    have "conn_phase ((T(cn_id c := None)) (cn_id d) = Some j) (io j) (cl j) ((rem(i := 0)) j) d \<and> j < n \<and> j \<notin> set (D @ [i])"
      if "(B(i := None)) j = Some d" for j d
      using that other [of j d] life_phase [OF assms(1), of j d] by (cases "j = i") auto
    moreover have "io j = 0 \<and> cl j = 0 \<and> (rem(i := 0)) j = 0 \<and> (j < n \<longrightarrow> j \<in> set (D @ [i]))"
      if "(B(i := None)) j = None" for j
      using that q(1) r assms(3) life_none [OF assms(1), of j] by (cases "j = i") auto
    ultimately show ?thesis using assms(1) ids_ok_gone [OF I Ii] p(2,3) by (auto simp: life_def ids_gone)
  qed
  ultimately show ?thesis using q by blast
qed

section \<open>The server's state\<close>

text \<open>
  A running server with a pool, whose loops do not run on the control thread; only attachments and
  closings are queued on the pool and only removals on the control loop.
\<close>

fun io_task :: "server_task \<Rightarrow> bool" where
  "io_task (AttachConn i) = True"
| "io_task (CloseConn i) = True"
| "io_task _ = False"

fun ctl_task :: "server_task \<Rightarrow> bool" where
  "ctl_task (RemoveConn i) = True"
| "ctl_task _ = False"

definition srv_ok :: "server \<Rightarrow> bool" where
  "srv_ok sv \<longleftrightarrow> sv_state sv = STATE_RUNNING \<and> sv_thread_num sv \<noteq> 0 \<and>
     (\<exists>p. sv_pool sv = Some p \<and> lp_state p = STATE_RUNNING \<and> lp_threads p \<noteq> []) \<and>
     (\<forall>th\<in>set (loops sv). el_thread (lt_loop th) \<noteq> el_thread (sv_ctl sv) \<and> list_all io_task (el_tasks (lt_loop th))) \<and>
     list_all ctl_task (el_tasks (sv_ctl sv))"

text \<open>Every connection belongs to a loop of the pool.\<close>

definition homes_ok :: "server \<Rightarrow> bool" where
  "homes_ok sv \<longleftrightarrow> (\<forall>i. sv_objs sv i \<noteq> None \<longrightarrow> (\<exists>k < length (loops sv). sv_home sv i = Some (Io k)))"

abbreviation attaching :: "server \<Rightarrow> nat \<Rightarrow> nat" where
  "attaching sv \<equiv> \<lambda>i. io_count (AttachConn i) sv"

abbreviation closings :: "server \<Rightarrow> nat \<Rightarrow> nat" where
  "closings sv \<equiv> \<lambda>i. io_count (CloseConn i) sv"

abbreviation removals :: "server \<Rightarrow> nat \<Rightarrow> nat" where
  "removals sv \<equiv> \<lambda>i. ctl_count (RemoveConn i) sv"

definition life_inv :: "server \<Rightarrow> bool" where
  "life_inv sv \<longleftrightarrow> srv_ok sv \<and> homes_ok sv \<and>
     life (sv_table sv) (sv_objs sv) (sv_next sv) (sv_destroyed sv) (attaching sv) (closings sv) (removals sv)"

lemma life_invD:
  "life_inv sv \<Longrightarrow> srv_ok sv"
  "life_inv sv \<Longrightarrow> homes_ok sv"
  "life_inv sv \<Longrightarrow> life (sv_table sv) (sv_objs sv) (sv_next sv) (sv_destroyed sv) (attaching sv) (closings sv) (removals sv)"
  by (simp_all add: life_inv_def)

text \<open>
  What the code of an application depends on: the connections with the tasks queued for them, the
  wheel and the callbacks. The lemmas below say what each operation changes of it.
\<close>

record server_view =
  vw_objs :: "nat \<rightharpoonup> conn"
  vw_attaching :: "nat \<Rightarrow> nat"
  vw_closings :: "nat \<Rightarrow> nat"
  vw_next :: nat
  vw_wheel :: "timing_wheel option"
  vw_conn_fn :: bool
  vw_message_fn :: bool

definition view :: "server \<Rightarrow> server_view" where
  "view sv = \<lparr>vw_objs = sv_objs sv, vw_attaching = attaching sv, vw_closings = closings sv, vw_next = sv_next sv,
     vw_wheel = sv_wheel sv, vw_conn_fn = sv_conn_fn sv, vw_message_fn = sv_message_fn sv\<rparr>"

lemma count_list_none: "list_all P ts \<Longrightarrow> \<not> P x \<Longrightarrow> count_list ts x = 0"
  by (induction ts) auto

lemma no_remove_on_io: "srv_ok sv \<Longrightarrow> io_count (RemoveConn i) sv = 0"
  unfolding io_count_def srv_ok_def
  by (auto intro!: sum_list_0 count_list_none [where P = io_task] simp: sum_list_eq_0_iff)

lemma only_remove_on_ctl: "srv_ok sv \<Longrightarrow> ctl_count (AttachConn i) sv = 0 \<and> ctl_count (CloseConn i) sv = 0"
  unfolding ctl_count_def srv_ok_def by (auto intro!: count_list_none [where P = ctl_task])

lemma io_tasks: "srv_ok sv \<Longrightarrow> k < length (loops sv) \<Longrightarrow> list_all io_task (el_tasks (loop_of (Io k) sv))"
  unfolding srv_ok_def by (metis loop_of.simps(2) nth_mem)

lemma io_thread: "srv_ok sv \<Longrightarrow> k < length (loops sv) \<Longrightarrow> el_thread (loop_of (Io k) sv) \<noteq> el_thread (sv_ctl sv)"
  unfolding srv_ok_def by (metis loop_of.simps(2) nth_mem)

lemma loops_set_loop: "loops (set_loop (Io k) lp sv) = (loops sv)[k := (loops sv ! k)\<lparr>lt_loop := lp\<rparr>]"
  by (cases "sv_pool sv") (simp_all add: loops_def)

lemma io_count_set_loop:
  "k < length (loops sv) \<Longrightarrow>
     io_count t (set_loop (Io k) lp sv) + count_list (el_tasks (loop_of (Io k) sv)) t = io_count t sv + count_list (el_tasks lp) t"
  using sum_list_move [of k "loops sv" "\<lambda>th. count_list (el_tasks (lt_loop th)) t" "(loops sv ! k)\<lparr>lt_loop := lp\<rparr>"]
  unfolding io_count_def loops_set_loop by simp

lemma io_count_push:
  "k < length (loops sv) \<Longrightarrow> el_tasks lp = el_tasks (loop_of (Io k) sv) @ [u] \<Longrightarrow>
     io_count t (set_loop (Io k) lp sv) = io_count t sv + (if t = u then 1 else 0)"
  using io_count_set_loop [of k sv t lp] by simp

lemma io_count_pop:
  "k < length (loops sv) \<Longrightarrow> el_tasks (loop_of (Io k) sv) = u # el_tasks lp \<Longrightarrow>
     io_count t (set_loop (Io k) lp sv) = io_count t sv - (if t = u then 1 else 0)"
  using io_count_set_loop [of k sv t lp] by (simp split: if_splits)

text \<open>Queueing on a loop of another thread.\<close>

lemma sendToQueue_other:
  "\<not> threadSafety tid lp \<Longrightarrow> el_tasks (sendToQueue exec tid t lp) = el_tasks lp @ [t] \<and>
     el_thread (sendToQueue exec tid t lp) = el_thread lp"
  by (simp add: sendToQueue_def Let_def)

text \<open>A loop of the pool changes only its queue.\<close>

lemma srv_ok_set_io:
  assumes "srv_ok sv" and "k < length (loops sv)" and "el_thread lp = el_thread (loop_of (Io k) sv)"
    and "list_all io_task (el_tasks lp)"
  shows "srv_ok (set_loop (Io k) lp sv)"
proof -
  obtain p where p: "sv_pool sv = Some p" "lp_state p = STATE_RUNNING" "lp_threads p \<noteq> []" using assms(1) by (auto simp: srv_ok_def)
  have "el_thread (lt_loop th) \<noteq> el_thread (sv_ctl sv) \<and> list_all io_task (el_tasks (lt_loop th))"
    if "th \<in> set (loops (set_loop (Io k) lp sv))" for th
  proof -
    have "th \<in> insert ((loops sv ! k)\<lparr>lt_loop := lp\<rparr>) (set (loops sv))"
      using that set_update_subset_insert unfolding loops_set_loop by (metis subsetD)
    moreover have "loops sv ! k \<in> set (loops sv)" using assms(2) by simp
    ultimately show ?thesis using assms(1,3,4) by (auto simp: srv_ok_def)
  qed
  then show ?thesis using assms(1) p by (auto simp: srv_ok_def)
qed

lemma srv_ok_cong:
  assumes "srv_ok sv" and "sv_state sv' = sv_state sv" and "sv_thread_num sv' = sv_thread_num sv"
    and "sv_pool sv' = sv_pool sv" and "el_thread (sv_ctl sv') = el_thread (sv_ctl sv)"
    and "list_all ctl_task (el_tasks (sv_ctl sv'))"
  shows "srv_ok sv'"
  using assms by (auto simp: srv_ok_def loops_def)

lemma homes_ok_cong:
  "homes_ok sv \<Longrightarrow> dom (sv_objs sv') \<subseteq> dom (sv_objs sv) \<Longrightarrow> sv_home sv' = sv_home sv \<Longrightarrow>
     length (loops sv') = length (loops sv) \<Longrightarrow> homes_ok sv'"
  unfolding homes_ok_def by (metis domIff subset_eq)

section \<open>Every operation keeps the invariant\<close>

lemma Connection_new:
  assumes "0 < fd" and "uuid \<noteq> []" and "taddr \<noteq> []" and "ok (RESERVED_PREPEND_SIZE + INIT_BUFFER_SIZE)"
  shows "\<exists>c. Connection ok fd uuid taddr = Inr c \<and> cn_id c = uuid \<and> chan_sync False False (cn_chan c)"
proof -
  obtain b where "ByteBuffer ok RESERVED_PREPEND_SIZE INIT_BUFFER_SIZE = Inr b"
    using ByteBuffer_wf [of RESERVED_PREPEND_SIZE INIT_BUFFER_SIZE ok] assms(4)
    by (auto simp: RESERVED_PREPEND_SIZE_def INIT_BUFFER_SIZE_def size_mod_def)
  then show ?thesis using assms
    by (simp add: Connection_def Channel_def setReadCallback_def setWriteCallback_def chan_sync_def event_bits_def bnd_simps)
qed

lemma conn_attach:
  assumes "chan_sync False False (cn_chan c)" and "good_env env"
  shows "\<exists>c'. conn_attachToEventLoop env c = Inr c' \<and> chan_sync True False (cn_chan c') \<and> cn_id c' = cn_id c \<and>
    cn_close_fn c' = cn_close_fn c"
proof -
  obtain ch where "enableEvents env True False (cn_chan c) = Inr ch" "chan_sync True False ch"
    using enable_sync [OF assms, of True False] by auto
  then show ?thesis using assms(2) by (simp add: conn_attachToEventLoop_def good_env_def bnd_simps Let_def)
qed

lemma conn_closes:
  assumes "(\<exists>w. chan_sync True w (cn_chan c)) \<or> chan_closed (cn_chan c)" and "good_env env"
  shows "\<exists>c'. netFdCloseHandle env c = Inr c' \<and> chan_closed (cn_chan c') \<and> cn_id c' = cn_id c \<and> cn_close_fn c' = cn_close_fn c"
  using assms(1)
proof
  assume "\<exists>w. chan_sync True w (cn_chan c)"
  then obtain w ch where "disableAllEvents env (cn_chan c) = Inr ch" "chan_sync False False ch"
    using disable_all_sync [OF _ assms(2)] by blast
  then show ?thesis
    by (simp add: netFdCloseHandle_def channel_close_def chan_sync_def chan_closed_def detachFromEventLoop_def Let_def)
next
  assume "chan_closed (cn_chan c)"
  then show ?thesis
    by (simp add: netFdCloseHandle_def disableAllEvents_def channel_close_def chan_closed_def ATP_NONE_EVENT_def event_bits_def Let_def)
qed

lemma accept_keeps:
  assumes inv: "life_inv sv" and args: "0 < fd" "uuid \<noteq> []" "taddr \<noteq> []"
    and ok: "ok (RESERVED_PREPEND_SIZE + INIT_BUFFER_SIZE)" and fresh: "\<forall>i. ids (sv_objs sv) i \<noteq> Some uuid"
  shows "\<exists>c0 sv'. Connection ok fd uuid taddr = Inr c0 \<and>
    handleNewConnection env ok (el_thread (sv_ctl sv)) uuid fd taddr sv = Inr sv' \<and> life_inv sv' \<and>
    view sv' = (view sv)\<lparr>vw_objs := (sv_objs sv)(sv_next sv \<mapsto>
        setCloseCallback True (setReadMessageCallback (sv_message_fn sv) (setConnectionCallback (sv_conn_fn sv) c0))),
      vw_attaching := (attaching sv)(sv_next sv := 1), vw_next := Suc (sv_next sv)\<rparr>"
proof -
  note so = life_invD(1) [OF inv] and ho = life_invD(2) [OF inv] and li = life_invD(3) [OF inv]
  obtain p where p: "sv_pool sv = Some p" "lp_state p = STATE_RUNNING" "lp_threads p \<noteq> []" using so by (auto simp: srv_ok_def)
  define k where "k = int_to_size (lp_index p) mod length (lp_threads p)"
  have k: "k < length (loops sv)" using p by (simp add: k_def loops_def)
  define sv1 where "sv1 = sv\<lparr>sv_pool := Some (p\<lparr>lp_index := int_wrap (lp_index p + 1)\<rparr>)\<rparr>"
  have get: "server_getIOEventLoop sv = Inr (Io k, sv1)"
    using so p by (simp add: server_getIOEventLoop_def getIOEventLoop_index_def srv_ok_def k_def sv1_def Let_def bnd_simps)
  obtain c0 where c0: "Connection ok fd uuid taddr = Inr c0" "cn_id c0 = uuid" "chan_sync False False (cn_chan c0)"
    using Connection_new [of fd uuid taddr ok] args ok by blast
  define c where "c = setCloseCallback True (setReadMessageCallback (sv_message_fn sv1) (setConnectionCallback (sv_conn_fn sv1) c0))"
  have c: "cn_id c = uuid" "chan_sync False False (cn_chan c)" "cn_close_fn c"
    using c0 by (simp_all add: c_def setCloseCallback_def setReadMessageCallback_def setConnectionCallback_def)
  have tab: "sv_table sv uuid = None" using li fresh by (cases "sv_table sv uuid") (auto simp: life_def ids_ok_def)
  define sv3 where "sv3 = sv1\<lparr>sv_objs := (sv_objs sv)(sv_next sv \<mapsto> c), sv_home := (sv_home sv)(sv_next sv \<mapsto> Io k),
    sv_next := Suc (sv_next sv), sv_table := (sv_table sv)(uuid \<mapsto> sv_next sv)\<rparr>"
  have same: "loops sv3 = loops sv" "sv_ctl sv3 = sv_ctl sv" using p by (simp_all add: sv3_def sv1_def loops_def)
  have so3: "srv_ok sv3" using so p same by (simp add: srv_ok_def) (simp add: sv3_def sv1_def)
  let ?lp = "loop_of (Io k) sv3" and ?tid = "el_thread (sv_ctl sv)"
  have notme: "\<not> threadSafety ?tid ?lp" using io_thread [OF so k] same by (simp add: threadSafety_def)
  define lp' where "lp' = sendToQueue (\<lambda>_ lp. lp) ?tid (AttachConn (sv_next sv)) ?lp"
  have lp': "el_tasks lp' = el_tasks ?lp @ [AttachConn (sv_next sv)]" "el_thread lp' = el_thread ?lp"
    using sendToQueue_other [OF notme] by (simp_all add: lp'_def)
  define sv4 where "sv4 = set_loop (Io k) lp' sv3"
  have run: "handleNewConnection env ok ?tid uuid fd taddr sv = Inr sv4"
    using so get c0(1) c(1) tab notme
    by (simp add: handleNewConnection_def srv_ok_def Let_def c_def [symmetric] hashTableInsert_def getUUID_def server_send_def
        post_def lp'_def sv4_def bnd_simps) (simp add: sv3_def sv1_def)
  have so4: "srv_ok sv4" unfolding sv4_def using so3 k same lp' io_tasks [OF so3, of k] by (intro srv_ok_set_io) auto
  have io: "io_count t sv4 = io_count t sv + (if t = AttachConn (sv_next sv) then 1 else 0)" for t
    using io_count_push [of k sv3 lp' _ t] k same lp'(1) by (simp add: sv4_def io_count_def)
  have "attaching sv (sv_next sv) = 0" using life_none [OF li] life_new [OF li] by simp
  then have io': "attaching sv4 = (attaching sv)(sv_next sv := 1)" "closings sv4 = closings sv"
    using io by (auto simp: fun_eq_iff)
  have "loops sv4 = (loops sv)[k := (loops sv ! k)\<lparr>lt_loop := lp'\<rparr>]" using loops_set_loop [of k lp' sv3] same by (simp add: sv4_def)
  then have "homes_ok sv4" using ho k by (simp add: homes_ok_def) (simp add: sv4_def sv3_def sv1_def)
  then have "life_inv sv4" using so4 life_accept [OF li, of c] fresh c io'
    by (simp add: life_inv_def) (simp add: sv4_def sv3_def sv1_def ctl_count_def)
  moreover have "view sv4 = (view sv)\<lparr>vw_objs := (sv_objs sv)(sv_next sv \<mapsto> c),
      vw_attaching := (attaching sv)(sv_next sv := 1), vw_next := Suc (sv_next sv)\<rparr>"
    using io' by (simp add: view_def) (simp add: sv4_def sv3_def sv1_def)
  moreover have "c = setCloseCallback True (setReadMessageCallback (sv_message_fn sv) (setConnectionCallback (sv_conn_fn sv) c0))"
    by (simp add: c_def sv1_def)
  ultimately show ?thesis using run c0(1) by blast
qed

text \<open>A loop of the pool takes its first task.\<close>

definition pop_task :: "nat \<Rightarrow> server \<Rightarrow> server" where
  "pop_task k sv = (let lp = loop_of (Io k) sv in set_loop (Io k) (lp\<lparr>el_tasks := tl (el_tasks lp), el_pending := el_pending lp - 1\<rparr>) sv)"

lemma pop_task_same:
  "sv_objs (pop_task k sv) = sv_objs sv" "sv_table (pop_task k sv) = sv_table sv" "sv_next (pop_task k sv) = sv_next sv"
  "sv_destroyed (pop_task k sv) = sv_destroyed sv" "sv_ctl (pop_task k sv) = sv_ctl sv" "sv_home (pop_task k sv) = sv_home sv"
  "length (loops (pop_task k sv)) = length (loops sv)" "sv_wheel (pop_task k sv) = sv_wheel sv"
  "sv_conn_fn (pop_task k sv) = sv_conn_fn sv" "sv_message_fn (pop_task k sv) = sv_message_fn sv"
  unfolding pop_task_def Let_def loops_set_loop by simp_all

lemma pop_task_ok:
  assumes "srv_ok sv" and k: "k < length (loops sv)" and q: "el_tasks (loop_of (Io k) sv) = t # ts"
  shows "srv_ok (pop_task k sv) \<and> next_task env (Io k) sv = run_task env (Io k) t (pop_task k sv) \<and>
    el_thread (loop_of (Io k) (pop_task k sv)) = el_thread (loop_of (Io k) sv) \<and>
    (\<forall>u. io_count u (pop_task k sv) = io_count u sv - (if u = t then 1 else 0)) \<and> 0 < io_count t sv \<and> io_task t"
proof -
  let ?lp = "(loop_of (Io k) sv)\<lparr>el_tasks := ts, el_pending := el_pending (loop_of (Io k) sv) - 1\<rparr>"
  have pop: "pop_task k sv = set_loop (Io k) ?lp sv" using q by (simp add: pop_task_def Let_def)
  have ts: "list_all io_task (t # ts)" using io_tasks [OF assms(1) k] q by simp
  have "srv_ok (pop_task k sv)" unfolding pop by (rule srv_ok_set_io [OF assms(1) k]) (use ts in simp_all)
  moreover have "el_thread (loop_of (Io k) (pop_task k sv)) = el_thread (loop_of (Io k) sv)"
    using k unfolding pop loop_of.simps(2) loops_set_loop by simp
  moreover have "next_task env (Io k) sv = run_task env (Io k) t (pop_task k sv)" using q by (simp add: next_task_def pop)
  moreover have "io_count u (pop_task k sv) = io_count u sv - (if u = t then 1 else 0)" for u
    unfolding pop by (rule io_count_pop [OF k]) (use q in simp)
  moreover have "0 < io_count t sv" using io_count_set_loop [OF k, of t ?lp] q by simp
  ultimately show ?thesis using ts by simp
qed

text \<open>The attachment that a loop of the pool has taken.\<close>

lemma attach_keeps:
  assumes inv: "life_inv sv" and k: "k < length (loops sv)" and env: "good_env env"
    and q: "el_tasks (loop_of (Io k) sv) = AttachConn i # ts"
  shows "\<exists>c c'. sv_objs sv i = Some c \<and> attaching sv i = 1 \<and> conn_attachToEventLoop env c = Inr c' \<and>
    chan_sync False False (cn_chan c) \<and> chan_sync True False (cn_chan c') \<and>
    (\<exists>sv'. next_task env (Io k) sv = Inr sv' \<and> life_inv sv' \<and>
      view sv' = (view sv)\<lparr>vw_objs := (sv_objs sv)(i \<mapsto> c'), vw_attaching := (attaching sv)(i := 0)\<rparr>)"
proof -
  note so = life_invD(1) [OF inv] and ho = life_invD(2) [OF inv] and li = life_invD(3) [OF inv]
  let ?p = "pop_task k sv"
  note pop = pop_task_ok [OF so k q, of env]
  have pos: "0 < attaching sv i" using pop by simp
  then obtain c where c: "sv_objs sv i = Some c" using life_none [OF li, of i] by (cases "sv_objs sv i") auto
  note at = life_attach [OF li c pos]
  obtain c' where c': "conn_attachToEventLoop env c = Inr c'" "chan_sync True False (cn_chan c')" "cn_id c' = cn_id c"
    "cn_close_fn c' = cn_close_fn c" using conn_attach [OF conjunct1 [OF at] env] by blast
  define sv2 where "sv2 = ?p\<lparr>sv_objs := (sv_objs sv)(i \<mapsto> c')\<rparr>"
  have counts: "io_count t sv2 = io_count t ?p" "ctl_count t sv2 = ctl_count t sv" "length (loops sv2) = length (loops ?p)" for t
    by (simp_all add: sv2_def io_count_def loops_def ctl_count_def pop_task_same)
  have "next_task env (Io k) sv = Inr sv2"
    using pop c c' at by (simp add: drop_reference_def referenced_def getUUID_def sv2_def bnd_simps pop_task_same)
  moreover have "srv_ok sv2" by (rule srv_ok_cong [of ?p]) (use pop so in \<open>auto simp: sv2_def srv_ok_def\<close>)
  moreover have "homes_ok sv2" by (rule homes_ok_cong [OF ho]) (use c counts in \<open>auto simp: sv2_def pop_task_same\<close>)
  moreover have cnt: "attaching sv2 = (attaching sv)(i := attaching sv i - 1)" "closings sv2 = closings sv"
    using pop counts by (auto simp: fun_eq_iff)
  moreover have "life (sv_table sv) ((sv_objs sv)(i \<mapsto> c')) (sv_next sv) (sv_destroyed sv)
      ((attaching sv)(i := attaching sv i - 1)) (closings sv) (removals sv)"
    using at c' by blast
  ultimately have "life_inv sv2" using counts by (simp add: life_inv_def) (simp add: sv2_def pop_task_same)
  moreover have "view sv2 = (view sv)\<lparr>vw_objs := (sv_objs sv)(i \<mapsto> c'), vw_attaching := (attaching sv)(i := 0)\<rparr>"
    using cnt at by (simp add: view_def) (simp add: sv2_def pop_task_same)
  ultimately show ?thesis using c c' at \<open>next_task env (Io k) sv = Inr sv2\<close> by blast
qed

text \<open>What closing does: the channel is shut and a removal is queued on the control loop.\<close>

definition closed_by :: "server \<Rightarrow> nat \<Rightarrow> conn \<Rightarrow> server \<Rightarrow> bool" where
  "closed_by sv i c' sv' \<longleftrightarrow> chan_closed (cn_chan c') \<and> (\<exists>lp. sv' = sv\<lparr>sv_objs := (sv_objs sv)(i \<mapsto> c'), sv_ctl := lp\<rparr> \<and>
     el_tasks lp = el_tasks (sv_ctl sv) @ [RemoveConn i] \<and> el_thread lp = el_thread (sv_ctl sv))"

lemma closes_run:
  assumes "sv_objs sv i = Some c" and "cn_close_fn c" and "(\<exists>w. chan_sync True w (cn_chan c)) \<or> chan_closed (cn_chan c)"
    and "good_env env" and "tid \<noteq> el_thread (sv_ctl sv)"
  shows "\<exists>c' sv'. netFdCloseHandle env c = Inr c' \<and> connection_closes env tid i sv = Inr sv' \<and> closed_by sv i c' sv' \<and>
    cn_id c' = cn_id c \<and> cn_close_fn c' = cn_close_fn c"
proof -
  obtain c' where c': "netFdCloseHandle env c = Inr c'" "chan_closed (cn_chan c')" "cn_id c' = cn_id c"
    "cn_close_fn c' = cn_close_fn c" using conn_closes [OF assms(3,4)] by blast
  have notme: "\<not> threadSafety tid (sv_ctl sv)" using assms(5) by (simp add: threadSafety_def)
  let ?lp = "sendToQueue (\<lambda>_ lp. lp) tid (RemoveConn i) (sv_ctl sv)"
  have "connection_closes env tid i sv = Inr (sv\<lparr>sv_objs := (sv_objs sv)(i \<mapsto> c'), sv_ctl := ?lp\<rparr>)"
    using assms(1,2) c' notme by (simp add: connection_closes_def handleCloseConnection_def post_def Let_def bnd_simps)
  then show ?thesis using c' sendToQueue_other [OF notme] unfolding closed_by_def by blast
qed

lemma closed_by_same:
  assumes "closed_by sv i c' sv'"
  shows "sv_objs sv' = (sv_objs sv)(i \<mapsto> c')" "sv_table sv' = sv_table sv" "sv_next sv' = sv_next sv"
    "sv_destroyed sv' = sv_destroyed sv" "sv_home sv' = sv_home sv" "loops sv' = loops sv" "io_count t sv' = io_count t sv"
    "ctl_count t sv' = ctl_count t sv + (if t = RemoveConn i then 1 else 0)" "sv_wheel sv' = sv_wheel sv" "sv_pool sv' = sv_pool sv"
    "el_thread (sv_ctl sv') = el_thread (sv_ctl sv)" "chan_closed (cn_chan c')"
    "view sv' = (view sv)\<lparr>vw_objs := (sv_objs sv)(i \<mapsto> c')\<rparr>"
  using assms unfolding view_def by (auto simp: closed_by_def loops_def io_count_def ctl_count_def)

text \<open>Closing keeps the invariant, also when it is a queued task, of which \<open>sv\<close> no longer has the reference.\<close>

lemma closed_keeps:
  assumes so: "srv_ok sv" and ho: "homes_ok sv" and c: "sv_objs sv i = Some c"
    and li: "life (sv_table sv) (sv_objs sv) (sv_next sv) (sv_destroyed sv) (attaching sv) cl (removals sv)"
    and at: "attaching sv i = 0" and cl: "\<And>j. j \<noteq> i \<Longrightarrow> closings sv j = cl j"
    and cb: "closed_by sv i c' sv'" and same: "cn_id c' = cn_id c" "cn_close_fn c' = cn_close_fn c"
  shows "life_inv sv'"
proof -
  note f = closed_by_same [OF cb]
  have "srv_ok sv'" by (rule srv_ok_cong [OF so]) (use cb so in \<open>auto simp: closed_by_def srv_ok_def\<close>)
  moreover have "homes_ok sv'" by (rule homes_ok_cong [OF ho]) (use c in \<open>auto simp: f\<close>)
  moreover have "removals sv' = (removals sv)(i := Suc (removals sv i))" "closings sv' = cl(i := closings sv i)"
    "attaching sv' = attaching sv" using cl by (auto simp: fun_eq_iff f)
  moreover have "life (sv_table sv) ((sv_objs sv)(i \<mapsto> c')) (sv_next sv) (sv_destroyed sv) (attaching sv)
      (cl(i := closings sv i)) ((removals sv)(i := Suc (removals sv i)))"
    by (rule life_close [OF li c at _ same]) (use cb in \<open>simp add: closed_by_def\<close>)
  ultimately show ?thesis by (simp add: life_inv_def f)
qed

lemma attached_phase:
  assumes "life_inv sv" and "sv_objs sv i = Some c" and "attaching sv i = 0"
  shows "cn_close_fn c \<and> ((\<exists>w. chan_sync True w (cn_chan c)) \<or> chan_closed (cn_chan c))"
  using life_phase [OF life_invD(3) [OF assms(1)] assms(2)] assms(3) by (auto simp: conn_phase_def)

lemma close_keeps:
  assumes inv: "life_inv sv" and c: "sv_objs sv i = Some c" and at: "attaching sv i = 0"
    and env: "good_env env" and tid: "tid \<noteq> el_thread (sv_ctl sv)"
  shows "\<exists>c' sv'. netFdCloseHandle env c = Inr c' \<and> connection_closes env tid i sv = Inr sv' \<and> closed_by sv i c' sv' \<and> life_inv sv'"
proof -
  obtain c' sv' where r: "connection_closes env tid i sv = Inr sv'" "closed_by sv i c' sv'" "cn_id c' = cn_id c"
    "cn_close_fn c' = cn_close_fn c" "netFdCloseHandle env c = Inr c'"
    using closes_run [OF c _ _ env tid] attached_phase [OF inv c at] by metis
  have "life_inv sv'" by (rule closed_keeps [OF life_invD(1,2) [OF inv] c life_invD(3) [OF inv] at _ r(2-4)]) simp
  then show ?thesis using r by blast
qed

text \<open>A closing as a task of the loop \<open>k\<close>, which runs in a state \<open>sv1\<close> without it.\<close>

lemma close_task:
  assumes inv: "life_inv sv" and c: "sv_objs sv i = Some c" and at: "attaching sv i = 0" and k: "k < length (loops sv)"
    and env: "good_env env" and so1: "srv_ok sv1" and obj: "sv_objs sv1 = sv_objs sv" "sv_table sv1 = sv_table sv"
      "sv_next sv1 = sv_next sv" "sv_destroyed sv1 = sv_destroyed sv" "sv_home sv1 = sv_home sv"
      "length (loops sv1) = length (loops sv)" "removals sv1 = removals sv" "attaching sv1 = attaching sv"
    and cl: "\<And>j. j \<noteq> i \<Longrightarrow> closings sv1 j = closings sv j"
  shows "\<exists>c' sv'. netFdCloseHandle env c = Inr c' \<and> run_task env (Io k) (CloseConn i) sv1 = Inr sv' \<and> closed_by sv1 i c' sv' \<and>
    life_inv sv'"
proof -
  note li = life_invD(3) [OF inv] and ph = attached_phase [OF inv c at]
  have ho1: "homes_ok sv1" by (rule homes_ok_cong [OF life_invD(2) [OF inv]]) (simp_all add: obj)
  have tid: "el_thread (loop_of (Io k) sv1) \<noteq> el_thread (sv_ctl sv1)" using io_thread [OF so1, of k] k obj(6) by simp
  obtain c' sv' where r: "connection_closes env (el_thread (loop_of (Io k) sv1)) i sv1 = Inr sv'" "closed_by sv1 i c' sv'"
    "cn_id c' = cn_id c" "cn_close_fn c' = cn_close_fn c" "netFdCloseHandle env c = Inr c'"
    using closes_run [OF _ _ _ env tid, of i c] ph c obj(1) by metis
  have "drop_reference i sv' = Inr sv'"
    using closed_by_same [OF r(2)] by (simp add: drop_reference_def referenced_def)
  then have "run_task env (Io k) (CloseConn i) sv1 = Inr sv'" using r(1) env by (simp add: good_env_def bnd_simps)
  moreover have "life_inv sv'"
  proof (rule closed_keeps [OF so1 ho1 _ _ _ _ r(2-4)])
    show "life (sv_table sv1) (sv_objs sv1) (sv_next sv1) (sv_destroyed sv1) (attaching sv1) (closings sv) (removals sv1)"
      using li unfolding obj .
  qed (use c at cl obj in \<open>simp_all add: fun_eq_iff\<close>)
  ultimately show ?thesis using r(2,5) by blast
qed

lemma closing_task:
  assumes inv: "life_inv sv" and k: "k < length (loops sv)" and env: "good_env env"
    and q: "el_tasks (loop_of (Io k) sv) = CloseConn i # ts"
  shows "\<exists>c c' sv'. sv_objs sv i = Some c \<and> attaching sv i = 0 \<and> netFdCloseHandle env c = Inr c' \<and> chan_closed (cn_chan c') \<and>
    next_task env (Io k) sv = Inr sv' \<and> life_inv sv' \<and>
    view sv' = (view sv)\<lparr>vw_objs := (sv_objs sv)(i \<mapsto> c'), vw_closings := (closings sv)(i := closings sv i - 1)\<rparr>"
proof -
  note li = life_invD(3) [OF inv] and pop = pop_task_ok [OF life_invD(1) [OF inv] k q, of env]
  have pos: "0 < closings sv i" using pop by simp
  then obtain c where c: "sv_objs sv i = Some c" using life_none [OF li, of i] by (cases "sv_objs sv i") auto
  have at: "attaching sv i = 0" using life_phase [OF li c] pos by (auto simp: conn_phase_def)
  have "\<exists>c' sv'. netFdCloseHandle env c = Inr c' \<and> run_task env (Io k) (CloseConn i) (pop_task k sv) = Inr sv' \<and>
      closed_by (pop_task k sv) i c' sv' \<and> life_inv sv'"
    by (rule close_task [OF inv c at k env]) (use pop in \<open>simp_all add: pop_task_same ctl_count_def fun_eq_iff\<close>)
  then obtain c' sv' where r: "netFdCloseHandle env c = Inr c'" "run_task env (Io k) (CloseConn i) (pop_task k sv) = Inr sv'"
    "closed_by (pop_task k sv) i c' sv'" "life_inv sv'" by blast
  have "closings (pop_task k sv) = (closings sv)(i := closings sv i - 1)" "attaching (pop_task k sv) = attaching sv"
    using pop by (auto simp: fun_eq_iff)
  then have "view sv' = (view sv)\<lparr>vw_objs := (sv_objs sv)(i \<mapsto> c'), vw_closings := (closings sv)(i := closings sv i - 1)\<rparr>"
    unfolding closed_by_same(13) [OF r(3)] by (simp add: view_def pop_task_same)
  then show ?thesis using c at r pop closed_by_same(12) [OF r(3)] by auto
qed

lemma io_keeps:
  assumes inv: "life_inv sv" and k: "k < length (loops sv)" and env: "good_env env"
  shows "\<exists>sv'. next_task env (Io k) sv = Inr sv' \<and> life_inv sv'"
proof (cases "el_tasks (loop_of (Io k) sv)")
  case Nil
  then show ?thesis using inv by (simp add: next_task_def)
next
  case (Cons t ts)
  note pop = pop_task_ok [OF life_invD(1) [OF inv] k Cons, of env]
  show ?thesis
  proof (cases t)
    case (AttachConn i)
    then show ?thesis using attach_keeps [OF inv k env] Cons by blast
  next
    case (CloseConn i)
    then show ?thesis using closing_task [OF inv k env] Cons by blast
  qed (use pop in simp_all)
qed

text \<open>A call of \<open>close\<close> from any thread: it closes on the connection's own thread and is queued elsewhere.\<close>

lemma close_call_keeps:
  assumes inv: "life_inv sv" and c: "sv_objs sv i = Some c" and at: "attaching sv i = 0" and env: "good_env env"
  shows "\<exists>sv'. connection_close env tid i sv = Inr sv' \<and> life_inv sv' \<and>
    (tid = el_thread (sv_ctl sv) \<longrightarrow> el_thread (sv_ctl sv') = tid \<and>
      view sv' = (view sv)\<lparr>vw_closings := (closings sv)(i := Suc (closings sv i))\<rparr>)"
proof -
  note so = life_invD(1) [OF inv] and ho = life_invD(2) [OF inv] and li = life_invD(3) [OF inv]
  obtain k where k: "k < length (loops sv)" "sv_home sv i = Some (Io k)" using ho c by (auto simp: homes_ok_def)
  then have call: "connection_close env tid i sv = post (run_task env (Io k)) tid (Io k) (CloseConn i) sv"
    using c by (simp add: connection_close_def server_send_def)
  show ?thesis
  proof (cases "threadSafety tid (loop_of (Io k) sv)")
    case True
    have "\<exists>c' sv'. netFdCloseHandle env c = Inr c' \<and> run_task env (Io k) (CloseConn i) sv = Inr sv' \<and> closed_by sv i c' sv' \<and>
        life_inv sv'"
      by (rule close_task [OF inv c at k(1) env so]) simp_all
    then show ?thesis using call True io_thread [OF so k(1)] by (auto simp: post_def threadSafety_def)
  next
    case False
    define lp where "lp = sendToQueue (\<lambda>_ lp. lp) tid (CloseConn i) (loop_of (Io k) sv)"
    have lp: "el_tasks lp = el_tasks (loop_of (Io k) sv) @ [CloseConn i]" "el_thread lp = el_thread (loop_of (Io k) sv)"
      using sendToQueue_other [OF False] by (simp_all add: lp_def)
    define sv1 where "sv1 = set_loop (Io k) lp sv"
    have "srv_ok sv1" unfolding sv1_def using so k lp io_tasks [OF so k(1)] by (intro srv_ok_set_io) auto
    moreover have "length (loops sv1) = length (loops sv)" by (simp only: sv1_def loops_set_loop length_list_update)
    then have "homes_ok sv1" by (rule homes_ok_cong [OF ho, rotated 2]) (simp_all add: sv1_def)
    moreover have cnt: "attaching sv1 = attaching sv" "closings sv1 = (closings sv)(i := Suc (closings sv i))"
      using io_count_push [OF k(1) lp(1)] by (auto simp: sv1_def fun_eq_iff)
    moreover note life_request [OF li c at]
    ultimately have "life_inv sv1" by (simp add: life_inv_def) (simp add: sv1_def ctl_count_def)
    moreover have "view sv1 = (view sv)\<lparr>vw_closings := (closings sv)(i := Suc (closings sv i))\<rparr>"
      using cnt by (simp add: view_def) (simp add: sv1_def)
    moreover have "sv_ctl sv1 = sv_ctl sv" by (simp add: sv1_def)
    moreover have "connection_close env tid i sv = Inr sv1" using call False by (simp add: post_def sv1_def lp_def)
    ultimately show ?thesis by simp
  qed
qed

lemma destroy_closed: "chan_closed (cn_chan c) \<Longrightarrow> \<exists>c'. Connection_destroy c = Inr c'"
  by (simp add: Connection_destroy_def Channel_destroy_def chan_closed_def bnd_simps Let_def)

lemma ctl_keeps:
  assumes inv: "life_inv sv"
  shows "\<exists>sv'. next_task env Control sv = Inr sv' \<and> life_inv sv' \<and>
    (view sv' = view sv \<or>
     (\<exists>i c. sv_objs sv i = Some c \<and> chan_closed (cn_chan c) \<and> view sv' = (view sv)\<lparr>vw_objs := (sv_objs sv)(i := None)\<rparr>))"
proof (cases "el_tasks (sv_ctl sv)")
  case Nil
  then show ?thesis using inv by (simp add: next_task_def)
next
  case (Cons t ts)
  note so = life_invD(1) [OF inv] and ho = life_invD(2) [OF inv] and li = life_invD(3) [OF inv]
  obtain i where i: "t = RemoveConn i" using so Cons by (cases t) (auto simp: srv_ok_def)
  define sv1 where "sv1 = sv\<lparr>sv_ctl := (sv_ctl sv)\<lparr>el_tasks := ts, el_pending := el_pending (sv_ctl sv) - 1\<rparr>\<rparr>"
  have rem: "removals sv j = removals sv1 j + (if j = i then 1 else 0)" for j
    using Cons i by (simp add: ctl_count_def sv1_def)
  have pos: "0 < removals sv i" using rem [of i] by simp
  then obtain c where c: "sv_objs sv i = Some c" using life_none [OF li, of i] by (cases "sv_objs sv i") auto
  note rm = life_remove [OF li c pos]
  define sv2 where "sv2 = hashTableRemove (cn_id c) sv1"
  have so2: "srv_ok sv2" using so
    by (rule srv_ok_cong) (use so Cons in \<open>auto simp: sv2_def sv1_def hashTableRemove_def srv_ok_def\<close>)
  have f2: "sv_objs sv2 = sv_objs sv" "sv_table sv2 = (sv_table sv)(cn_id c := None)" "sv_next sv2 = sv_next sv"
    "sv_destroyed sv2 = sv_destroyed sv" "io_count t' sv2 = io_count t' sv" "ctl_count t' sv2 = ctl_count t' sv1"
    "sv_home sv2 = sv_home sv" "loops sv2 = loops sv" "sv_wheel sv2 = sv_wheel sv" "sv_conn_fn sv2 = sv_conn_fn sv"
    "sv_message_fn sv2 = sv_message_fn sv" for t'
    by (simp_all add: sv2_def sv1_def hashTableRemove_def io_count_def loops_def ctl_count_def)
  have ho2: "homes_ok sv2" by (rule homes_ok_cong [OF ho]) (simp_all add: f2)
  have ref: "referenced i c sv2 \<longleftrightarrow> 0 < closings sv i + removals sv1 i"
    using rm no_remove_on_io [OF so2] only_remove_on_ctl [OF so2] by (simp add: referenced_def f2 getUUID_def) linarith
  have nxt: "next_task env Control sv = drop_reference i sv2"
    using Cons i c by (simp add: next_task_def sv1_def [symmetric] remove_connection_def) (simp add: sv1_def sv2_def getUUID_def)
  show ?thesis
  proof (cases "referenced i c sv2")
    case True
    then have "1 < closings sv i + removals sv i" using ref rem [of i] by simp
    then have "life (sv_table sv2) (sv_objs sv2) (sv_next sv2) (sv_destroyed sv2) (attaching sv2) (closings sv2)
        ((removals sv)(i := removals sv i - 1))"
      using rm f2 by simp
    moreover have "(removals sv)(i := removals sv i - 1) = removals sv2" using rem f2 by (auto simp: fun_eq_iff)
    moreover have "view sv2 = view sv" by (simp add: view_def f2)
    ultimately show ?thesis using nxt True c so2 ho2 f2(1) by (simp add: drop_reference_def life_inv_def)
  next
    case False
    let ?s = "sv2\<lparr>sv_objs := (sv_objs sv)(i := None), sv_destroyed := sv_destroyed sv @ [i]\<rparr>"
    obtain c' where "Connection_destroy c = Inr c'" using destroy_closed rm by blast
    then have run: "next_task env Control sv = Inr ?s" using nxt False c f2 by (simp add: drop_reference_def bnd_simps)
    have z: "removals sv1 i = 0" "closings sv i + removals sv i = 1" using False ref rem [of i] by simp_all
    then have "(removals sv)(i := 0) = removals sv1" using rem by (auto simp: fun_eq_iff)
    moreover have "life ((sv_table sv)(cn_id c := None)) ((sv_objs sv)(i := None)) (sv_next sv) (sv_destroyed sv @ [i])
        (attaching sv) (closings sv) ((removals sv)(i := 0))"
      using rm z(2) by blast
    moreover have "srv_ok ?s" using so2 by (simp add: srv_ok_def loops_def)
    moreover have "homes_ok ?s" by (rule homes_ok_cong [OF ho2]) (auto simp: f2 loops_def)
    moreover have "io_count t' ?s = io_count t' sv" "ctl_count t' ?s = ctl_count t' sv1" for t'
      using f2(5,6) [of t'] by (simp_all add: io_count_def loops_def ctl_count_def)
    moreover from this have "view ?s = (view sv)\<lparr>vw_objs := (sv_objs sv)(i := None)\<rparr>" by (simp add: view_def f2)
    ultimately show ?thesis using run f2 rm c by (auto simp: life_inv_def)
  qed
qed

section \<open>The server as a transition system\<close>

text \<open>
  A new connection arrives on the control loop with a fresh identifier; a loop of the pool takes a
  task; a connection that has been attached closes on a thread other than the control loop's (end of
  file or error); any thread calls \<open>close\<close> on a connection that has been attached; the control loop
  takes a task; the timing wheel changes. The data of an open connection may change in any way that
  leaves it open and its identifier and callback alone, which is what reading and writing do.
\<close>

inductive server_step :: "event_env \<Rightarrow> (nat \<Rightarrow> bool) \<Rightarrow> server \<Rightarrow> server \<Rightarrow> bool" for env ok where
  accept: "0 < fd \<Longrightarrow> uuid \<noteq> [] \<Longrightarrow> taddr \<noteq> [] \<Longrightarrow> \<forall>i. ids (sv_objs sv) i \<noteq> Some uuid \<Longrightarrow>
    handleNewConnection env ok (el_thread (sv_ctl sv)) uuid fd taddr sv = Inr sv' \<Longrightarrow> server_step env ok sv sv'"
| io: "k < length (loops sv) \<Longrightarrow> next_task env (Io k) sv = Inr sv' \<Longrightarrow> server_step env ok sv sv'"
| closing: "sv_objs sv i = Some c \<Longrightarrow> io_count (AttachConn i) sv = 0 \<Longrightarrow> tid \<noteq> el_thread (sv_ctl sv) \<Longrightarrow>
    connection_closes env tid i sv = Inr sv' \<Longrightarrow> server_step env ok sv sv'"
| close_call: "sv_objs sv i = Some c \<Longrightarrow> io_count (AttachConn i) sv = 0 \<Longrightarrow>
    connection_close env tid i sv = Inr sv' \<Longrightarrow> server_step env ok sv sv'"
| ctl: "next_task env Control sv = Inr sv' \<Longrightarrow> server_step env ok sv sv'"
| activity: "sv_objs sv i = Some c \<Longrightarrow> chan_sync True w (cn_chan c) \<Longrightarrow> chan_sync True w' (cn_chan c') \<Longrightarrow>
    cn_id c' = cn_id c \<Longrightarrow> cn_close_fn c' = cn_close_fn c \<Longrightarrow>
    server_step env ok sv (sv\<lparr>sv_objs := (sv_objs sv)(i \<mapsto> c')\<rparr>)"
| wheel: "server_step env ok sv (sv\<lparr>sv_wheel := w\<rparr>)"

definition granted :: "event_env \<Rightarrow> (nat \<Rightarrow> bool) \<Rightarrow> bool" where
  "granted env ok \<longleftrightarrow> good_env env \<and> ok (RESERVED_PREPEND_SIZE + INIT_BUFFER_SIZE)"

lemma wheel_keeps: "life_inv sv \<Longrightarrow> life_inv (sv\<lparr>sv_wheel := w\<rparr>)"
  by (simp add: life_inv_def srv_ok_def homes_ok_def io_count_def ctl_count_def loops_def)

lemma activity_keeps:
  assumes inv: "life_inv sv" and c: "sv_objs sv i = Some c" and ch: "chan_sync True w (cn_chan c)" "chan_sync True w' (cn_chan c')"
    and same: "cn_id c' = cn_id c" "cn_close_fn c' = cn_close_fn c"
  shows "life_inv (sv\<lparr>sv_objs := (sv_objs sv)(i \<mapsto> c')\<rparr>)"
  using life_active [OF life_invD(3) [OF inv] c ch same] life_invD(1,2) [OF inv] c
  by (simp add: life_inv_def srv_ok_def homes_ok_def io_count_def ctl_count_def loops_def)

interpretation server_system: step_invariant "server_step env ok" "\<lambda>sv. granted env ok \<and> life_inv sv" for env ok
proof unfold_locales
  fix s t assume "server_step env ok s t" and "granted env ok \<and> life_inv s"
  then show "granted env ok \<and> life_inv t"
  proof (induction rule: server_step.induct)
    case (accept fd uuid taddr sv sv')
    then show ?case using accept_keeps [of sv fd uuid taddr ok env] by (auto simp: granted_def)
  next
    case (io k sv sv')
    then show ?case using io_keeps [of sv k env] by (auto simp: granted_def)
  next
    case (closing sv i c tid sv')
    then show ?case using close_keeps [of sv i c env tid] by (auto simp: granted_def)
  next
    case (close_call sv i c tid sv')
    then show ?case using close_call_keeps [of sv i c env tid] by (auto simp: granted_def)
  next
    case (activity sv i c w w' c')
    then show ?case using activity_keeps by blast
  next
    case (wheel sv w)
    then show ?case using wheel_keeps by blast
  next
    case (ctl sv sv')
    then show ?case using ctl_keeps [of sv env] by auto
  qed
qed

text \<open>A running server that has not accepted anything yet.\<close>

definition idle_server :: "server \<Rightarrow> bool" where
  "idle_server sv \<longleftrightarrow> srv_ok sv \<and> (\<forall>th\<in>set (loops sv). el_tasks (lt_loop th) = []) \<and> el_tasks (sv_ctl sv) = [] \<and>
     sv_table sv = Map.empty \<and> sv_objs sv = Map.empty \<and> sv_next sv = 0 \<and> sv_destroyed sv = []"

lemma idle_life: "idle_server sv \<Longrightarrow> life_inv sv"
  by (simp add: idle_server_def life_inv_def life_def ids_ok_def ids_def io_count_def ctl_count_def sum_list_eq_0_iff
    homes_ok_def)

section \<open>Properties\<close>

text \<open>
  C3. Whatever the order of accepts, attachments, closings, calls of \<open>close\<close> from any thread and
  removals, no task, no closing and no call of \<open>close\<close> on an attached connection faults (destroying a
  connection with an open channel would); the table refers to live connections under their
  identifiers; a connection is destroyed at most once; and a live connection that has no closing and
  no removal queued is in the table with its event open, so that once the queues are empty the live
  connections are exactly those in the table.
\<close>

theorem connection_lifecycle:
  assumes "granted env ok" and "idle_server sv0" and "(server_step env ok)\<^sup>*\<^sup>* sv0 sv"
  shows "(\<forall>u i. sv_table sv u = Some i \<longrightarrow> (\<exists>c. sv_objs sv i = Some c \<and> cn_id c = u)) \<and>
    distinct (sv_destroyed sv) \<and> (\<forall>i < sv_next sv. sv_objs sv i = None \<longleftrightarrow> i \<in> set (sv_destroyed sv)) \<and>
    (\<forall>i c. sv_objs sv i = Some c \<and> ctl_count (RemoveConn i) sv = 0 \<and> io_count (CloseConn i) sv = 0 \<longrightarrow>
      sv_table sv (cn_id c) = Some i \<and> ch_event (cn_chan c)) \<and>
    (\<forall>k<length (loops sv). \<exists>sv'. next_task env (Io k) sv = Inr sv') \<and> (\<exists>sv'. next_task env Control sv = Inr sv') \<and>
    (\<forall>i c tid. sv_objs sv i = Some c \<and> io_count (AttachConn i) sv = 0 \<longrightarrow>
      (tid \<noteq> el_thread (sv_ctl sv) \<longrightarrow> (\<exists>sv'. connection_closes env tid i sv = Inr sv')) \<and>
      (\<exists>sv'. connection_close env tid i sv = Inr sv'))"
proof -
  have inv: "life_inv sv" and env: "good_env env"
    using server_system.steps_keep [OF assms(3)] assms(1,2) idle_life by (auto simp: granted_def)
  note li = life_invD(3) [OF inv]
  have table: "\<exists>c. sv_objs sv i = Some c \<and> cn_id c = u" if "sv_table sv u = Some i" for u i
    using li that by (auto simp: life_def ids_ok_def ids_def)
  have destroyed: "sv_objs sv i = None \<longleftrightarrow> i \<in> set (sv_destroyed sv)" if "i < sv_next sv" for i
    using that life_none [OF li, of i] life_phase [OF li, of i] by (cases "sv_objs sv i") auto
  have listed: "sv_table sv (cn_id c) = Some i \<and> ch_event (cn_chan c)"
    if "sv_objs sv i = Some c \<and> removals sv i = 0 \<and> closings sv i = 0" for i c
    using that life_phase [OF li, of i c] by (auto simp: conn_phase_def chan_sync_def)
  have dist: "distinct (sv_destroyed sv)" using li by (simp add: life_def)
  have closing: "(tid \<noteq> el_thread (sv_ctl sv) \<longrightarrow> (\<exists>sv'. connection_closes env tid i sv = Inr sv')) \<and>
      (\<exists>sv'. connection_close env tid i sv = Inr sv')" if "sv_objs sv i = Some c \<and> io_count (AttachConn i) sv = 0" for i c tid
    using that close_keeps [OF inv _ _ env] close_call_keeps [OF inv _ _ env] by blast
  show ?thesis
    using table destroyed listed dist io_keeps [OF inv _ env] ctl_keeps [OF inv, of env] closing
    by (intro conjI) blast+
qed

text \<open>A server with one loop in its pool.\<close>

definition sample_server :: server where
  "sample_server = (server_blank ''atp'' ''0.0.0.0'' 80 1 0 \<lparr>s_fd = - 1, s_port = 0, s_ip = [], s_closed = []\<rparr>
      \<lparr>el_state = STATE_RUNNING, el_thread = 1, el_tasks = [], el_pending = 0, el_notified = False, el_counter = 0,
       el_exit = False, el_watcher = EventfdWatcher 0\<rparr>)
     \<lparr>sv_state := STATE_RUNNING, sv_pool := Some \<lparr>lp_state = STATE_RUNNING, lp_threads_num = 1, lp_index = - 1,
        lp_threads = [\<lparr>lt_state = STATE_RUNNING,
          lt_loop = \<lparr>el_state = STATE_RUNNING, el_thread = 2, el_tasks = [], el_pending = 0, el_notified = False,
            el_counter = 0, el_exit = False, el_watcher = EventfdWatcher 0\<rparr>, lt_worker = Dispatching\<rparr>]\<rparr>\<rparr>"

lemma sample_server_idle: "idle_server sample_server" "el_thread (sv_ctl sample_server) = 1" "sv_objs sample_server = Map.empty"
  by (simp_all add: idle_server_def srv_ok_def loops_def sample_server_def server_blank_def)

theorem connection_lifecycle_witness:
  "\<exists>sv. handleNewConnection sample_env (\<lambda>_. True) 1 ''id'' 7 ''peer'' sample_server = Inr sv \<and>
     distinct (sv_destroyed sv) \<and> (\<exists>sv'. next_task sample_env Control sv = Inr sv')"
proof -
  have g: "granted sample_env (\<lambda>_. True)" using sample_channel_sync(2) by (simp add: granted_def)
  obtain sv where sv: "handleNewConnection sample_env (\<lambda>_. True) 1 ''id'' 7 ''peer'' sample_server = Inr sv"
    using accept_keeps [OF idle_life [OF sample_server_idle(1)], of 7 "''id''" "''peer''" "\<lambda>_. True" sample_env] sample_server_idle
    by (auto simp: ids_def)
  have "server_step sample_env (\<lambda>_. True) sample_server sv"
    by (rule server_step.accept [of 7 "''id''" "''peer''"]) (use sv sample_server_idle in \<open>simp_all add: ids_def\<close>)
  then have "(server_step sample_env (\<lambda>_. True))\<^sup>*\<^sup>* sample_server sv" by simp
  from connection_lifecycle [OF g sample_server_idle(1) this] sv show ?thesis by blast
qed

end
