(* ===== verification/Server_Start.thy ===== *)
theory Server_Start
  imports Server_Lifecycle
begin

text \<open>
  Starting and stopping a server: the facts about its parts that the whole of \<open>Server::start\<close> and
  \<open>Server::stop\<close> rests on.
\<close>

section \<open>The control loop\<close>

text \<open>A new loop, and the same loop once it dispatches.\<close>

lemma loop_new:
  assumes "EventLoop efd tid = Inr lp"
  shows "el_thread lp = tid \<and> el_tasks lp = [] \<and> \<not> el_exit lp \<and>
    (\<exists>lp'. dispatch_enter dl True tid lp = Inr lp' \<and> el_thread lp' = tid \<and> el_tasks lp' = [] \<and> \<not> el_exit lp')"
  using assms
  by (auto simp: EventLoop_def loop_doInit_def doInitEventWatcher_def dispatch_enter_def EventfdWatcher_def EventWatcher_def
      evutil_make_internal_eventfd_def watcher_defs bnd_simps split: if_splits)

lemma timer_starts: "\<exists>t. timer_start_task (newCycleTimer d p) = Inr t"
  by (simp add: timer_start_task_def newCycleTimer_def TimerEventWatcher_def EventWatcher_def watcher_setCancelCallback_def
      watcher_defs Let_def bnd_simps)

section \<open>The listener\<close>

definition good_listen :: "listen_env \<Rightarrow> bool" where
  "good_listen lenv \<longleftrightarrow> 0 < socket_ret (le_create lenv) \<and> 0 \<le> nonblock_ret (le_create lenv) \<and> cloexec_ret (le_create lenv) \<noteq> - 1 \<and>
     (\<forall>port ip. 0 \<le> le_bind lenv port ip) \<and> (\<forall>fd backlog. 0 \<le> le_listen lenv fd backlog)"

lemma listener_listens:
  assumes "good_listen lenv"
  shows "\<exists>ln'. listener_listen lenv ln = Inr ln' \<and> 0 < ln_fd ln'"
  using assms
  by (simp add: good_listen_def listener_listen_def sock_create_def sock_bind_def sock_listen_def Let_def not_less)

lemma listener_accepts:
  assumes "0 < ln_fd ln" and "good_env env"
  shows "\<exists>ln1 ln2 ch. listener_accept (setNewConnCallback ln) = Inr ln1 \<and> listener_attach env ln1 = Inr ln2 \<and>
    ln_channel ln2 = Some ch \<and> chan_sync True False ch"
proof -
  have "\<exists>ln1. listener_accept (setNewConnCallback ln) = Inr ln1"
    using assms(1) by (simp add: listener_accept_def setNewConnCallback_def Channel_def bnd_simps)
  then show ?thesis using listener_attached [OF _ assms(2)] by blast
qed

section \<open>The pool\<close>

lemma pool_starts:
  assumes "\<forall>i<n. good_spawn tid (spawn i) \<and> sp_entered (spawn i)" and "0 < n"
  shows "\<exists>p :: 'a loop_pool. autoStart spawn tid (EventLoopPool n) = Inr (True, p) \<and> lp_state p = STATE_RUNNING \<and> lp_threads p \<noteq> [] \<and>
    (\<forall>th\<in>set (lp_threads p). el_thread (lt_loop th) \<noteq> tid \<and> el_tasks (lt_loop th) = [])"
proof -
  from autoStart_loop_started [of n tid spawn 0 "(EventLoopPool n :: 'a loop_pool)\<lparr>lp_state := STATE_INIT\<rparr>"] assms(1)
  obtain ths :: "'a loop_thread list" where ths: "autoStart_loop spawn tid 0 n ((EventLoopPool n)\<lparr>lp_state := STATE_INIT\<rparr>) =
      Inr (True, (EventLoopPool n)\<lparr>lp_threads := ths, lp_state := STATE_RUNNING\<rparr>)"
    "length ths = n" "\<forall>j<n. Event_Loop_Pool.started tid (spawn j) (ths ! j)"
    by (auto simp: EventLoopPool_def)
  have "el_thread (lt_loop th) \<noteq> tid \<and> el_tasks (lt_loop th) = []" if "th \<in> set ths" for th
    using that ths(2,3) assms(1) by (auto simp: in_set_conv_nth Event_Loop_Pool.started_def good_spawn_def)
  then show ?thesis using ths(1,2) assms(2) by (auto simp: autoStart_def EventLoopPool_def)
qed

lemma pool_stops:
  "lp_state p = STATE_RUNNING \<Longrightarrow> \<exists>b p'. autoStop exec tid stop_task tick p = Inr (b, p')"
  by (simp add: autoStop_def Let_def)

section \<open>The server\<close>

text \<open>A server that has been constructed with a pool of \<open>n\<close> loops and not been started.\<close>

definition new_server :: "nat \<Rightarrow> nat \<Rightarrow> server \<Rightarrow> bool" where
  "new_server tid n sv \<longleftrightarrow> (\<exists>efd. EventLoop efd tid = Inr (sv_ctl sv)) \<and> sv_pool sv = Some (EventLoopPool n) \<and> sv_thread_num sv = int n \<and>
     sv_mode sv = 0 \<and> sv_table sv = Map.empty \<and> sv_objs sv = Map.empty \<and> sv_next sv = 0 \<and> sv_destroyed sv = [] \<and>
     sv_wheel sv = Some (TimingWheel CONN_READ_WRITE_EXPIRES TIMIING_WHEEL_STEP)"

lemma Server_new: "Server efd tid nprocs s0 uuid name addr port (int n) = Inr sv \<Longrightarrow> 0 < n \<Longrightarrow> new_server tid n sv"
  by (auto simp: new_server_def Server_def server_doInit_def server_blank_def Let_def bnd_eq_Inr assert_that_eq_Inr)

lemma new_server_callbacks:
  "new_server tid n sv \<Longrightarrow> new_server tid n (server_setMessageCallback f (server_setConnectionCallback g sv))"
  by (simp add: new_server_def server_setMessageCallback_def server_setConnectionCallback_def)

text \<open>Tasks that the starting thread sends to the control loop run at once.\<close>

lemma send_inline: "el_thread (sv_ctl sv) = tid \<Longrightarrow> server_send env tid Control t sv = run_task env Control t sv"
  by (simp add: server_send_def post_def threadSafety_def)

lemma server_starts:
  assumes sv: "new_server tid n sv" and n: "0 < n"
    and lenv: "good_listen lenv" and env: "good_env env"
    and spawn: "\<forall>i<n. good_spawn tid (spawn i) \<and> sp_entered (spawn i)"
  shows "\<exists>sv1 ch. server_start lenv spawn env tid sv = Inr sv1 \<and> idle_server sv1 \<and> sv_mode sv1 = 0 \<and> el_thread (sv_ctl sv1) = tid \<and>
    \<not> el_exit (sv_ctl sv1) \<and> ln_channel (sv_listener sv1) = Some ch \<and> chan_sync True False ch \<and> 0 < sv_thread_num sv1 \<and>
    sv_wheel sv1 = sv_wheel sv \<and> sv_conn_fn sv1 = sv_conn_fn sv \<and> sv_message_fn sv1 = sv_message_fn sv"
proof -
  from sv obtain lp efd where lp: "EventLoop efd tid = Inr lp" "sv_ctl sv = lp" "sv_pool sv = Some (EventLoopPool n)"
    "sv_thread_num sv = int n" "sv_mode sv = 0" "sv_table sv = Map.empty" "sv_objs sv = Map.empty" "sv_next sv = 0" "sv_destroyed sv = []"
    by (auto simp: new_server_def)
  obtain lp' where l: "el_thread lp = tid" "el_tasks lp = []"
    and lp': "dispatch_enter True True tid lp = Inr lp'" "el_thread lp' = tid" "el_tasks lp' = []" "\<not> el_exit lp'"
    using loop_new [OF lp(1), of True] by blast
  obtain ln where ln: "listener_listen lenv (sv_listener sv) = Inr ln" "0 < ln_fd ln" using listener_listens [OF lenv] by blast
  obtain p :: "server_task loop_pool" where p: "autoStart spawn tid (EventLoopPool n) = Inr (True, p)" "lp_state p = STATE_RUNNING" "lp_threads p \<noteq> []"
    "\<forall>th\<in>set (lp_threads p). el_thread (lt_loop th) \<noteq> tid \<and> el_tasks (lt_loop th) = []"
    using pool_starts [OF spawn n] by blast
  obtain t where t: "timer_start_task (newCycleTimer 1 True) = Inr t" using timer_starts by blast
  obtain ln1 ln2 ch where ln12: "listener_accept (setNewConnCallback ln) = Inr ln1" "listener_attach env ln1 = Inr ln2"
    "ln_channel ln2 = Some ch" "chan_sync True False ch" using listener_accepts [OF ln(2) env] by blast
  have "server_start lenv spawn env tid sv =
      Inr (sv\<lparr>sv_pool := Some p, sv_timer := Some t, sv_listener := ln2, sv_state := STATE_RUNNING, sv_ctl := lp'\<rparr>)" (is "_ = Inr ?sv")
    using lp l lp' ln p(1) t ln12 n env
    by (simp add: server_start_def startEventLoopPool_def send_inline bnd_simps Let_def good_env_def)
  moreover have "idle_server ?sv" using lp lp' p n by (auto simp: idle_server_def srv_ok_def loops_def)
  ultimately show ?thesis using lp lp' ln12 n by auto
qed

end
