(* ===== verification/Resp200_Server.thy ===== *)
theory Resp200_Server
  imports Server_Start
begin

text \<open>
  \<open>examples/atp_tcp_benchmark.cpp\<close>: the server that the timing wheel is made for. When a connection is
  attached the application makes an \<open>Entry\<close> for it, puts the entry into the wheel and keeps a weak
  pointer to it in the connection's context; each message puts the entry into the newest bucket again
  and is answered; an entry that leaves the last bucket is destroyed and closes its connection.

  The theory puts \<open>Tcp_Conn\<close>, \<open>Tcp_Server\<close> and \<open>Timing_Wheel\<close> together. A handler is one step; the wheel
  is only used under the server's lock. \<open>rp_context\<close> is the context of a connection (the address of the
  entry that the weak pointer in it names), \<open>rp_entries\<close> has the entries that are alive, with the
  connection that their weak pointer names. \<open>Idle_Connections\<close> has the invariant and the properties.
\<close>

record resp =
  rp_server :: server
  rp_context :: "nat \<rightharpoonup> entry"
  rp_entries :: "entry \<rightharpoonup> nat"
  rp_next :: entry

section \<open>The application\<close>

definition crlf :: string where
  "crlf = [CHR 0x0D, CHR 0x0A]"

definition resp_200_message :: "byte list" where
  "resp_200_message = map of_char (''HTTP/1.1 200 OK'' @ crlf @ ''Server: Resp200Server'' @ crlf @
     ''Content-Type: text/html'' @ crlf @ ''Content-Length: 10'' @ crlf @ crlf @ ''aaabbbcccdea'' @ crlf)"

definition with_conn :: "nat \<Rightarrow> conn \<Rightarrow> resp \<Rightarrow> resp" where
  "with_conn i c rp = rp\<lparr>rp_server := (rp_server rp)\<lparr>sv_objs := (sv_objs (rp_server rp))(i \<mapsto> c)\<rparr>\<rparr>"

definition Resp200Server :: "int \<Rightarrow> nat \<Rightarrow> nat \<Rightarrow> sock \<Rightarrow> string \<Rightarrow> resp result" where
  "Resp200Server efd tid nprocs s0 uuid =
     bnd (Server efd tid nprocs s0 uuid ''resp-200-server'' ''0.0.0.0'' 7788 4) (\<lambda>sv.
       Inr \<lparr>rp_server = server_setMessageCallback True (server_setConnectionCallback True sv),
            rp_context = Map.empty, rp_entries = Map.empty, rp_next = 0\<rparr>)"

definition onConnection :: "nat \<Rightarrow> resp \<Rightarrow> resp result" where
  "onConnection i rp =
     (let entry = rp_next rp;
          rp1 = rp\<lparr>rp_entries := (rp_entries rp)(entry \<mapsto> i), rp_next := Suc entry\<rparr>
      in bnd (timingWheelInsert entry (rp_server rp1)) (\<lambda>sv.
           Inr (rp1\<lparr>rp_server := sv, rp_context := (rp_context rp1)(i \<mapsto> entry)\<rparr>)))"

text \<open>The answer is sent from its own object, with the terminating zero; \<open>sr\<close> and \<open>er\<close> are the kernel's.\<close>

definition resp_message :: message where
  "resp_message = \<lparr>obj = resp_200_message @ [0], off = 0, len = length resp_200_message\<rparr>"

definition onMessage :: "event_env \<Rightarrow> (nat \<Rightarrow> bool) \<Rightarrow> int \<Rightarrow> errno \<Rightarrow> nat \<Rightarrow> resp \<Rightarrow> resp result" where
  "onMessage env ok sr er i rp =
     (case sv_objs (rp_server rp) i of
        None \<Rightarrow> Inl UseAfterFree
      | Some c \<Rightarrow>
          bnd (consume 65535 (cn_read c)) (\<lambda>(ss, rb).
          bnd (toString ss) (\<lambda>_.
            let rp1 = with_conn i (c\<lparr>cn_read := rb\<rparr>) rp in
            case rp_context rp1 i of
              None \<Rightarrow> Inl AssertFail
            | Some weak_entry \<Rightarrow>
                bnd (if rp_entries rp1 weak_entry = None then Inr (rp_server rp1)
                     else timingWheelInsert weak_entry (rp_server rp1)) (\<lambda>sv.
                bnd (conn_send env ok sr er (Some resp_message) (c\<lparr>cn_read := rb\<rparr>)) (\<lambda>(_, c1).
                  Inr (with_conn i c1 (rp1\<lparr>rp_server := sv\<rparr>)))))))"

section \<open>The server around it\<close>

text \<open>The callbacks that a handler of the connection \<open>i\<close> has called, on the thread \<open>tid\<close>.\<close>

fun conn_callbacks :: "event_env \<Rightarrow> (nat \<Rightarrow> bool) \<Rightarrow> int \<Rightarrow> errno \<Rightarrow> nat \<Rightarrow> nat \<Rightarrow> conn_event list \<Rightarrow> resp \<Rightarrow> resp result" where
  "conn_callbacks env ok sr er tid i [] rp = Inr rp"
| "conn_callbacks env ok sr er tid i (ev # evs) rp =
     bnd (case ev of
            Connected \<Rightarrow> onConnection i rp
          | Message \<Rightarrow> onMessage env ok sr er i rp
          | Closed \<Rightarrow> bnd (handleCloseConnection tid i (rp_server rp)) (\<lambda>sv. Inr (rp\<lparr>rp_server := sv\<rparr>))
          | Write_complete \<Rightarrow> Inr rp) (conn_callbacks env ok sr er tid i evs)"

text \<open>\<open>~Entry\<close>, on the control thread: a connection that is still alive is closed.\<close>

definition entry_destroyed :: "event_env \<Rightarrow> entry \<Rightarrow> resp \<Rightarrow> resp result" where
  "entry_destroyed env e rp =
     (case rp_entries rp e of
        None \<Rightarrow> Inl UseAfterFree
      | Some i \<Rightarrow>
          let rp1 = rp\<lparr>rp_entries := (rp_entries rp)(e := None)\<rparr>; sv = rp_server rp1 in
          if sv_objs sv i = None then Inr rp1
          else bnd (connection_close env (el_thread (sv_ctl sv)) i sv) (\<lambda>sv1. Inr (rp1\<lparr>rp_server := sv1\<rparr>)))"

fun entries_expire :: "event_env \<Rightarrow> entry list \<Rightarrow> resp \<Rightarrow> resp result" where
  "entries_expire env [] rp = Inr rp"
| "entries_expire env (e # es) rp = bnd (entry_destroyed env e rp) (entries_expire env es)"

text \<open>
  What happens to the server: a connection is accepted; a loop of the pool takes a task; the
  descriptor of a connection is readable or writable; the control loop takes a task; the timer of the
  wheel fires.
\<close>

datatype resp_op =
  R_accept string int string
| R_task nat
| R_read nat readv_result int errno
| R_write nat int errno
| R_ctl
| R_tick

definition resp_readable :: "event_env \<Rightarrow> (nat \<Rightarrow> bool) \<Rightarrow> nat \<Rightarrow> readv_result \<Rightarrow> int \<Rightarrow> errno \<Rightarrow> resp \<Rightarrow> resp result" where
  "resp_readable env ok i rv sr er rp =
     (case sv_objs (rp_server rp) i of
        None \<Rightarrow> Inl UseAfterFree
      | Some c \<Rightarrow> bnd (netFdReadHandle env ok rv c) (\<lambda>c1.
          conn_callbacks env ok sr er (home_thread i (rp_server rp)) i (new_events c c1) (with_conn i c1 rp)))"

definition resp_writable :: "event_env \<Rightarrow> (nat \<Rightarrow> bool) \<Rightarrow> nat \<Rightarrow> int \<Rightarrow> errno \<Rightarrow> resp \<Rightarrow> resp result" where
  "resp_writable env ok i n er rp =
     (case sv_objs (rp_server rp) i of
        None \<Rightarrow> Inl UseAfterFree
      | Some c \<Rightarrow> bnd (netFdWriteHandle env n er c) (\<lambda>c1.
          conn_callbacks env ok 0 er (home_thread i (rp_server rp)) i (new_events c c1) (with_conn i c1 rp)))"

definition resp_task :: "event_env \<Rightarrow> (nat \<Rightarrow> bool) \<Rightarrow> nat \<Rightarrow> resp \<Rightarrow> resp result" where
  "resp_task env ok k rp =
     (let sv = rp_server rp in
      bnd (next_task env (Io k) sv) (\<lambda>sv1.
        case el_tasks (loop_of (Io k) sv) of
          AttachConn i # _ \<Rightarrow>
            (case (sv_objs sv i, sv_objs sv1 i) of
               (Some c, Some c1) \<Rightarrow>
                 conn_callbacks env ok 0 EINTR (home_thread i sv) i (new_events c c1) (rp\<lparr>rp_server := sv1\<rparr>)
             | _ \<Rightarrow> Inr (rp\<lparr>rp_server := sv1\<rparr>))
        | _ \<Rightarrow> Inr (rp\<lparr>rp_server := sv1\<rparr>)))"

definition resp_tick :: "event_env \<Rightarrow> resp \<Rightarrow> resp result" where
  "resp_tick env rp =
     bnd (wheel_tick (\<lambda>_. False) (rp_server rp)) (\<lambda>(es, sv). entries_expire env es (rp\<lparr>rp_server := sv\<rparr>))"

fun resp_exec :: "event_env \<Rightarrow> (nat \<Rightarrow> bool) \<Rightarrow> resp_op \<Rightarrow> resp \<Rightarrow> resp result" where
  "resp_exec env ok (R_accept uuid fd taddr) rp =
     bnd (handleNewConnection env ok (el_thread (sv_ctl (rp_server rp))) uuid fd taddr (rp_server rp)) (\<lambda>sv.
       Inr (rp\<lparr>rp_server := sv\<rparr>))"
| "resp_exec env ok (R_task k) rp = resp_task env ok k rp"
| "resp_exec env ok (R_read i rv sr er) rp = resp_readable env ok i rv sr er rp"
| "resp_exec env ok (R_write i n er) rp = resp_writable env ok i n er rp"
| "resp_exec env ok R_ctl rp = bnd (next_task env Control (rp_server rp)) (\<lambda>sv. Inr (rp\<lparr>rp_server := sv\<rparr>))"
| "resp_exec env ok R_tick rp = resp_tick env rp"

text \<open>
  What the kernel and libevent do: identifiers are fresh, events are reported for registered
  channels, a read delivers at most what it was offered, a write takes at most what it was offered
  and the first write of an answer does not fail.
\<close>

definition read_legal :: "(nat \<Rightarrow> bool) \<Rightarrow> readv_result \<Rightarrow> byte_buffer \<Rightarrow> bool" where
  "read_legal ok rv b \<longleftrightarrow> rv_ret rv \<le> 0 \<or>
     (let bs = rv_bytes rv; w = caps b - write_index b in
      rv_ret rv = int (length bs) \<and> bs \<noteq> [] \<and>
      (length bs \<le> w \<or> room ok (length bs - w) b \<and> (length bs - w < EXTRBUFFER_SIZE \<or> 0 \<in> set (drop w bs))))"

definition answer_legal :: "(nat \<Rightarrow> bool) \<Rightarrow> int \<Rightarrow> conn \<Rightarrow> bool" where
  "answer_legal ok sr c \<longleftrightarrow> 0 \<le> sr \<and> sr \<le> int (len resp_message) \<and> (\<forall>n\<le>len resp_message. room ok n (cn_write c))"

fun resp_legal :: "(nat \<Rightarrow> bool) \<Rightarrow> resp_op \<Rightarrow> resp \<Rightarrow> bool" where
  "resp_legal ok (R_accept uuid fd taddr) rp \<longleftrightarrow>
     0 < fd \<and> uuid \<noteq> [] \<and> taddr \<noteq> [] \<and> (\<forall>i. ids (sv_objs (rp_server rp)) i \<noteq> Some uuid)"
| "resp_legal ok (R_task k) rp \<longleftrightarrow> k < length (loops (rp_server rp))"
| "resp_legal ok (R_read i rv sr er) rp \<longleftrightarrow>
     (case sv_objs (rp_server rp) i of
        None \<Rightarrow> False
      | Some c \<Rightarrow> in_base (cn_chan c) \<noteq> None \<and> read_legal ok rv (cn_read c) \<and> (0 < rv_ret rv \<longrightarrow> answer_legal ok sr c))"
| "resp_legal ok (R_write i n er) rp \<longleftrightarrow>
     (case sv_objs (rp_server rp) i of
        None \<Rightarrow> False
      | Some c \<Rightarrow> in_base (cn_chan c) \<noteq> None \<and> isWritable (cn_chan c) \<and> n \<le> int (length (content (cn_write c))))"
| "resp_legal ok R_ctl rp \<longleftrightarrow> True"
| "resp_legal ok R_tick rp \<longleftrightarrow> True"

section \<open>A connection\<close>

definition resp_conn :: "conn \<Rightarrow> bool" where
  "resp_conn c \<longleftrightarrow> cn_conn_fn c \<and> cn_read_fn c \<and> \<not> cn_write_complete_fn c \<and> cn_close_fn c \<and> buf_wf (cn_read c) \<and> buf_wf (cn_write c)"

lemma open_sync: "chan_sync r w ch \<Longrightarrow> in_base ch \<noteq> None \<longleftrightarrow> r \<or> w"
  by (simp add: chan_sync_def)

lemma closed_not_open: "chan_closed ch \<Longrightarrow> in_base ch = None"
  by (simp add: chan_closed_def)

lemma resp_conn_same: "resp_conn c \<Longrightarrow> same_conn c c' \<Longrightarrow> buf_wf (cn_read c') \<Longrightarrow> buf_wf (cn_write c') \<Longrightarrow> resp_conn c'"
  by (simp add: resp_conn_def same_conn_def)

lemma Connection_fresh:
  assumes "Connection ok fd uuid taddr = Inr c0" and "ok (RESERVED_PREPEND_SIZE + INIT_BUFFER_SIZE)"
  shows "resp_conn (setCloseCallback True (setReadMessageCallback True (setConnectionCallback True c0))) \<and> content (cn_write c0) = []"
proof -
  obtain rb wb where b: "ByteBuffer ok RESERVED_PREPEND_SIZE INIT_BUFFER_SIZE = Inr rb" "cn_read c0 = rb" "cn_write c0 = rb"
    "\<not> cn_write_complete_fn c0"
    using assms(1) by (auto simp: Connection_def bnd_eq_Inr assert_that_eq_Inr)
  then have "buf_wf rb \<and> content rb = []"
    using ByteBuffer_wf [of RESERVED_PREPEND_SIZE INIT_BUFFER_SIZE ok] assms(2)
    by (auto simp: RESERVED_PREPEND_SIZE_def INIT_BUFFER_SIZE_def size_mod_def)
  then show ?thesis using b
    by (simp add: resp_conn_def setCloseCallback_def setReadMessageCallback_def setConnectionCallback_def)
qed

lemma close_resp: "netFdCloseHandle env c = Inr c' \<Longrightarrow> resp_conn c \<Longrightarrow> resp_conn c'"
  using close_frame [of env c c'] by (simp add: resp_conn_def same_conn_def)

lemma reader_delivers:
  assumes "buf_wf b" and "read_legal ok rv b" and "0 < rv_ret rv"
  shows "\<exists>b'. reader_readv ok rv b = Inr (rv_ret rv, b') \<and> buf_wf b'"
proof -
  obtain r e bs where rv: "rv = \<lparr>rv_ret = r, rv_retriable = e, rv_bytes = bs\<rparr>" by (cases rv)
  let ?w = "caps b - write_index b"
  have r: "r = int (length bs)" "bs \<noteq> []"
    and d: "length bs \<le> ?w \<or> room ok (length bs - ?w) b \<and> (length bs - ?w < EXTRBUFFER_SIZE \<or> 0 \<in> set (drop ?w bs))"
    using assms(2,3) by (auto simp: read_legal_def rv Let_def)
  show ?thesis
  proof (cases "length bs \<le> ?w")
    case True
    then show ?thesis using readv_fits [OF assms(1) r(2), of ok e] by (auto simp: rv r)
  next
    case False
    then show ?thesis using readv_overflow [OF assms(1) refl, of bs ok e] d by (auto simp: rv r)
  qed
qed

lemma resp_message_ok: "message_ok resp_message"
  by (simp add: message_ok_def resp_message_def resp_200_message_def)

text \<open>A connection that has been answered; \<open>rb\<close> is its read buffer.\<close>

lemma answer_sent:
  assumes "resp_conn c" and "conn_ok c" and "good_env env" and "answer_legal ok sr c" and "buf_wf rb"
  shows "\<exists>c'. conn_send env ok sr er (Some resp_message) (c\<lparr>cn_read := rb\<rparr>) = Inr (False, c') \<and> conn_ok c' \<and> resp_conn c' \<and>
    same_conn c c' \<and> cn_sent c' @ content (cn_write c') = cn_sent c @ content (cn_write c) @ resp_200_message"
proof -
  let ?c = "c\<lparr>cn_read := rb\<rparr>"
  have "conn_ok ?c" using assms(2) by (simp add: conn_ok_def)
  then obtain c' where c': "conn_send_now env ok sr er resp_message ?c = Inr c'" "conn_ok c'"
    "cn_sent c' @ content (cn_write c') = cn_sent ?c @ content (cn_write ?c) @ payload resp_message"
    using send_now_ok [of ?c env resp_message sr ok er] assms(3,4) resp_message_ok by (auto simp: answer_legal_def)
  have f: "same_conn ?c c'" "cn_read c' = rb" using send_frame [OF c'(1)] assms(4) by (auto simp: answer_legal_def)
  then have "resp_conn c'" using assms(1,5) c'(2) by (simp add: resp_conn_def same_conn_def conn_ok_def)
  moreover have "0 < len resp_message" using resp_message_ok by (simp add: message_ok_def)
  then have "conn_send env ok sr er (Some resp_message) ?c = Inr (False, c')"
    using c'(1) assms(3) by (simp add: conn_send_def good_env_def bnd_simps)
  moreover have "payload resp_message = resp_200_message" by (simp add: payload_def resp_message_def)
  ultimately show ?thesis using c' f by (simp add: same_conn_def)
qed

end
