(* ===== verification/Idle_Connections.thy ===== *)
theory Idle_Connections
  imports Resp200_Server
begin

text \<open>
  The example server of \<open>Resp200_Server\<close> under all orders of its operations: an invariant ties the
  connections, their contexts, the entries and the wheel together; every operation keeps it, does not
  fault, and is a sequence of steps of the server of \<open>Server_Lifecycle\<close>. From the life of an entry in the
  wheel follows how long a connection may be idle.
\<close>

section \<open>Entries and connections\<close>

text \<open>
  A connection that waits to be attached has no context and nothing to write. Once attached it has a
  context, and while it is open it has an entry or a closing is queued for it.
\<close>

definition watched :: "server_view \<Rightarrow> (nat \<rightharpoonup> entry) \<Rightarrow> (entry \<rightharpoonup> nat) \<Rightarrow> nat \<Rightarrow> conn \<Rightarrow> bool" where
  "watched V C E i c \<longleftrightarrow> resp_conn c \<and>
     (if vw_attaching V i = 0
      then C i \<noteq> None \<and> (in_base (cn_chan c) \<noteq> None \<longrightarrow> conn_ok c \<and> (0 < vw_closings V i \<or> (\<exists>e. E e = Some i)))
      else C i = None \<and> content (cn_write c) = [] \<and> in_base (cn_chan c) = None)"

definition idle :: "server_view \<Rightarrow> (nat \<rightharpoonup> entry) \<Rightarrow> (entry \<rightharpoonup> nat) \<Rightarrow> entry \<Rightarrow> bool" where
  "idle V C E n \<longleftrightarrow> vw_conn_fn V \<and> vw_message_fn V \<and> (\<forall>i\<ge>vw_next V. C i = None) \<and>
     (\<forall>e i. E e = Some i \<longrightarrow> C i = Some e) \<and> (\<forall>i e. C i = Some e \<longrightarrow> e < n) \<and>
     (\<forall>i j e. C i = Some e \<and> C j = Some e \<longrightarrow> i = j) \<and>
     (\<forall>i c. vw_objs V i = Some c \<longrightarrow> i < vw_next V \<and> watched V C E i c)"

lemma idleD:
  "idle V C E n \<Longrightarrow> vw_objs V i = Some c \<Longrightarrow> i < vw_next V"
  "idle V C E n \<Longrightarrow> vw_objs V i = Some c \<Longrightarrow> watched V C E i c"
  "idle V C E n \<Longrightarrow> E e = Some i \<Longrightarrow> C i = Some e"
  "idle V C E n \<Longrightarrow> C i = Some e \<Longrightarrow> e < n"
  "idle V C E n \<Longrightarrow> C i = Some e \<Longrightarrow> C j = Some e \<Longrightarrow> i = j"
  "idle V C E n \<Longrightarrow> vw_next V \<le> i \<Longrightarrow> C i = None"
  "idle V C E n \<Longrightarrow> vw_conn_fn V \<and> vw_message_fn V"
  unfolding idle_def by blast+

text \<open>A connection and its tasks change and everything else stays.\<close>

lemma idle_update:
  assumes "idle V C E n" and "vw_objs V i = Some c" and "watched V' C E i c'"
    and "vw_objs V' = (vw_objs V)(i \<mapsto> c')" and "vw_next V' = vw_next V" and "vw_conn_fn V'" and "vw_message_fn V'"
    and "\<And>j. j \<noteq> i \<Longrightarrow> vw_attaching V' j = vw_attaching V j \<and> vw_closings V' j = vw_closings V j"
  shows "idle V' C E n"
proof -
  have "j < vw_next V' \<and> watched V' C E j d" if d: "vw_objs V' j = Some d" for j d
  proof (cases "j = i")
    case True
    then show ?thesis using d assms(2-5) idleD(1) [OF assms(1,2)] by simp
  next
    case False
    then have "vw_objs V j = Some d" using d assms(4) by simp
    then show ?thesis using idleD(1,2) [OF assms(1), of j d] assms(5) assms(8) [OF False] by (simp add: watched_def)
  qed
  then show ?thesis using assms(1,5-7) by (simp add: idle_def)
qed

lemma idle_accept:
  assumes "idle V C E n" and "resp_conn c" and "content (cn_write c) = []" and "in_base (cn_chan c) = None"
  shows "idle (V\<lparr>vw_objs := (vw_objs V)(vw_next V \<mapsto> c), vw_attaching := (vw_attaching V)(vw_next V := 1),
    vw_next := Suc (vw_next V)\<rparr>) C E n" (is "idle ?V C E n")
proof -
  have "j < vw_next ?V \<and> watched ?V C E j d" if d: "vw_objs ?V j = Some d" for j d
  proof (cases "j = vw_next V")
    case True
    then show ?thesis using d assms(2-4) idleD(6) [OF assms(1)] by (auto simp: watched_def)
  next
    case False
    then have "vw_objs V j = Some d" using d by simp
    then show ?thesis using idleD(1,2) [OF assms(1), of j d] False by (simp add: watched_def)
  qed
  then show ?thesis using assms(1) by (simp add: idle_def)
qed

lemma idle_attach:
  assumes "idle V C E n" and "vw_objs V i = Some c" and "vw_attaching V i \<noteq> 0" and "resp_conn c'" and "conn_ok c'"
  shows "idle (V\<lparr>vw_objs := (vw_objs V)(i \<mapsto> c'), vw_attaching := (vw_attaching V)(i := 0)\<rparr>) (C(i \<mapsto> n)) (E(n \<mapsto> i)) (Suc n)"
    (is "idle ?V ?C ?E _")
proof -
  have Ci: "C i = None" using idleD(2) [OF assms(1,2)] assms(3) by (simp add: watched_def)
  have En: "E n = None" using idleD(3) [OF assms(1), of n] idleD(4) [OF assms(1), where e = n] by (cases "E n") auto
  have i: "i < vw_next V" using idleD(1) [OF assms(1,2)] .
  have w: "j < vw_next ?V \<and> watched ?V ?C ?E j d" if d: "vw_objs ?V j = Some d" for j d
  proof (cases "j = i")
    case True
    then show ?thesis using d assms(4,5) i by (auto simp: watched_def)
  next
    case False
    then have "vw_objs V j = Some d" using d by simp
    moreover have "?E e = Some j \<longleftrightarrow> E e = Some j" for e using En False by auto
    ultimately show ?thesis using idleD(1,2) [OF assms(1), of j d] False by (simp add: watched_def)
  qed
  have E: "?E e = Some j \<longrightarrow> ?C j = Some e" for e j using idleD(3) [OF assms(1), of e j] Ci by auto
  have C: "?C j = Some e \<longrightarrow> e < Suc n" for j e using idleD(4) [OF assms(1), of j e] by auto
  have inj: "?C j = Some e \<and> ?C k = Some e \<longrightarrow> j = k" for j k e
    using idleD(4) [OF assms(1), of j e] idleD(4) [OF assms(1), of k e] idleD(5) [OF assms(1), of j e k]
    by (cases "j = i"; cases "k = i") auto
  have new: "?C j = None" if "vw_next ?V \<le> j" for j using idleD(6) [OF assms(1), of j] i that by simp
  have fn: "vw_conn_fn ?V" "vw_message_fn ?V" using idleD(7) [OF assms(1)] by simp_all
  show ?thesis unfolding idle_def by (intro conjI allI) (rule fn E C inj impI [OF new] impI [OF w] | assumption)+
qed

lemma idle_remove:
  assumes "idle V C E n"
  shows "idle (V\<lparr>vw_objs := (vw_objs V)(i := None)\<rparr>) C E n"
  using assms by (simp add: idle_def watched_def)

text \<open>An entry goes; if its connection is alive a closing is queued.\<close>

lemma idle_expire:
  assumes "idle V C E n" and "E e = Some i" and "vw_objs V i \<noteq> None \<longrightarrow> 0 < x"
  shows "idle (V\<lparr>vw_closings := (vw_closings V)(i := x)\<rparr>) C (E(e := None)) n" (is "idle ?V C ?E n")
proof -
  have "j < vw_next ?V \<and> watched ?V C ?E j d" if d: "vw_objs ?V j = Some d" for j d
  proof (cases "j = i")
    case True
    then show ?thesis using d assms(3) idleD(1,2) [OF assms(1), of j d] by (simp add: watched_def)
  next
    case False
    then have "(\<exists>e. ?E e = Some j) \<longleftrightarrow> (\<exists>e. E e = Some j)"
      using assms(2) by (metis fun_upd_apply option.distinct(1) option.inject)
    then show ?thesis using d False idleD(1,2) [OF assms(1), of j d] by (simp add: watched_def)
  qed
  then show ?thesis using assms(1) by (simp add: idle_def)
qed

section \<open>Every operation keeps the invariant\<close>

definition resp_inv :: "resp \<Rightarrow> bool" where
  "resp_inv rp \<longleftrightarrow> life_inv (rp_server rp) \<and> idle (view (rp_server rp)) (rp_context rp) (rp_entries rp) (rp_next rp) \<and>
     (\<exists>w. sv_wheel (rp_server rp) = Some w \<and> wheel_ok w \<and> slots w = CONN_READ_WRITE_EXPIRES \<and> wheel_entries w = dom (rp_entries rp))"

fun renews :: "nat \<Rightarrow> resp_op \<Rightarrow> bool" where
  "renews i (R_read j rv sr er) \<longleftrightarrow> i = j"
| "renews i _ \<longleftrightarrow> False"

fun touches :: "nat \<Rightarrow> resp_op \<Rightarrow> bool" where
  "touches i (R_read j rv sr er) \<longleftrightarrow> i = j"
| "touches i (R_write j n er) \<longleftrightarrow> i = j"
| "touches i _ \<longleftrightarrow> False"

text \<open>The connection \<open>i\<close> is open, its object is \<open>c\<close>, and no closing is queued.\<close>

definition undisturbed :: "resp \<Rightarrow> nat \<Rightarrow> conn \<Rightarrow> bool" where
  "undisturbed rp i c \<longleftrightarrow> sv_objs (rp_server rp) i = Some c \<and> in_base (cn_chan c) \<noteq> None \<and> closings (rp_server rp) i = 0"

text \<open>
  What an operation does to the wheel and to the connections that it is not about: only a tick
  turns the wheel, and only a message renews an entry that was there.
\<close>

definition effect :: "resp_op \<Rightarrow> resp \<Rightarrow> resp \<Rightarrow> bool" where
  "effect op rp rp' \<longleftrightarrow>
     (\<exists>ws ds w w'. sv_wheel (rp_server rp) = Some w \<and> sv_wheel (rp_server rp') = Some w' \<and> wheel_run (\<lambda>_. False) ws w = Inr (ds, w') \<and>
        count_list ws Tick = (if op = R_tick then 1 else 0) \<and>
        (\<forall>e. Insert e \<in> set ws \<longrightarrow> rp_next rp \<le> e \<or> (\<exists>i. renews i op \<and> rp_context rp i = Some e))) \<and>
     (\<forall>i e. rp_context rp i = Some e \<longrightarrow> rp_context rp' i = Some e) \<and>
     (\<forall>e i. rp_entries rp' e = Some i \<and> e < rp_next rp \<longrightarrow> rp_entries rp e = Some i) \<and> rp_next rp \<le> rp_next rp' \<and>
     (\<forall>i c. undisturbed rp i c \<and> \<not> touches i op \<and> (op = R_tick \<longrightarrow> (\<exists>e. rp_entries rp' e = Some i)) \<longrightarrow> undisturbed rp' i c)"

lemma effectI:
  assumes "sv_wheel (rp_server rp) = Some w" and "sv_wheel (rp_server rp') = Some w'" and "wheel_run (\<lambda>_. False) ws w = Inr (ds, w')"
    and "count_list ws Tick = (if op = R_tick then 1 else 0)"
    and "\<And>e. Insert e \<in> set ws \<Longrightarrow> rp_next rp \<le> e \<or> (\<exists>i. renews i op \<and> rp_context rp i = Some e)"
    and "\<And>i e. rp_context rp i = Some e \<Longrightarrow> rp_context rp' i = Some e"
    and "\<And>e i. rp_entries rp' e = Some i \<Longrightarrow> e < rp_next rp \<Longrightarrow> rp_entries rp e = Some i" and "rp_next rp \<le> rp_next rp'"
    and "\<And>i c. undisturbed rp i c \<Longrightarrow> \<not> touches i op \<Longrightarrow> (op = R_tick \<Longrightarrow> \<exists>e. rp_entries rp' e = Some i) \<Longrightarrow> undisturbed rp' i c"
  shows "effect op rp rp'"
  unfolding effect_def using assms by blast

definition steps_to :: "event_env \<Rightarrow> (nat \<Rightarrow> bool) \<Rightarrow> resp_op \<Rightarrow> resp \<Rightarrow> resp \<Rightarrow> bool" where
  "steps_to env ok op rp rp' \<longleftrightarrow> resp_exec env ok op rp = Inr rp' \<and>
     (server_step env ok)\<^sup>*\<^sup>* (rp_server rp) (rp_server rp') \<and> resp_inv rp' \<and> effect op rp rp'"

lemma viewD:
  assumes "view sv = V"
  shows "sv_objs sv = vw_objs V" "attaching sv i = vw_attaching V i" "closings sv i = vw_closings V i" "sv_next sv = vw_next V"
    "sv_wheel sv = vw_wheel V" "sv_conn_fn sv = vw_conn_fn V" "sv_message_fn sv = vw_message_fn V"
  using assms by (auto simp: view_def)

lemma view_sel [simp]:
  "vw_objs (view sv) = sv_objs sv" "vw_attaching (view sv) = attaching sv" "vw_closings (view sv) = closings sv"
  "vw_next (view sv) = sv_next sv" "vw_wheel (view sv) = sv_wheel sv" "vw_conn_fn (view sv) = sv_conn_fn sv"
  "vw_message_fn (view sv) = sv_message_fn sv"
  by (simp_all add: view_def)

lemma view_wheel: "view (sv\<lparr>sv_wheel := x\<rparr>) = (view sv)\<lparr>vw_wheel := x\<rparr>"
  by (simp add: view_def io_count_def loops_def)

lemma idle_wheel: "idle V C E n \<Longrightarrow> idle (V\<lparr>vw_wheel := x\<rparr>) C E n"
  by (simp add: idle_def watched_def)

text \<open>An operation that only changes the server and not its wheel.\<close>

lemma server_only:
  assumes "resp_inv rp" and "life_inv sv'" and "idle (view sv') (rp_context rp) (rp_entries rp) (rp_next rp)"
    and "sv_wheel sv' = sv_wheel (rp_server rp)" and "op \<noteq> R_tick"
    and "\<And>i c. undisturbed rp i c \<Longrightarrow> \<not> touches i op \<Longrightarrow> sv_objs sv' i = Some c \<and> closings sv' i = 0"
  shows "resp_inv (rp\<lparr>rp_server := sv'\<rparr>) \<and> effect op rp (rp\<lparr>rp_server := sv'\<rparr>)"
proof -
  obtain w where w: "sv_wheel (rp_server rp) = Some w" using assms(1) by (auto simp: resp_inv_def)
  have "effect op rp (rp\<lparr>rp_server := sv'\<rparr>)"
    by (rule effectI [OF w, of _ w "[]" "[]"]) (use w assms(4-6) in \<open>auto simp: undisturbed_def\<close>)
  then show ?thesis using assms(1-4) by (simp add: resp_inv_def)
qed

lemma undisturbed_attached:
  assumes "resp_inv rp" and "undisturbed rp i c"
  shows "attaching (rp_server rp) i = 0 \<and> i < sv_next (rp_server rp)"
proof -
  have i: "idle (view (rp_server rp)) (rp_context rp) (rp_entries rp) (rp_next rp)" and c: "vw_objs (view (rp_server rp)) i = Some c"
    using assms by (simp_all add: resp_inv_def undisturbed_def)
  show ?thesis using idleD(1,2) [OF i c] assms(2) by (auto simp: watched_def undisturbed_def split: if_splits)
qed

lemma step_accept:
  assumes inv: "resp_inv rp" and g: "granted env ok" and l: "resp_legal ok (R_accept uuid fd taddr) rp"
  shows "\<exists>rp'. steps_to env ok (R_accept uuid fd taddr) rp rp'"
proof -
  let ?sv = "rp_server rp"
  have li: "life_inv ?sv" and id: "idle (view ?sv) (rp_context rp) (rp_entries rp) (rp_next rp)" using inv by (simp_all add: resp_inv_def)
  have ok: "ok (RESERVED_PREPEND_SIZE + INIT_BUFFER_SIZE)" using g by (simp add: granted_def)
  have fn: "sv_conn_fn ?sv" "sv_message_fn ?sv" using idleD(7) [OF id] by simp_all
  obtain c0 sv' where r: "Connection ok fd uuid taddr = Inr c0"
    "handleNewConnection env ok (el_thread (sv_ctl ?sv)) uuid fd taddr ?sv = Inr sv'" "life_inv sv'"
    and v: "view sv' = (view ?sv)\<lparr>vw_objs := (sv_objs ?sv)(sv_next ?sv \<mapsto>
        setCloseCallback True (setReadMessageCallback True (setConnectionCallback True c0))),
      vw_attaching := (attaching ?sv)(sv_next ?sv := 1), vw_next := Suc (sv_next ?sv)\<rparr>"
    using accept_keeps [OF li, of fd uuid taddr ok env] l ok fn by auto
  let ?c = "setCloseCallback True (setReadMessageCallback True (setConnectionCallback True c0))"
  have "in_base (cn_chan c0) = None"
    using r(1) by (auto simp: Connection_def bnd_eq_Inr assert_that_eq_Inr Channel_def setReadCallback_def setWriteCallback_def split: if_splits)
  then have c: "resp_conn ?c" "content (cn_write ?c) = []" "in_base (cn_chan ?c) = None"
    using Connection_fresh [OF r(1) ok] by (simp_all add: setCloseCallback_def setReadMessageCallback_def setConnectionCallback_def)
  have j: "j \<noteq> sv_next ?sv" if "undisturbed rp j d" for j d using undisturbed_attached [OF inv that] by simp
  have "resp_inv (rp\<lparr>rp_server := sv'\<rparr>) \<and> effect (R_accept uuid fd taddr) rp (rp\<lparr>rp_server := sv'\<rparr>)"
    by (rule server_only [OF inv r(3)])
      (use idle_accept [OF id c] in \<open>simp_all add: v viewD [OF v] undisturbed_def\<close>, use j in \<open>auto simp: undisturbed_def\<close>)
  moreover have "server_step env ok ?sv sv'" using server_step.accept [OF _ _ _ _ r(2)] l by simp
  ultimately show ?thesis using r(2) by (auto simp: steps_to_def)
qed

lemma step_ctl:
  assumes inv: "resp_inv rp" and g: "granted env ok"
  shows "\<exists>rp'. steps_to env ok R_ctl rp rp'"
proof -
  let ?sv = "rp_server rp"
  have li: "life_inv ?sv" and id: "idle (view ?sv) (rp_context rp) (rp_entries rp) (rp_next rp)" using inv by (simp_all add: resp_inv_def)
  obtain sv' where r: "next_task env Control ?sv = Inr sv'" "life_inv sv'"
    and v: "view sv' = view ?sv \<or> (\<exists>i c. sv_objs ?sv i = Some c \<and> chan_closed (cn_chan c) \<and>
      view sv' = (view ?sv)\<lparr>vw_objs := (sv_objs ?sv)(i := None)\<rparr>)" using ctl_keeps [OF li] by blast
  have "resp_inv (rp\<lparr>rp_server := sv'\<rparr>) \<and> effect R_ctl rp (rp\<lparr>rp_server := sv'\<rparr>)" using v
  proof
    assume v: "view sv' = view ?sv"
    show ?thesis
      by (rule server_only [OF inv r(2)]) (use id in \<open>simp_all add: v viewD [OF v] undisturbed_def\<close>)
  next
    assume "\<exists>i c. sv_objs ?sv i = Some c \<and> chan_closed (cn_chan c) \<and> view sv' = (view ?sv)\<lparr>vw_objs := (sv_objs ?sv)(i := None)\<rparr>"
    then obtain i c where c: "sv_objs ?sv i = Some c" "chan_closed (cn_chan c)"
      and v: "view sv' = (view ?sv)\<lparr>vw_objs := (sv_objs ?sv)(i := None)\<rparr>" by blast
    have j: "j \<noteq> i" if "undisturbed rp j d" for j d using that c closed_not_open by (auto simp: undisturbed_def)
    show ?thesis
      by (rule server_only [OF inv r(2)])
        (use idle_remove [OF id, of i] in \<open>simp_all add: v viewD [OF v] undisturbed_def\<close>, use j in \<open>auto simp: undisturbed_def\<close>)
  qed
  moreover have "server_step env ok ?sv sv'" using server_step.ctl [OF r(1)] .
  ultimately show ?thesis using r(1) by (auto simp: steps_to_def)
qed

text \<open>An operation that ends by putting the entry \<open>e\<close> into the wheel of the server \<open>sv'\<close>.\<close>

lemma insert_then:
  assumes "resp_inv rp" and "sv_wheel sv' = sv_wheel (rp_server rp)"
  shows "\<exists>w w'. sv_wheel (rp_server rp) = Some w \<and> wheel_ok w \<and> slots w = CONN_READ_WRITE_EXPIRES \<and> wheel_push_back e w = Inr w' \<and>
    wheel_run (\<lambda>_. False) [Insert e] w = Inr ([], w') \<and> timingWheelInsert e sv' = Inr (sv'\<lparr>sv_wheel := Some w'\<rparr>) \<and> wheel_ok w' \<and>
    slots w' = CONN_READ_WRITE_EXPIRES \<and> wheel_entries w' = insert e (dom (rp_entries rp))"
proof -
  obtain w where w: "sv_wheel (rp_server rp) = Some w" "wheel_ok w" "slots w = CONN_READ_WRITE_EXPIRES" "wheel_entries w = dom (rp_entries rp)"
    using assms(1) by (auto simp: resp_inv_def)
  obtain w' where "wheel_push_back e w = Inr w'" "wheel_step (\<lambda>_. False) (Insert e) w = Inr ([], w')" "wheel_ok w'" "slots w' = slots w"
    "wheel_entries w' = insert e (wheel_entries w)" using insert_entries [OF w(2)] .
  then show ?thesis using w assms(2) by (simp add: timingWheelInsert_def)
qed

text \<open>The entry of the open connection \<open>i\<close> is put into the newest bucket.\<close>

definition renewed :: "nat \<Rightarrow> resp \<Rightarrow> resp \<Rightarrow> bool" where
  "renewed i rp rp' \<longleftrightarrow> (\<exists>e c w w'. sv_wheel (rp_server rp) = Some w \<and> wheel_ok w \<and> slots w = CONN_READ_WRITE_EXPIRES \<and>
     wheel_push_back e w = Inr w' \<and> sv_wheel (rp_server rp') = Some w' \<and> rp_context rp' i = Some e \<and> undisturbed rp' i c)"

lemma attach_step:
  assumes inv: "resp_inv rp" and g: "granted env ok" and k: "k < length (loops (rp_server rp))"
    and q: "el_tasks (loop_of (Io k) (rp_server rp)) = AttachConn i # ts"
  shows "\<exists>rp'. steps_to env ok (R_task k) rp rp' \<and> renewed i rp rp'"
proof -
  let ?sv = "rp_server rp" and ?n = "rp_next rp"
  have li: "life_inv ?sv" and id: "idle (view ?sv) (rp_context rp) (rp_entries rp) ?n" using inv by (simp_all add: resp_inv_def)
  have env: "good_env env" using g by (simp add: granted_def)
  obtain c c' sv' where c: "sv_objs ?sv i = Some c" "attaching ?sv i = 1" "conn_attachToEventLoop env c = Inr c'" "chan_sync True False (cn_chan c')"
    and r: "next_task env (Io k) ?sv = Inr sv'" "life_inv sv'"
    and v: "view sv' = (view ?sv)\<lparr>vw_objs := (sv_objs ?sv)(i \<mapsto> c'), vw_attaching := (attaching ?sv)(i := 0)\<rparr>"
    using attach_keeps [OF li k env q] by blast
  have w: "watched (view ?sv) (rp_context rp) (rp_entries rp) i c" using idleD(2) [OF id] c(1) by simp
  then have rc: "resp_conn c" "content (cn_write c) = []" "rp_context rp i = None" using c(2) by (auto simp: watched_def)
  note f = attach_frame [OF c(3)]
  have rc': "resp_conn c'" "conn_ok c'" using resp_conn_same [OF rc(1)] f rc c(4) by (auto simp: resp_conn_def conn_ok_def)
  obtain w w' where w: "sv_wheel ?sv = Some w" "wheel_ok w" "slots w = CONN_READ_WRITE_EXPIRES" "wheel_push_back ?n w = Inr w'"
    "wheel_run (\<lambda>_. False) [Insert ?n] w = Inr ([], w')" "timingWheelInsert ?n sv' = Inr (sv'\<lparr>sv_wheel := Some w'\<rparr>)" "wheel_ok w'"
    "slots w' = CONN_READ_WRITE_EXPIRES" "wheel_entries w' = insert ?n (dom (rp_entries rp))"
    using insert_then [OF inv, of sv' ?n] viewD(5) [OF v] by auto
  let ?sv1 = "sv'\<lparr>sv_wheel := Some w'\<rparr>"
  define rp' where "rp' = rp\<lparr>rp_entries := (rp_entries rp)(?n \<mapsto> i), rp_next := Suc ?n, rp_server := ?sv1, rp_context := (rp_context rp)(i \<mapsto> ?n)\<rparr>"
  have run: "resp_exec env ok (R_task k) rp = Inr rp'"
    using r(1) q c(1) viewD(1) [OF v] f rc(1) w(6) by (simp add: resp_task_def onConnection_def rp'_def resp_conn_def Let_def)
  have steps: "(server_step env ok)\<^sup>*\<^sup>* ?sv ?sv1"
    using server_step.io [OF k r(1), of ok] server_step.wheel [of env ok sv' "Some w'"] by auto
  note v1 = view_wheel [where sv = sv' and x = "Some w'"]
  have "idle (view ?sv1) (rp_context rp') (rp_entries rp') (rp_next rp')"
    unfolding v1 v rp'_def using idle_wheel [OF idle_attach [OF id _ _ rc', of i c]] c(1,2) by simp
  then have inv': "resp_inv rp'" using wheel_keeps [OF r(2)] w(7-9) by (simp add: resp_inv_def rp'_def)
  have und: "undisturbed rp' j d" if "undisturbed rp j d" for j d
  proof -
    have "j \<noteq> i" using undisturbed_attached [OF inv that] c(2) by auto
    then show ?thesis using that viewD [OF v1] viewD [OF v] by (simp add: undisturbed_def rp'_def)
  qed
  have "effect (R_task k) rp rp'" by (rule effectI [OF w(1) _ w(5)]) (use und rc(3) in \<open>auto simp: rp'_def\<close>)
  moreover have "closings ?sv i = 0" using life_phase [OF life_invD(3) [OF li] c(1)] c(2) by (auto simp: conn_phase_def)
  then have "undisturbed rp' i c'" using viewD [OF v1] viewD [OF v] open_sync [OF c(4)] by (simp add: undisturbed_def rp'_def)
  then have "renewed i rp rp'" unfolding renewed_def using w(1-4) by (intro exI [of _ ?n]) (auto simp: rp'_def)
  ultimately show ?thesis using run steps inv' by (auto simp: steps_to_def rp'_def)
qed

lemma watched_attached:
  assumes "idle (view sv) C E n" and "sv_objs sv i = Some c" and "in_base (cn_chan c) \<noteq> None"
  shows "attaching sv i = 0 \<and> resp_conn c \<and> conn_ok c \<and> (\<exists>e. C i = Some e) \<and> (closings sv i = 0 \<longrightarrow> (\<exists>e. E e = Some i))"
  using idleD(2) [OF assms(1), of i c] assms(2,3) by (auto simp: watched_def split: if_splits)

text \<open>A connection changes and stays open, and nothing else changes but the wheel.\<close>

lemma idle_active:
  assumes "idle (view sv) C E n" and "sv_objs sv i = Some c" and "in_base (cn_chan c) \<noteq> None" and "resp_conn c'" and "conn_ok c'"
  shows "idle (view (sv\<lparr>sv_objs := (sv_objs sv)(i \<mapsto> c'), sv_wheel := x\<rparr>)) C E n"
proof (rule idle_update [OF assms(1)])
  let ?sv = "sv\<lparr>sv_objs := (sv_objs sv)(i \<mapsto> c'), sv_wheel := x\<rparr>"
  have "io_count t ?sv = io_count t sv" for t by (simp add: io_count_def loops_def)
  then show "watched (view ?sv) C E i c'"
    using watched_attached [OF assms(1-3)] assms(4,5) by (auto simp: watched_def)
qed (use assms(2) idleD(7) [OF assms(1)] in \<open>simp_all add: io_count_def loops_def\<close>)

lemma active_steps:
  assumes "sv_objs sv i = Some c" and "conn_ok c" and "conn_ok c'" and "same_conn c c'"
  shows "(server_step env ok)\<^sup>*\<^sup>* sv (sv\<lparr>sv_objs := (sv_objs sv)(i \<mapsto> c'), sv_wheel := x\<rparr>)"
proof -
  have "server_step env ok sv (sv\<lparr>sv_objs := (sv_objs sv)(i \<mapsto> c')\<rparr>)"
    using assms by (intro server_step.activity) (auto simp: conn_ok_def same_conn_def)
  moreover have "server_step env ok (sv\<lparr>sv_objs := (sv_objs sv)(i \<mapsto> c')\<rparr>) (sv\<lparr>sv_objs := (sv_objs sv)(i \<mapsto> c'), sv_wheel := x\<rparr>)"
    using server_step.wheel [of env ok "sv\<lparr>sv_objs := (sv_objs sv)(i \<mapsto> c')\<rparr>" x] by simp
  ultimately show ?thesis by (meson r_into_rtranclp rtranclp.rtrancl_into_rtrancl)
qed

text \<open>The message callback of a connection that has just become \<open>c\<close>.\<close>

lemma message_answered:
  assumes inv: "resp_inv rp" and env: "good_env env" and c: "resp_conn c" "conn_ok c" "answer_legal ok sr c"
    and ctx: "rp_context rp i = Some e"
  shows "\<exists>c' w w'. onMessage env ok sr er i (with_conn i c rp) = Inr (rp\<lparr>rp_server := (rp_server rp)\<lparr>
      sv_objs := (sv_objs (rp_server rp))(i \<mapsto> c'), sv_wheel := Some (if rp_entries rp e = None then w else w')\<rparr>\<rparr>) \<and>
    conn_ok c' \<and> resp_conn c' \<and> same_conn c c' \<and> sv_wheel (rp_server rp) = Some w \<and> wheel_ok w \<and> slots w = CONN_READ_WRITE_EXPIRES \<and>
    wheel_push_back e w = Inr w' \<and> wheel_run (\<lambda>_. False) [Insert e] w = Inr ([], w') \<and> wheel_ok w' \<and>
    slots w' = CONN_READ_WRITE_EXPIRES \<and> wheel_entries w' = insert e (dom (rp_entries rp))"
proof -
  let ?sv = "rp_server rp"
  obtain ss rb where rb: "consume 65535 (cn_read c) = Inr (ss, rb)" "slice_wf ss" "buf_wf rb"
    using consume_ok [of "cn_read c" 65535] c(1) by (auto simp: resp_conn_def)
  obtain c' where c': "conn_send env ok sr er (Some resp_message) (c\<lparr>cn_read := rb\<rparr>) = Inr (False, c')" "conn_ok c'" "resp_conn c'"
    "same_conn c c'" using answer_sent [OF c(1,2) env c(3) rb(3)] by blast
  let ?sv1 = "?sv\<lparr>sv_objs := (sv_objs ?sv)(i \<mapsto> c\<lparr>cn_read := rb\<rparr>)\<rparr>"
  obtain w w' where w: "sv_wheel ?sv = Some w" "wheel_ok w" "slots w = CONN_READ_WRITE_EXPIRES" "wheel_push_back e w = Inr w'"
    "wheel_run (\<lambda>_. False) [Insert e] w = Inr ([], w')" "wheel_ok w'" "slots w' = CONN_READ_WRITE_EXPIRES"
    "wheel_entries w' = insert e (dom (rp_entries rp))" and tw: "timingWheelInsert e ?sv1 = Inr (?sv1\<lparr>sv_wheel := Some w'\<rparr>)"
    using insert_then [OF inv, of ?sv1 e] by auto
  have "onMessage env ok sr er i (with_conn i c rp) = Inr (rp\<lparr>rp_server := ?sv\<lparr>
      sv_objs := (sv_objs ?sv)(i \<mapsto> c'), sv_wheel := Some (if rp_entries rp e = None then w else w')\<rparr>\<rparr>)"
    using rb(1) toString_wf [OF rb(2)] ctx c'(1) tw w(1) by (simp add: onMessage_def with_conn_def Let_def)
  then show ?thesis using c'(2-4) w by blast
qed

text \<open>An operation that changes the open connection \<open>i\<close> and perhaps renews its entry.\<close>

lemma active_effect:
  assumes inv: "resp_inv rp" and g: "granted env ok" and c: "sv_objs (rp_server rp) i = Some c" "in_base (cn_chan c) \<noteq> None"
    and c': "conn_ok c'" "resp_conn c'" "same_conn c c'" and op: "touches i op" "op \<noteq> R_tick"
    and w: "sv_wheel (rp_server rp) = Some w" "wheel_run (\<lambda>_. False) ws w = Inr (ds, x)" "wheel_ok x" "slots x = CONN_READ_WRITE_EXPIRES"
      "wheel_entries x = dom (rp_entries rp)"
    and ws: "count_list ws Tick = 0" "\<And>e. Insert e \<in> set ws \<Longrightarrow> renews i op \<and> rp_context rp i = Some e"
    and rp': "rp' = rp\<lparr>rp_server := (rp_server rp)\<lparr>sv_objs := (sv_objs (rp_server rp))(i \<mapsto> c'), sv_wheel := Some x\<rparr>\<rparr>"
  shows "(server_step env ok)\<^sup>*\<^sup>* (rp_server rp) (rp_server rp') \<and> resp_inv rp' \<and> effect op rp rp' \<and>
    (closings (rp_server rp) i = 0 \<longrightarrow> undisturbed rp' i c')"
proof -
  let ?sv = "rp_server rp" and ?sv' = "rp_server rp'"
  have li: "life_inv ?sv" and id: "idle (view ?sv) (rp_context rp) (rp_entries rp) (rp_next rp)" using inv by (simp_all add: resp_inv_def)
  have ok: "conn_ok c" using watched_attached [OF id c] by simp
  have steps: "(server_step env ok)\<^sup>*\<^sup>* ?sv ?sv'" using active_steps [OF c(1) ok c'(1,3)] by (simp add: rp')
  have "life_inv ?sv'" using server_system.steps_keep [OF steps] g li by blast
  moreover have "idle (view ?sv') (rp_context rp) (rp_entries rp) (rp_next rp)" using idle_active [OF id c c'(2,1)] by (simp add: rp')
  ultimately have inv': "resp_inv rp'" using w(3-5) by (simp add: resp_inv_def rp')
  have cnt: "closings ?sv' j = closings ?sv j" for j by (simp add: rp' io_count_def loops_def)
  have und: "undisturbed rp' j d" if "undisturbed rp j d" "\<not> touches j op" for j d
    using that cnt op(1) by (cases "j = i") (simp_all add: undisturbed_def, simp_all add: rp')
  have "effect op rp rp'" by (rule effectI [OF w(1) _ w(2)]) (use ws op(2) und in \<open>auto simp: rp'\<close>)
  moreover have "undisturbed rp' i c'" if "closings ?sv i = 0"
    using that cnt c'(1) open_sync [of True _ "cn_chan c'"] by (simp add: undisturbed_def conn_ok_def) (auto simp: rp')
  ultimately show ?thesis using steps inv' by blast
qed

lemma read_delivered:
  assumes "resp_conn c" and "conn_ok c" and "read_legal ok rv (cn_read c)" and "0 < rv_ret rv"
  shows "\<exists>c'. netFdReadHandle env ok rv c = Inr c' \<and> new_events c c' = [Message] \<and> resp_conn c' \<and> conn_ok c' \<and> same_conn c c' \<and>
    cn_write c' = cn_write c"
proof -
  obtain b where b: "reader_readv ok rv (cn_read c) = Inr (rv_ret rv, b)" "buf_wf b"
    using reader_delivers [OF _ assms(3,4)] assms(1) by (auto simp: resp_conn_def)
  let ?c = "c\<lparr>cn_read := b, cn_events := cn_events c @ [Message]\<rparr>"
  have "netFdReadHandle env ok rv c = Inr ?c" using b(1) assms(1,4) by (simp add: netFdReadHandle_def resp_conn_def)
  then show ?thesis using assms(1,2) b(2) by (simp add: new_events_def resp_conn_def conn_ok_def same_conn_def)
qed

lemma read_data:
  assumes inv: "resp_inv rp" and g: "granted env ok" and l: "resp_legal ok (R_read i rv sr er) rp" and d: "0 < rv_ret rv"
  shows "\<exists>rp'. steps_to env ok (R_read i rv sr er) rp rp' \<and> (closings (rp_server rp) i = 0 \<longrightarrow> renewed i rp rp')"
proof -
  let ?sv = "rp_server rp" and ?op = "R_read i rv sr er"
  have id: "idle (view ?sv) (rp_context rp) (rp_entries rp) (rp_next rp)" using inv by (simp add: resp_inv_def)
  obtain c where c: "sv_objs ?sv i = Some c" "in_base (cn_chan c) \<noteq> None" "read_legal ok rv (cn_read c)" "answer_legal ok sr c"
    using l d by (auto split: option.splits)
  obtain e where wt: "resp_conn c" "conn_ok c" "rp_context rp i = Some e" "closings ?sv i = 0 \<longrightarrow> (\<exists>e. rp_entries rp e = Some i)"
    using watched_attached [OF id c(1,2)] by auto
  obtain c1 where c1: "netFdReadHandle env ok rv c = Inr c1" "new_events c c1 = [Message]" "resp_conn c1" "conn_ok c1" "same_conn c c1"
    "answer_legal ok sr c1"
    using read_delivered [OF wt(1,2) c(3) d, of env] c(4) by (auto simp: answer_legal_def)
  obtain c2 w w' where m: "onMessage env ok sr er i (with_conn i c1 rp) = Inr (rp\<lparr>rp_server := ?sv\<lparr>
      sv_objs := (sv_objs ?sv)(i \<mapsto> c2), sv_wheel := Some (if rp_entries rp e = None then w else w')\<rparr>\<rparr>)"
    "conn_ok c2" "resp_conn c2" "same_conn c1 c2"
    and w: "sv_wheel ?sv = Some w" "wheel_ok w" "slots w = CONN_READ_WRITE_EXPIRES" "wheel_push_back e w = Inr w'"
      "wheel_run (\<lambda>_. False) [Insert e] w = Inr ([], w')" "wheel_ok w'" "slots w' = CONN_READ_WRITE_EXPIRES"
      "wheel_entries w' = insert e (dom (rp_entries rp))"
    using message_answered [OF inv _ c1(3,4,6) wt(3), of env er] g by (auto simp: granted_def)
  define x where "x = (if rp_entries rp e = None then w else w')"
  define rp' where "rp' = rp\<lparr>rp_server := ?sv\<lparr>sv_objs := (sv_objs ?sv)(i \<mapsto> c2), sv_wheel := Some x\<rparr>\<rparr>"
  have run: "resp_exec env ok ?op rp = Inr rp'" using c(1) c1(1,2) m(1) by (simp add: resp_readable_def rp'_def x_def)
  have "wheel_entries w = dom (rp_entries rp)" using inv w(1) by (auto simp: resp_inv_def)
  then have x: "wheel_ok x" "slots x = CONN_READ_WRITE_EXPIRES" "wheel_entries x = dom (rp_entries rp)" using w by (auto simp: x_def)
  define ws where "ws = (if rp_entries rp e = None then [] else [Insert e])"
  have ws: "wheel_run (\<lambda>_. False) ws w = Inr ([], x)" "count_list ws Tick = 0"
    "\<And>e'. Insert e' \<in> set ws \<Longrightarrow> renews i ?op \<and> rp_context rp i = Some e'"
    using w(5) wt(3) by (simp_all add: ws_def x_def split: if_splits)
  have "same_conn c c2" using c1(5) m(4) by (simp add: same_conn_def)
  note eff = active_effect [OF inv g c(1,2) m(2,3) this _ _ w(1) ws(1) x ws(2,3) rp'_def]
  have "renewed i rp rp'" if z: "closings ?sv i = 0"
  proof -
    have "rp_entries rp e \<noteq> None" using wt(3,4) z idleD(3) [OF id] by auto
    then have "x = w'" by (auto simp: x_def)
    then show ?thesis unfolding renewed_def using w(1-4) wt(3) eff z by (intro exI [of _ e] exI [of _ c2]) (auto simp: rp'_def)
  qed
  then show ?thesis using eff run by (auto simp: steps_to_def)
qed

text \<open>A handler that closes the connection: its close callback is the server's.\<close>

lemma callbacks_close:
  assumes "sv_objs (rp_server rp) i = Some c" and "netFdCloseHandle env c = Inr c'" and "cn_close_fn c"
  shows "conn_callbacks env ok sr er tid i (new_events c c') (with_conn i c' rp) =
    bnd (connection_closes env tid i (rp_server rp)) (\<lambda>sv. Inr (rp\<lparr>rp_server := sv\<rparr>))"
proof -
  have f: "new_events c c' = [Closed]" "cn_close_fn c'" using close_frame [OF assms(2)] assms(3) by (auto simp: same_conn_def)
  let ?sv = "(rp_server rp)\<lparr>sv_objs := (sv_objs (rp_server rp))(i \<mapsto> c')\<rparr>"
  show ?thesis using assms f
    by (cases "handleCloseConnection tid i ?sv") (simp_all add: connection_closes_def with_conn_def Let_def)
qed

lemma home_not_ctl:
  assumes "life_inv sv" and "sv_objs sv i \<noteq> None"
  shows "home_thread i sv \<noteq> el_thread (sv_ctl sv)"
proof -
  obtain k where "k < length (loops sv)" "sv_home sv i = Some (Io k)"
    using life_invD(2) [OF assms(1)] assms(2) by (auto simp: homes_ok_def)
  then show ?thesis using io_thread [OF life_invD(1) [OF assms(1)], of k] by (simp add: home_thread_def)
qed

lemma closing_step:
  assumes inv: "resp_inv rp" and g: "granted env ok" and c: "sv_objs (rp_server rp) i = Some c" "in_base (cn_chan c) \<noteq> None"
    and op: "touches i op" "op \<noteq> R_tick"
    and run: "\<And>c'. netFdCloseHandle env c = Inr c' \<Longrightarrow> resp_exec env ok op rp =
      conn_callbacks env ok sr er (home_thread i (rp_server rp)) i (new_events c c') (with_conn i c' rp)"
  shows "\<exists>rp'. steps_to env ok op rp rp'"
proof -
  let ?sv = "rp_server rp"
  have li: "life_inv ?sv" and id: "idle (view ?sv) (rp_context rp) (rp_entries rp) (rp_next rp)" using inv by (simp_all add: resp_inv_def)
  have env: "good_env env" using g by (simp add: granted_def)
  have wt: "attaching ?sv i = 0" "resp_conn c" "rp_context rp i \<noteq> None" using watched_attached [OF id c] by auto
  have tid: "home_thread i ?sv \<noteq> el_thread (sv_ctl ?sv)" using home_not_ctl [OF li] c(1) by simp
  obtain c' sv' where r: "netFdCloseHandle env c = Inr c'" "connection_closes env (home_thread i ?sv) i ?sv = Inr sv'"
    "closed_by ?sv i c' sv'" "life_inv sv'" using close_keeps [OF li c(1) wt(1) env tid] by blast
  note v = closed_by_same(13) [OF r(3)]
  have "resp_conn c'" by (rule close_resp [OF r(1) wt(2)])
  then have wt': "watched (view sv') (rp_context rp) (rp_entries rp) i c'"
    using wt closed_by_same(12) [OF r(3)] closed_not_open by (auto simp: watched_def v)
  have "idle (view sv') (rp_context rp) (rp_entries rp) (rp_next rp)"
    by (rule idle_update [OF id _ wt', of c]) (use c(1) idleD(7) [OF id] in \<open>simp_all add: v\<close>)
  moreover have "sv_objs sv' j = Some d \<and> closings sv' j = 0" if "undisturbed rp j d" "\<not> touches j op" for j d
    using that op(1) viewD [OF v] by (cases "j = i") (auto simp: undisturbed_def)
  ultimately have "resp_inv (rp\<lparr>rp_server := sv'\<rparr>) \<and> effect op rp (rp\<lparr>rp_server := sv'\<rparr>)"
    using server_only [OF inv r(4), of op] viewD(5) [OF v] op(2) by simp
  moreover have "server_step env ok ?sv sv'" by (rule server_step.closing [OF c(1) wt(1) tid r(2)])
  moreover have "resp_exec env ok op rp = Inr (rp\<lparr>rp_server := sv'\<rparr>)"
    using run [OF r(1)] callbacks_close [OF c(1) r(1)] wt(2) r(2) by (simp add: resp_conn_def)
  ultimately show ?thesis by (auto simp: steps_to_def)
qed

lemma step_read:
  assumes inv: "resp_inv rp" and g: "granted env ok" and l: "resp_legal ok (R_read i rv sr er) rp"
  shows "\<exists>rp'. steps_to env ok (R_read i rv sr er) rp rp'"
proof (cases "0 < rv_ret rv")
  case True
  then show ?thesis using read_data [OF inv g l] by blast
next
  case False
  obtain c where c: "sv_objs (rp_server rp) i = Some c" "in_base (cn_chan c) \<noteq> None" using l by (auto split: option.splits)
  have "resp_conn c" using watched_attached [OF _ c] inv by (auto simp: resp_inv_def)
  then have "netFdReadHandle env ok rv c = netFdCloseHandle env c" using read_eof False by (simp add: resp_conn_def)
  then show ?thesis by (intro closing_step [OF inv g c]) (use c in \<open>simp_all add: resp_readable_def\<close>)
qed

lemma step_write:
  assumes inv: "resp_inv rp" and g: "granted env ok" and l: "resp_legal ok (R_write i n er) rp"
  shows "\<exists>rp'. steps_to env ok (R_write i n er) rp rp'"
proof -
  obtain c where c: "sv_objs (rp_server rp) i = Some c" "in_base (cn_chan c) \<noteq> None" "isWritable (cn_chan c)" "n \<le> int (length (content (cn_write c)))"
    using l by (auto split: option.splits)
  have wt: "resp_conn c" "conn_ok c" using watched_attached [OF _ c(1,2)] inv by (auto simp: resp_inv_def)
  have env: "good_env env" using g by (simp add: granted_def)
  show ?thesis
  proof (cases "0 < n \<or> EVUTIL_ERR_RW_RETRIABLE er")
    case True
    have "content (cn_write c) \<noteq> []" using wt(2) c(3) isWritable_sync by (auto simp: conn_ok_def)
    then obtain c' where c': "netFdWriteHandle env n er c = Inr c'" "conn_ok c'" using write_handle_ok [OF wt(2) env _ True c(4)] by blast
    have f: "same_conn c c'" "cn_read c' = cn_read c" "new_events c c' = []"
      using write_frame [OF c'(1) True] wt(1) by (auto simp: resp_conn_def)
    then have rc: "resp_conn c'" using resp_conn_same [OF wt(1)] wt(1) c'(2) by (simp add: resp_conn_def conn_ok_def)
    obtain w where w: "sv_wheel (rp_server rp) = Some w" "wheel_ok w" "slots w = CONN_READ_WRITE_EXPIRES" "wheel_entries w = dom (rp_entries rp)"
      using inv by (auto simp: resp_inv_def)
    let ?rp = "rp\<lparr>rp_server := (rp_server rp)\<lparr>sv_objs := (sv_objs (rp_server rp))(i \<mapsto> c'), sv_wheel := Some w\<rparr>\<rparr>"
    have "(server_step env ok)\<^sup>*\<^sup>* (rp_server rp) (rp_server ?rp) \<and> resp_inv ?rp \<and> effect (R_write i n er) rp ?rp \<and>
        (closings (rp_server rp) i = 0 \<longrightarrow> undisturbed ?rp i c')"
      by (rule active_effect [OF inv g c(1,2) c'(2) rc f(1) _ _ w(1) _ w(2-4), of _ "[]" "[]"]) simp_all
    moreover have "resp_exec env ok (R_write i n er) rp = Inr ?rp"
      using c(1) c'(1) f(3) w(1) by (simp add: resp_writable_def with_conn_def)
    ultimately show ?thesis by (auto simp: steps_to_def)
  next
    case False
    have "unreadBytes (cn_write c) = Inr (length (content (cn_write c)))" using wt(1) by (simp add: unread_content resp_conn_def)
    then have "netFdWriteHandle env n er c = netFdCloseHandle env c"
      using False c(3) by (simp add: netFdWriteHandle_def netFdErrorHandle_def)
    then show ?thesis by (intro closing_step [OF inv g c(1,2)]) (use c(1) in \<open>simp_all add: resp_writable_def\<close>)
  qed
qed

lemma step_task:
  assumes inv: "resp_inv rp" and g: "granted env ok" and l: "resp_legal ok (R_task k) rp"
  shows "\<exists>rp'. steps_to env ok (R_task k) rp rp'"
proof (cases "el_tasks (loop_of (Io k) (rp_server rp))")
  case Nil
  have "resp_inv (rp\<lparr>rp_server := rp_server rp\<rparr>) \<and> effect (R_task k) rp (rp\<lparr>rp_server := rp_server rp\<rparr>)"
    by (rule server_only [OF inv]) (use inv in \<open>simp_all add: resp_inv_def undisturbed_def\<close>)
  then show ?thesis using Nil by (auto simp: steps_to_def resp_task_def next_task_def)
next
  case (Cons t ts)
  let ?sv = "rp_server rp"
  have li: "life_inv ?sv" and id: "idle (view ?sv) (rp_context rp) (rp_entries rp) (rp_next rp)" using inv by (simp_all add: resp_inv_def)
  have k: "k < length (loops ?sv)" using l by simp
  show ?thesis
  proof (cases t)
    case (AttachConn i)
    then show ?thesis using attach_step [OF inv g k] Cons by blast
  next
    case (CloseConn i)
    then obtain c c' sv' where c: "sv_objs ?sv i = Some c" "attaching ?sv i = 0" "netFdCloseHandle env c = Inr c'" "chan_closed (cn_chan c')"
      and r: "next_task env (Io k) ?sv = Inr sv'" "life_inv sv'"
      and v: "view sv' = (view ?sv)\<lparr>vw_objs := (sv_objs ?sv)(i \<mapsto> c'), vw_closings := (closings ?sv)(i := closings ?sv i - 1)\<rparr>"
      using closing_task [OF li k, of env i ts] Cons g by (auto simp: granted_def)
    have wt: "resp_conn c" "rp_context rp i \<noteq> None" using idleD(2) [OF id, of i c] c(1,2) by (auto simp: watched_def)
    have "resp_conn c'" by (rule close_resp [OF c(3) wt(1)])
    then have wt': "watched (view sv') (rp_context rp) (rp_entries rp) i c'" using wt(2) c(2,4) closed_not_open by (auto simp: watched_def v)
    have "idle (view sv') (rp_context rp) (rp_entries rp) (rp_next rp)"
      by (rule idle_update [OF id _ wt', of c]) (use c(1) idleD(7) [OF id] in \<open>simp_all add: v\<close>)
    moreover have "sv_objs sv' j = Some d \<and> closings sv' j = 0" if "undisturbed rp j d" for j d
    proof -
      have "0 < closings ?sv i" using pop_task_ok [OF life_invD(1) [OF li] k Cons] CloseConn by simp
      then show ?thesis using that viewD [OF v] by (cases "j = i") (auto simp: undisturbed_def)
    qed
    ultimately have "resp_inv (rp\<lparr>rp_server := sv'\<rparr>) \<and> effect (R_task k) rp (rp\<lparr>rp_server := sv'\<rparr>)"
      using server_only [OF inv r(2), of "R_task k"] viewD(5) [OF v] by simp
    then show ?thesis using r(1) Cons CloseConn server_step.io [OF k r(1), of ok] by (auto simp: steps_to_def resp_task_def)
  qed (use pop_task_ok [OF life_invD(1) [OF li] k Cons] in simp_all)
qed

lemma entry_destroyed_ok:
  assumes li: "life_inv (rp_server rp)" and g: "granted env ok"
    and id: "idle (view (rp_server rp)) (rp_context rp) (rp_entries rp) (rp_next rp)" and e: "rp_entries rp e = Some i"
  shows "\<exists>sv'. entry_destroyed env e rp = Inr (rp\<lparr>rp_entries := (rp_entries rp)(e := None), rp_server := sv'\<rparr>) \<and>
    (server_step env ok)\<^sup>*\<^sup>* (rp_server rp) sv' \<and> life_inv sv' \<and> idle (view sv') (rp_context rp) ((rp_entries rp)(e := None)) (rp_next rp) \<and>
    sv_objs sv' = sv_objs (rp_server rp) \<and> sv_wheel sv' = sv_wheel (rp_server rp) \<and>
    (\<forall>j. j \<noteq> i \<longrightarrow> closings sv' j = closings (rp_server rp) j)"
proof -
  let ?sv = "rp_server rp"
  show ?thesis
  proof (cases "sv_objs ?sv i")
    case None
    have "(closings ?sv)(i := closings ?sv i) = closings ?sv" by (auto simp: fun_eq_iff)
    then have "idle (view ?sv) (rp_context rp) ((rp_entries rp)(e := None)) (rp_next rp)"
      using idle_expire [OF id e, of "closings ?sv i"] None by (simp add: view_def)
    then show ?thesis using None e li by (intro exI [of _ ?sv]) (simp add: entry_destroyed_def)
  next
    case (Some c)
    have "attaching ?sv i = 0" using idleD(2) [OF id, of i c] idleD(3) [OF id e] Some by (auto simp: watched_def split: if_splits)
    from close_call_keeps [OF li Some this, of env "el_thread (sv_ctl ?sv)"] g
    obtain sv' where r: "connection_close env (el_thread (sv_ctl ?sv)) i ?sv = Inr sv'" "life_inv sv'"
      and v: "view sv' = (view ?sv)\<lparr>vw_closings := (closings ?sv)(i := Suc (closings ?sv i))\<rparr>" by (auto simp: granted_def)
    have "idle (view sv') (rp_context rp) ((rp_entries rp)(e := None)) (rp_next rp)"
      using idle_expire [OF id e, of "Suc (closings ?sv i)"] by (simp add: v)
    moreover have "(server_step env ok)\<^sup>*\<^sup>* ?sv sv'" using server_step.close_call [OF Some \<open>attaching ?sv i = 0\<close> r(1)] by auto
    ultimately show ?thesis using r Some e viewD [OF v] by (intro exI [of _ sv']) (simp add: entry_destroyed_def)
  qed
qed

lemma entries_expire_ok:
  assumes "life_inv (rp_server rp)" and g: "granted env ok"
    and "idle (view (rp_server rp)) (rp_context rp) (rp_entries rp) (rp_next rp)" and "distinct es" and "set es \<subseteq> dom (rp_entries rp)"
  shows "\<exists>sv'. entries_expire env es rp = Inr (rp\<lparr>rp_entries := rp_entries rp |` (- set es), rp_server := sv'\<rparr>) \<and>
    (server_step env ok)\<^sup>*\<^sup>* (rp_server rp) sv' \<and> life_inv sv' \<and> idle (view sv') (rp_context rp) (rp_entries rp |` (- set es)) (rp_next rp) \<and>
    sv_objs sv' = sv_objs (rp_server rp) \<and> sv_wheel sv' = sv_wheel (rp_server rp) \<and>
    (\<forall>j. (\<forall>e\<in>set es. rp_entries rp e \<noteq> Some j) \<longrightarrow> closings sv' j = closings (rp_server rp) j)"
  using assms
proof (induction es arbitrary: rp)
  case Nil
  then show ?case by (intro exI [of _ "rp_server rp"]) (simp add: restrict_map_def)
next
  case (Cons e es)
  obtain i where i: "rp_entries rp e = Some i" using Cons.prems(5) by auto
  obtain sv1 where r1: "entry_destroyed env e rp = Inr (rp\<lparr>rp_entries := (rp_entries rp)(e := None), rp_server := sv1\<rparr>)"
    "(server_step env ok)\<^sup>*\<^sup>* (rp_server rp) sv1" "life_inv sv1" "idle (view sv1) (rp_context rp) ((rp_entries rp)(e := None)) (rp_next rp)"
    "sv_objs sv1 = sv_objs (rp_server rp)" "sv_wheel sv1 = sv_wheel (rp_server rp)"
    "\<forall>j. j \<noteq> i \<longrightarrow> closings sv1 j = closings (rp_server rp) j"
    using entry_destroyed_ok [OF Cons.prems(1,2,3) i] by blast
  let ?rp = "rp\<lparr>rp_entries := (rp_entries rp)(e := None), rp_server := sv1\<rparr>"
  have sub: "set es \<subseteq> dom (rp_entries ?rp)" using Cons.prems(4,5) by auto
  have pre: "life_inv (rp_server ?rp)" "idle (view (rp_server ?rp)) (rp_context ?rp) (rp_entries ?rp) (rp_next ?rp)" "distinct es"
    using r1(3,4) Cons.prems(4) by simp_all
  from Cons.IH [OF pre(1) g pre(2,3) sub]
  obtain sv2 where r2: "entries_expire env es ?rp = Inr (?rp\<lparr>rp_entries := rp_entries ?rp |` (- set es), rp_server := sv2\<rparr>)"
    "(server_step env ok)\<^sup>*\<^sup>* (rp_server ?rp) sv2" "life_inv sv2"
    "idle (view sv2) (rp_context ?rp) (rp_entries ?rp |` (- set es)) (rp_next ?rp)"
    "sv_objs sv2 = sv_objs (rp_server ?rp)" "sv_wheel sv2 = sv_wheel (rp_server ?rp)"
    "\<forall>j. (\<forall>e\<in>set es. rp_entries ?rp e \<noteq> Some j) \<longrightarrow> closings sv2 j = closings (rp_server ?rp) j"
    by blast
  have m: "rp_entries ?rp |` (- set es) = rp_entries rp |` (- set (e # es))" by (auto simp: restrict_map_def)
  have "closings sv2 j = closings (rp_server rp) j" if "\<forall>e'\<in>set (e # es). rp_entries rp e' \<noteq> Some j" for j
    using that i r1(7) r2(7) by auto
  moreover have "entries_expire env (e # es) rp = Inr (rp\<lparr>rp_entries := rp_entries rp |` (- set (e # es)), rp_server := sv2\<rparr>)"
    using r1(1) r2(1) unfolding m by simp
  moreover have "(server_step env ok)\<^sup>*\<^sup>* (rp_server rp) sv2" using r1(2) r2(2) by simp
  moreover have "idle (view sv2) (rp_context rp) (rp_entries rp |` (- set (e # es))) (rp_next rp)" using r2(4) unfolding m by simp
  ultimately show ?case using r1(5,6) r2(3,5,6) by (intro exI [of _ sv2]) simp
qed

lemma step_tick:
  assumes inv: "resp_inv rp" and g: "granted env ok"
  shows "\<exists>rp'. steps_to env ok R_tick rp rp'"
proof -
  let ?sv = "rp_server rp"
  have li: "life_inv ?sv" and id: "idle (view ?sv) (rp_context rp) (rp_entries rp) (rp_next rp)" using inv by (simp_all add: resp_inv_def)
  obtain w where w: "sv_wheel ?sv = Some w" "wheel_ok w" "slots w = CONN_READ_WRITE_EXPIRES" "wheel_entries w = dom (rp_entries rp)"
    using inv by (auto simp: resp_inv_def)
  obtain es w' where t: "wheel_push_bucket (\<lambda>_. False) [] w = Inr (es, w')" "wheel_ok w'" "slots w' = slots w"
    "wheel_entries w' = wheel_entries w - set es" "set es \<subseteq> wheel_entries w" "distinct es" using tick_entries [OF w(2)] .
  let ?sv1 = "?sv\<lparr>sv_wheel := Some w'\<rparr>"
  have id1: "idle (view ?sv1) (rp_context rp) (rp_entries rp) (rp_next rp)"
    unfolding view_wheel by (rule idle_wheel [OF id])
  obtain sv' where r: "entries_expire env es (rp\<lparr>rp_server := ?sv1\<rparr>) = Inr (rp\<lparr>rp_entries := rp_entries rp |` (- set es), rp_server := sv'\<rparr>)"
    "(server_step env ok)\<^sup>*\<^sup>* ?sv1 sv'" "life_inv sv'" "idle (view sv') (rp_context rp) (rp_entries rp |` (- set es)) (rp_next rp)"
    "sv_objs sv' = sv_objs ?sv" "sv_wheel sv' = Some w'"
    "\<And>j. \<forall>e\<in>set es. rp_entries rp e \<noteq> Some j \<Longrightarrow> closings sv' j = closings ?sv1 j"
    using entries_expire_ok [of "rp\<lparr>rp_server := ?sv1\<rparr>" env ok es] wheel_keeps [OF li] g id1 t(5,6) w(4) by auto
  define rp' where "rp' = rp\<lparr>rp_entries := rp_entries rp |` (- set es), rp_server := sv'\<rparr>"
  have run: "resp_exec env ok R_tick rp = Inr rp'" using w(1) t(1) r(1) by (simp add: resp_tick_def wheel_tick_def rp'_def)
  have steps: "(server_step env ok)\<^sup>*\<^sup>* ?sv sv'"
    using server_step.wheel [of env ok ?sv "Some w'"] r(2) by (rule converse_rtranclp_into_rtranclp)
  have inv': "resp_inv rp'" using r(3,4,6) t(2-4) w(3,4) by (simp add: resp_inv_def rp'_def Diff_eq)
  have und: "undisturbed rp' j d" if "undisturbed rp j d" "rp_entries rp' e = Some j" for j d e
  proof -
    have e: "rp_entries rp e = Some j" "e \<notin> set es" using that(2) by (auto simp: rp'_def restrict_map_def split: if_splits)
    have "\<forall>e'\<in>set es. rp_entries rp e' \<noteq> Some j"
    proof
      fix e' assume "e' \<in> set es"
      then show "rp_entries rp e' \<noteq> Some j" using e idleD(3) [OF id, of e' j] idleD(3) [OF id e(1)] by auto
    qed
    then have "closings sv' j = closings ?sv j" using r(7) [of j] by (simp add: io_count_def loops_def)
    then show ?thesis using that(1) r(5) by (simp add: undisturbed_def rp'_def)
  qed
  have tk: "wheel_run (\<lambda>_. False) [Tick] w = Inr (es, w')" using t(1) by simp
  have old: "rp_entries rp e = Some i" if "rp_entries rp' e = Some i" for e i
    using that by (auto simp: rp'_def restrict_map_def split: if_splits)
  have "effect R_tick rp rp'" by (rule effectI [OF w(1) _ tk]) (use r(6) und old in \<open>auto simp: rp'_def\<close>)
  then show ?thesis using run steps inv' by (auto simp: steps_to_def rp'_def)
qed

text \<open>All operations together.\<close>

lemma resp_steps:
  assumes "resp_inv rp" and "granted env ok" and "resp_legal ok op rp"
  shows "\<exists>rp'. steps_to env ok op rp rp'"
proof (cases op)
  case (R_accept uuid fd taddr)
  then show ?thesis using step_accept [OF assms(1,2)] assms(3) by blast
next
  case (R_task k)
  then show ?thesis using step_task [OF assms(1,2)] assms(3) by blast
next
  case (R_read i rv sr er)
  then show ?thesis using step_read [OF assms(1,2)] assms(3) by blast
next
  case (R_write i n er)
  then show ?thesis using step_write [OF assms(1,2)] assms(3) by blast
qed (use step_ctl [OF assms(1,2)] step_tick [OF assms(1,2)] in blast)+

section \<open>Runs\<close>

fun resp_run :: "event_env \<Rightarrow> (nat \<Rightarrow> bool) \<Rightarrow> resp_op list \<Rightarrow> resp \<Rightarrow> resp result" where
  "resp_run env ok [] rp = Inr rp"
| "resp_run env ok (op # ops) rp = bnd (resp_exec env ok op rp) (resp_run env ok ops)"

fun resp_legals :: "event_env \<Rightarrow> (nat \<Rightarrow> bool) \<Rightarrow> resp_op list \<Rightarrow> resp \<Rightarrow> bool" where
  "resp_legals env ok [] rp \<longleftrightarrow> True"
| "resp_legals env ok (op # ops) rp \<longleftrightarrow> resp_legal ok op rp \<and>
     (case resp_exec env ok op rp of Inl f \<Rightarrow> True | Inr rp1 \<Rightarrow> resp_legals env ok ops rp1)"

text \<open>What a whole run does: the wheel turns once per tick, and entries of connections that are not read are not renewed.\<close>

definition run_effect :: "resp_op list \<Rightarrow> resp \<Rightarrow> resp \<Rightarrow> bool" where
  "run_effect ops rp rp' \<longleftrightarrow>
     (\<exists>ws ds w w'. sv_wheel (rp_server rp) = Some w \<and> sv_wheel (rp_server rp') = Some w' \<and> wheel_run (\<lambda>_. False) ws w = Inr (ds, w') \<and>
        count_list ws Tick = count_list ops R_tick \<and>
        (\<forall>i e. rp_context rp i = Some e \<and> (\<forall>op\<in>set ops. \<not> renews i op) \<longrightarrow> Insert e \<notin> set ws)) \<and>
     (\<forall>i e. rp_context rp i = Some e \<longrightarrow> rp_context rp' i = Some e) \<and>
     (\<forall>e i. rp_entries rp' e = Some i \<and> e < rp_next rp \<longrightarrow> rp_entries rp e = Some i) \<and> rp_next rp \<le> rp_next rp' \<and>
     (\<forall>i c. undisturbed rp i c \<and> (\<forall>op\<in>set ops. \<not> touches i op) \<and> (\<exists>e. rp_entries rp' e = Some i) \<longrightarrow> undisturbed rp' i c)"

lemma run_effect_cons:
  assumes inv: "resp_inv rp" "resp_inv rp2" and ef: "effect op rp rp1" and run: "run_effect ops rp1 rp2"
  shows "run_effect (op # ops) rp rp2"
proof -
  have id: "idle (view (rp_server rp)) (rp_context rp) (rp_entries rp) (rp_next rp)"
    and id2: "idle (view (rp_server rp2)) (rp_context rp2) (rp_entries rp2) (rp_next rp2)" using inv by (simp_all add: resp_inv_def)
  obtain ws ds w w1 where a: "sv_wheel (rp_server rp) = Some w" "sv_wheel (rp_server rp1) = Some w1" "wheel_run (\<lambda>_. False) ws w = Inr (ds, w1)"
    "count_list ws Tick = (if op = R_tick then 1 else 0)"
    "\<And>e. Insert e \<in> set ws \<Longrightarrow> rp_next rp \<le> e \<or> (\<exists>i. renews i op \<and> rp_context rp i = Some e)"
    using ef unfolding effect_def by blast
  have c: "\<And>i e. rp_context rp i = Some e \<Longrightarrow> rp_context rp1 i = Some e" "rp_next rp \<le> rp_next rp1"
    "\<And>e i. rp_entries rp1 e = Some i \<Longrightarrow> e < rp_next rp \<Longrightarrow> rp_entries rp e = Some i"
    and u: "\<And>i c. undisturbed rp i c \<Longrightarrow> \<not> touches i op \<Longrightarrow> (op = R_tick \<Longrightarrow> \<exists>e. rp_entries rp1 e = Some i) \<Longrightarrow> undisturbed rp1 i c"
    using ef unfolding effect_def by blast+
  obtain vs es w2 where b: "sv_wheel (rp_server rp2) = Some w2" "wheel_run (\<lambda>_. False) vs w1 = Inr (es, w2)"
    "count_list vs Tick = count_list ops R_tick"
    "\<And>i e. rp_context rp1 i = Some e \<Longrightarrow> \<forall>op\<in>set ops. \<not> renews i op \<Longrightarrow> Insert e \<notin> set vs"
    using run a(2) unfolding run_effect_def by (metis option.inject)
  have d: "\<And>i e. rp_context rp1 i = Some e \<Longrightarrow> rp_context rp2 i = Some e" "rp_next rp1 \<le> rp_next rp2"
    "\<And>e i. rp_entries rp2 e = Some i \<Longrightarrow> e < rp_next rp1 \<Longrightarrow> rp_entries rp1 e = Some i"
    and v: "\<And>i c. undisturbed rp1 i c \<Longrightarrow> \<forall>op\<in>set ops. \<not> touches i op \<Longrightarrow> \<exists>e. rp_entries rp2 e = Some i \<Longrightarrow> undisturbed rp2 i c"
    using run unfolding run_effect_def by blast+
  have "count_list (ws @ vs) Tick = count_list (op # ops) R_tick" using a(4) b(3) by simp
  moreover have "Insert e \<notin> set (ws @ vs)" if "rp_context rp i = Some e" "\<forall>op\<in>set (op # ops). \<not> renews i op" for i e
  proof -
    have "Insert e \<notin> set ws" using a(5) [of e] idleD(4) [OF id that(1)] idleD(5) [OF id that(1)] that(2) by fastforce
    then show ?thesis using b(4) [OF c(1) [OF that(1)]] that(2) by simp
  qed
  moreover have "undisturbed rp2 i x"
    if x: "undisturbed rp i x" "\<forall>op\<in>set (op # ops). \<not> touches i op" "rp_entries rp2 e = Some i" for i x e
  proof -
    obtain e' where e': "rp_context rp i = Some e'"
      using watched_attached [OF id, of i x] x(1) by (auto simp: undisturbed_def)
    have "rp_context rp2 i = Some e" using idleD(3) [OF id2 x(3)] .
    then have "e = e'" using d(1) [OF c(1) [OF e']] by simp
    then have "rp_entries rp1 e = Some i" using d(3) [OF x(3)] idleD(4) [OF id e'] c(2) by simp
    then show ?thesis using v [OF u [OF x(1)]] x(2,3) by auto
  qed
  moreover have "rp_entries rp e = Some i" if "rp_entries rp2 e = Some i" "e < rp_next rp" for e i
    using c(2,3) d(3) that by (meson order_less_le_trans)
  ultimately show ?thesis unfolding run_effect_def using a(1) b(1) wheel_run_append [OF a(3) b(2)] c(1,2) d(1,2)
    by (meson order_trans)
qed

lemma run_effect_nil: "resp_inv rp \<Longrightarrow> run_effect [] rp rp"
  unfolding run_effect_def resp_inv_def by (auto intro!: exI [of _ "[]"])

lemma resp_run_ok:
  "resp_inv rp \<Longrightarrow> granted env ok \<Longrightarrow> resp_legals env ok ops rp \<Longrightarrow>
   \<exists>rp'. resp_run env ok ops rp = Inr rp' \<and> resp_inv rp' \<and> run_effect ops rp rp'"
proof (induction ops arbitrary: rp)
  case Nil
  then show ?case using run_effect_nil by simp
next
  case (Cons op ops)
  obtain rp1 where r1: "resp_exec env ok op rp = Inr rp1" "resp_inv rp1" "effect op rp rp1"
    using resp_steps [OF Cons.prems(1,2), of op] Cons.prems(3) by (auto simp: steps_to_def)
  then have "resp_legals env ok ops rp1" using Cons.prems(3) by simp
  then obtain rp2 where r2: "resp_run env ok ops rp1 = Inr rp2" "resp_inv rp2" "run_effect ops rp1 rp2"
    using Cons.IH [OF r1(2) Cons.prems(2)] by blast
  then show ?case using r1 run_effect_cons [OF Cons.prems(1) r2(2) r1(3) r2(3)] by auto
qed

section \<open>The example as a server\<close>

inductive resp_step :: "event_env \<Rightarrow> (nat \<Rightarrow> bool) \<Rightarrow> resp \<Rightarrow> resp \<Rightarrow> bool" for env ok where
  op: "resp_legal ok op rp \<Longrightarrow> resp_exec env ok op rp = Inr rp' \<Longrightarrow> resp_step env ok rp rp'"

inductive_cases resp_stepE: "resp_step env ok rp rp'"

interpretation resp_system: step_simulation "resp_step env ok" "\<lambda>rp. granted env ok \<and> resp_inv rp" "server_step env ok" rp_server for env ok
proof unfold_locales
  fix rp rp' assume s: "resp_step env ok rp rp'" and "granted env ok \<and> resp_inv rp"
  then show "granted env ok \<and> resp_inv rp'" "(server_step env ok)\<^sup>*\<^sup>* (rp_server rp) (rp_server rp')"
    using resp_steps [of rp env ok] by (fastforce simp: steps_to_def elim: resp_stepE)+
qed

section \<open>Starting\<close>

text \<open>\<open>test1\<close> of the example, up to the dispatching of the control loop.\<close>

definition test1 ::
  "listen_env \<Rightarrow> (nat \<Rightarrow> spawn_env) \<Rightarrow> event_env \<Rightarrow> int \<Rightarrow> nat \<Rightarrow> nat \<Rightarrow> sock \<Rightarrow> string \<Rightarrow> resp result" where
  "test1 lenv spawn env efd tid nprocs s0 uuid =
     bnd (Resp200Server efd tid nprocs s0 uuid) (\<lambda>rp.
     bnd (server_start lenv spawn env tid (rp_server rp)) (\<lambda>sv. Inr (rp\<lparr>rp_server := sv\<rparr>)))"

text \<open>A server that has started and whose wheel has turned once.\<close>

definition resp_start :: "resp \<Rightarrow> bool" where
  "resp_start rp \<longleftrightarrow> idle_server (rp_server rp) \<and> sv_conn_fn (rp_server rp) \<and> sv_message_fn (rp_server rp) \<and>
     rp_context rp = Map.empty \<and> rp_entries rp = Map.empty \<and> rp_next rp = 0 \<and>
     (\<exists>w. sv_wheel (rp_server rp) = Some w \<and>
        wheel_push_bucket (\<lambda>_. False) [] (TimingWheel CONN_READ_WRITE_EXPIRES TIMIING_WHEEL_STEP) = Inr ([], w))"

lemma first_tick:
  "wheel_push_bucket (\<lambda>_. False) [] (TimingWheel CONN_READ_WRITE_EXPIRES TIMIING_WHEEL_STEP) = Inr (es, w) \<longleftrightarrow>
     es = [] \<and> w = \<lparr>slot_size = CONN_READ_WRITE_EXPIRES, timing_step = TIMIING_WHEEL_STEP,
       cycle_buckets = \<lparr>max_size = CONN_READ_WRITE_EXPIRES, core_list = [[]]\<rparr>\<rparr>"
  by (auto simp: wheel_push_bucket_def TimingWheel_def RingBuffer_def ring_resize_def ring_push_back_def entries_destroyed_def
      CONN_READ_WRITE_EXPIRES_def Let_def)

lemma resp_start_inv:
  assumes "resp_start rp"
  shows "resp_inv rp"
proof -
  obtain w where w: "sv_wheel (rp_server rp) = Some w" "buckets w = [[]]" "slots w = CONN_READ_WRITE_EXPIRES"
    using assms unfolding resp_start_def first_tick by auto
  then have "wheel_ok w" "wheel_entries w = {}" by (simp_all add: wheel_ok_def wheel_entries_def CONN_READ_WRITE_EXPIRES_def)
  moreover have "idle (view (rp_server rp)) (rp_context rp) (rp_entries rp) (rp_next rp)"
    using assms by (simp add: resp_start_def idle_def idle_server_def)
  moreover have "life_inv (rp_server rp)" using assms idle_life by (simp add: resp_start_def)
  ultimately show ?thesis using w assms by (simp add: resp_inv_def resp_start_def)
qed

lemma test1_starts:
  assumes "Resp200Server efd tid nprocs s0 uuid = Inr rp" and "good_listen lenv" and "good_env env"
    and "\<forall>i<4. good_spawn tid (spawn i) \<and> sp_entered (spawn i)"
  shows "\<exists>rp0 rp1. test1 lenv spawn env efd tid nprocs s0 uuid = Inr rp0 \<and> (\<forall>i. onConnection i rp0 = Inl EmptyContainer) \<and>
    resp_tick env rp0 = Inr rp1 \<and> resp_start rp1"
proof -
  obtain sv where sv: "Server efd tid nprocs s0 uuid ''resp-200-server'' ''0.0.0.0'' 7788 (int 4) = Inr sv"
    and rp: "rp = \<lparr>rp_server = server_setMessageCallback True (server_setConnectionCallback True sv),
      rp_context = Map.empty, rp_entries = Map.empty, rp_next = 0\<rparr>"
    using assms(1) by (auto simp: Resp200Server_def bnd_eq_Inr)
  have new: "new_server tid 4 (rp_server rp)" using new_server_callbacks [OF Server_new [OF sv]] by (simp add: rp)
  obtain sv1 where r: "server_start lenv spawn env tid (rp_server rp) = Inr sv1" "idle_server sv1"
    "sv_wheel sv1 = sv_wheel (rp_server rp)" "sv_conn_fn sv1" "sv_message_fn sv1"
    using server_starts [OF new _ assms(2-4)] by (auto simp: rp server_setMessageCallback_def server_setConnectionCallback_def)
  have w: "sv_wheel sv1 = Some (TimingWheel CONN_READ_WRITE_EXPIRES TIMIING_WHEEL_STEP)" using new r(3) by (simp add: new_server_def)
  let ?rp0 = "rp\<lparr>rp_server := sv1\<rparr>"
  have "test1 lenv spawn env efd tid nprocs s0 uuid = Inr ?rp0" using assms(1) r(1) by (simp add: test1_def)
  moreover have "onConnection i ?rp0 = Inl EmptyContainer" for i
    using w by (simp add: onConnection_def timingWheelInsert_def wheel_push_back_def ring_back_def TimingWheel_def RingBuffer_def
        ring_resize_def Let_def)
  moreover obtain w1 where w1: "wheel_push_bucket (\<lambda>_. False) [] (TimingWheel CONN_READ_WRITE_EXPIRES TIMIING_WHEEL_STEP) = Inr ([], w1)"
    using first_tick by blast
  then have "resp_tick env ?rp0 = Inr (rp\<lparr>rp_server := sv1\<lparr>sv_wheel := Some w1\<rparr>\<rparr>)" using w by (simp add: resp_tick_def wheel_tick_def)
  moreover have "resp_start (rp\<lparr>rp_server := sv1\<lparr>sv_wheel := Some w1\<rparr>\<rparr>)"
    using r(2,4,5) w1 by (auto simp: resp_start_def rp idle_server_def srv_ok_def loops_def)
  ultimately show ?thesis by blast
qed

section \<open>Properties\<close>

text \<open>
  C14. The example server from its construction on. Until the wheel has turned for the first time it has
  no bucket, and a connection that is attached by then makes the application use the last element of
  an empty list. From the first turn on no order of accepts, tasks of the loops, readable and writable
  connections, ends of connections and turns of the wheel faults, and every open connection has its
  entry in the wheel or a closing queued. The legal orders are those in which memory suffices, the
  direct send of an answer does not fail and a read that fills the overflow array brings a NUL there:
  outside of them connection and buffer fault by themselves.
\<close>

theorem resp_server_runs:
  assumes "Resp200Server efd tid nprocs s0 uuid = Inr rp" and "good_listen lenv" and "granted env ok"
    and "\<forall>i<4. good_spawn tid (spawn i) \<and> sp_entered (spawn i)"
  shows "\<exists>rp0 rp1. test1 lenv spawn env efd tid nprocs s0 uuid = Inr rp0 \<and> (\<forall>i. onConnection i rp0 = Inl EmptyContainer) \<and>
    resp_tick env rp0 = Inr rp1 \<and>
    (\<forall>ops. resp_legals env ok ops rp1 \<longrightarrow> (\<exists>rp2. resp_run env ok ops rp1 = Inr rp2 \<and>
      (\<forall>i c. sv_objs (rp_server rp2) i = Some c \<and> in_base (cn_chan c) \<noteq> None \<longrightarrow> 0 < io_count (CloseConn i) (rp_server rp2) \<or>
        (\<exists>e w. rp_context rp2 i = Some e \<and> sv_wheel (rp_server rp2) = Some w \<and> e \<in> wheel_entries w))))"
proof -
  have env: "good_env env" using assms(3) by (simp add: granted_def)
  obtain rp0 rp1 where b: "test1 lenv spawn env efd tid nprocs s0 uuid = Inr rp0" "\<forall>i. onConnection i rp0 = Inl EmptyContainer"
    "resp_tick env rp0 = Inr rp1" "resp_start rp1" using test1_starts [OF assms(1,2) env assms(4)] by blast
  have "\<exists>rp2. resp_run env ok ops rp1 = Inr rp2 \<and>
      (\<forall>i c. sv_objs (rp_server rp2) i = Some c \<and> in_base (cn_chan c) \<noteq> None \<longrightarrow> 0 < io_count (CloseConn i) (rp_server rp2) \<or>
        (\<exists>e w. rp_context rp2 i = Some e \<and> sv_wheel (rp_server rp2) = Some w \<and> e \<in> wheel_entries w))"
    if l: "resp_legals env ok ops rp1" for ops
  proof -
    obtain rp2 where r: "resp_run env ok ops rp1 = Inr rp2" "resp_inv rp2"
      using resp_run_ok [OF resp_start_inv [OF b(4)] assms(3) l] by blast
    obtain w where w: "sv_wheel (rp_server rp2) = Some w" "wheel_entries w = dom (rp_entries rp2)"
      and id: "idle (view (rp_server rp2)) (rp_context rp2) (rp_entries rp2) (rp_next rp2)" using r(2) by (auto simp: resp_inv_def)
    have "0 < closings (rp_server rp2) i \<or> (\<exists>e w. rp_context rp2 i = Some e \<and> sv_wheel (rp_server rp2) = Some w \<and> e \<in> wheel_entries w)"
      if "sv_objs (rp_server rp2) i = Some c" "in_base (cn_chan c) \<noteq> None" for i c
      using watched_attached [OF id that] idleD(3) [OF id, of _ i] w by auto
    then show ?thesis using r(1) by blast
  qed
  then show ?thesis using b(1-3) by blast
qed

definition sample_listen :: listen_env where
  "sample_listen = \<lparr>le_create = \<lparr>socket_ret = 6, nonblock_ret = 0, cloexec_ret = 0\<rparr>, le_bind = \<lambda>_ _. 0, le_listen = \<lambda>_ _. 0\<rparr>"

definition sample_spawn :: "nat \<Rightarrow> spawn_env" where
  "sample_spawn i = \<lparr>sp_efd = 7, sp_wid = 2 + i, sp_polls = 0, sp_entered = True, sp_add_ok = True\<rparr>"

lemma sample_env_granted: "granted sample_env (\<lambda>_. True)"
  using sample_channel_sync(2) by (simp add: granted_def)

theorem resp_server_runs_witness:
  "\<exists>rp0 rp1 rp2. test1 sample_listen sample_spawn sample_env 5 1 4 \<lparr>s_fd = 0, s_port = 0, s_ip = [], s_closed = []\<rparr> ''u'' = Inr rp0 \<and>
     onConnection 0 rp0 = Inl EmptyContainer \<and> resp_tick sample_env rp0 = Inr rp1 \<and>
     resp_run sample_env (\<lambda>_. True) [R_tick] rp1 = Inr rp2"
proof -
  obtain rp where rp: "Resp200Server 5 1 4 \<lparr>s_fd = 0, s_port = 0, s_ip = [], s_closed = []\<rparr> ''u'' = Inr rp"
    by (simp add: Resp200Server_def Server_def server_doInit_def server_blank_def EventLoop_def loop_doInit_def doInitEventWatcher_def
        EventfdWatcher_def EventWatcher_def evutil_make_internal_eventfd_def watcher_defs Let_def bnd_simps)
  have l: "resp_legals sample_env (\<lambda>_. True) [R_tick] x" for x by (simp split: sum.split)
  have "good_listen sample_listen" "\<forall>i<4. good_spawn 1 (sample_spawn i) \<and> sp_entered (sample_spawn i)"
    by (simp_all add: good_listen_def good_spawn_def sample_listen_def sample_spawn_def)
  from resp_server_runs [OF rp this(1) sample_env_granted this(2)] l show ?thesis by blast
qed

text \<open>The connection \<open>i\<close> is attached, or a message arrives on it and no closing is queued for it.\<close>

definition activity :: "nat \<Rightarrow> resp_op \<Rightarrow> resp \<Rightarrow> bool" where
  "activity i op rp \<longleftrightarrow>
     (case op of
        R_task k \<Rightarrow> (case el_tasks (loop_of (Io k) (rp_server rp)) of AttachConn j # _ \<Rightarrow> j = i | _ \<Rightarrow> False)
      | R_read j rv sr er \<Rightarrow> j = i \<and> 0 < rv_ret rv \<and> io_count (CloseConn i) (rp_server rp) = 0
      | _ \<Rightarrow> False)"

lemma activity_renews:
  assumes "resp_inv rp" and "granted env ok" and "resp_legal ok op rp" and "activity i op rp" and "resp_exec env ok op rp = Inr rp1"
  shows "resp_inv rp1 \<and> renewed i rp rp1"
proof (cases op)
  case (R_task k)
  then obtain ts where "el_tasks (loop_of (Io k) (rp_server rp)) = AttachConn i # ts"
    using assms(4) by (auto simp: activity_def split: list.splits server_task.splits)
  then show ?thesis using attach_step [OF assms(1,2), of k i ts] assms(3,5) R_task by (auto simp: steps_to_def)
next
  case (R_read j rv sr er)
  then show ?thesis using read_data [OF assms(1,2), of j rv sr er] assms(3,4,5) by (auto simp: steps_to_def activity_def)
qed (use assms(4) in \<open>simp_all add: activity_def\<close>)

lemma expired_doomed:
  assumes "resp_inv rp" and "rp_context rp i = Some e" and "rp_entries rp e = None"
  shows "sv_objs (rp_server rp) i = None \<or> 0 < io_count (CloseConn i) (rp_server rp) \<or> 0 < ctl_count (RemoveConn i) (rp_server rp)"
proof (cases "sv_objs (rp_server rp) i")
  case (Some c)
  have li: "life_inv (rp_server rp)" and id: "idle (view (rp_server rp)) (rp_context rp) (rp_entries rp) (rp_next rp)"
    using assms(1) by (simp_all add: resp_inv_def)
  have no: "rp_entries rp e' \<noteq> Some i" for e' using idleD(3) [OF id, of e' i] assms(2,3) by auto
  have w: "watched (view (rp_server rp)) (rp_context rp) (rp_entries rp) i c" using idleD(2) [OF id] Some by simp
  then have at: "attaching (rp_server rp) i = 0" using assms(2) by (auto simp: watched_def split: if_splits)
  have "conn_phase (sv_table (rp_server rp) (cn_id c) = Some i) 0 (closings (rp_server rp) i) (removals (rp_server rp) i) c"
    using life_phase [OF life_invD(3) [OF li] Some] at by simp
  then show ?thesis using w at no open_sync by (auto simp: conn_phase_def watched_def)
qed simp

text \<open>
  C4. A connection of the example server lives for as many turns of the wheel after its last message
  (or after it was attached) as the wheel has buckets. With fewer turns, and when it becomes neither
  readable nor writable, its object is unchanged and nothing closes it. With that many turns without
  a message it is gone, or a closing or its removal is queued. Whatever the other connections do.
\<close>

theorem idle_timeout:
  assumes "granted env ok" and "resp_start rp0" and "resp_legals env ok us rp0" and "resp_run env ok us rp0 = Inr rp"
    and "resp_legal ok op rp" and "activity i op rp" and "resp_exec env ok op rp = Inr rp1"
    and "resp_legals env ok vs rp1" and "resp_run env ok vs rp1 = Inr rp2" and "\<forall>v\<in>set vs. \<not> renews i v"
  shows "(count_list vs R_tick < CONN_READ_WRITE_EXPIRES \<and> (\<forall>v\<in>set vs. \<not> touches i v) \<longrightarrow>
      (\<exists>c. sv_objs (rp_server rp1) i = Some c \<and> sv_objs (rp_server rp2) i = Some c \<and> in_base (cn_chan c) \<noteq> None) \<and>
      io_count (CloseConn i) (rp_server rp2) = 0) \<and>
    (CONN_READ_WRITE_EXPIRES \<le> count_list vs R_tick \<longrightarrow>
      sv_objs (rp_server rp2) i = None \<or> 0 < io_count (CloseConn i) (rp_server rp2) \<or> 0 < ctl_count (RemoveConn i) (rp_server rp2))"
proof -
  have inv: "resp_inv rp" using resp_run_ok [OF resp_start_inv [OF assms(2)] assms(1,3)] assms(4) by auto
  have inv1: "resp_inv rp1" and re: "renewed i rp rp1" using activity_renews [OF inv assms(1,5-7)] by simp_all
  have inv2: "resp_inv rp2" and ef: "run_effect vs rp1 rp2" using resp_run_ok [OF inv1 assms(1,8)] assms(9) by auto
  obtain e c w w1 where r: "wheel_ok w" "slots w = CONN_READ_WRITE_EXPIRES" "wheel_push_back e w = Inr w1" "sv_wheel (rp_server rp1) = Some w1"
    "rp_context rp1 i = Some e" "undisturbed rp1 i c" using re unfolding renewed_def by blast
  obtain ws ds w2 where u: "sv_wheel (rp_server rp2) = Some w2" "wheel_run (\<lambda>_. False) ws w1 = Inr (ds, w2)"
    "count_list ws Tick = count_list vs R_tick" "Insert e \<notin> set ws"
    using ef r(4,5) assms(10) unfolding run_effect_def by (metis option.inject)
  have e2: "rp_context rp2 i = Some e" using ef r(5) unfolding run_effect_def by blast
  have id2: "idle (view (rp_server rp2)) (rp_context rp2) (rp_entries rp2) (rp_next rp2)" and ent: "wheel_entries w2 = dom (rp_entries rp2)"
    using inv2 u(1) by (auto simp: resp_inv_def)
  have alive: "e \<in> wheel_entries w2 \<longleftrightarrow> count_list vs R_tick < CONN_READ_WRITE_EXPIRES"
    using pushed_run [OF r(1,3) u(4), of "\<lambda>_. False"] u(2,3) r(2) by auto
  have "undisturbed rp2 i c" if t: "count_list vs R_tick < CONN_READ_WRITE_EXPIRES" "\<forall>v\<in>set vs. \<not> touches i v"
  proof -
    obtain j where j: "rp_entries rp2 e = Some j" using alive t(1) ent by auto
    then have "j = i" using idleD(3) [OF id2 j] idleD(5) [OF id2 e2] by simp
    then show ?thesis using ef r(6) t(2) j unfolding run_effect_def by blast
  qed
  moreover have "rp_entries rp2 e = None" if "CONN_READ_WRITE_EXPIRES \<le> count_list vs R_tick" using that alive ent by auto
  ultimately show ?thesis using expired_doomed [OF inv2 e2] r(6) by (intro conjI impI) (auto simp: undisturbed_def)
qed

text \<open>The server with one loop, a connection that is attached, and ten turns of the wheel.\<close>

definition sample_resp :: resp where
  "sample_resp = \<lparr>rp_server = sample_server\<lparr>sv_conn_fn := True, sv_message_fn := True,
       sv_wheel := Some \<lparr>slot_size = 10, timing_step = 1, cycle_buckets = \<lparr>max_size = 10, core_list = [[]]\<rparr>\<rparr>\<rparr>,
     rp_context = Map.empty, rp_entries = Map.empty, rp_next = 0\<rparr>"

lemma sample_resp_start: "resp_start sample_resp"
  using sample_server_idle(1) unfolding resp_start_def first_tick
  by (simp add: sample_resp_def idle_server_def srv_ok_def loops_def CONN_READ_WRITE_EXPIRES_def TIMIING_WHEEL_STEP_def)

lemma sample_accept:
  "\<exists>sv. handleNewConnection sample_env (\<lambda>_. True) 1 ''id'' 7 ''peer'' (rp_server sample_resp) = Inr sv \<and>
     el_tasks (loop_of (Io 0) sv) = [AttachConn 0] \<and> length (loops sv) = 1"
proof -
  obtain c where "Connection (\<lambda>_. True) 7 ''id'' ''peer'' = Inr c" using Connection_new [of 7 "''id''" "''peer''" "\<lambda>_. True"] by auto
  then show ?thesis
    by (simp add: handleNewConnection_def sample_resp_def sample_server_def server_blank_def server_getIOEventLoop_def
        getIOEventLoop_index_def hashTableInsert_def server_send_def post_def threadSafety_def loops_def sendToQueue_def Let_def bnd_simps)
qed

lemma ticks_legal: "resp_legals env ok (replicate n R_tick) rp"
  by (induction n arbitrary: rp) (auto split: sum.split)

theorem idle_timeout_witness:
  "\<exists>rp rp1 rp2. resp_run sample_env (\<lambda>_. True) [R_accept ''id'' 7 ''peer''] sample_resp = Inr rp \<and>
     resp_exec sample_env (\<lambda>_. True) (R_task 0) rp = Inr rp1 \<and> sv_objs (rp_server rp1) 0 \<noteq> None \<and>
     resp_run sample_env (\<lambda>_. True) (replicate 10 R_tick) rp1 = Inr rp2 \<and>
     (sv_objs (rp_server rp2) 0 = None \<or> 0 < io_count (CloseConn 0) (rp_server rp2) \<or> 0 < ctl_count (RemoveConn 0) (rp_server rp2))"
proof -
  let ?ok = "\<lambda>_ :: nat. True" and ?us = "[R_accept ''id'' 7 ''peer'']"
  obtain sv where sv: "handleNewConnection sample_env ?ok 1 ''id'' 7 ''peer'' (rp_server sample_resp) = Inr sv"
    "el_tasks (loop_of (Io 0) sv) = [AttachConn 0]" "length (loops sv) = 1" using sample_accept by blast
  let ?rp = "sample_resp\<lparr>rp_server := sv\<rparr>"
  have s: "el_thread (sv_ctl (rp_server sample_resp)) = 1" "sv_objs (rp_server sample_resp) = Map.empty"
    using sample_server_idle by (simp_all add: sample_resp_def)
  have run: "resp_run sample_env ?ok ?us sample_resp = Inr ?rp" and leg: "resp_legals sample_env ?ok ?us sample_resp"
    using sv(1) s by (simp_all add: ids_def)
  have op: "resp_legal ?ok (R_task 0) ?rp" "activity 0 (R_task 0) ?rp" using sv(2,3) by (simp_all add: activity_def)
  have "resp_inv ?rp" using resp_run_ok [OF resp_start_inv [OF sample_resp_start] sample_env_granted leg] run by auto
  then obtain rp1 where rp1: "resp_exec sample_env ?ok (R_task 0) ?rp = Inr rp1" "resp_inv rp1"
    using resp_steps [OF _ sample_env_granted op(1)] by (auto simp: steps_to_def)
  obtain rp2 where rp2: "resp_run sample_env ?ok (replicate 10 R_tick) rp1 = Inr rp2"
    using resp_run_ok [OF rp1(2) sample_env_granted ticks_legal] by blast
  note t = idle_timeout [OF sample_env_granted sample_resp_start leg run op rp1(1)]
  have "\<exists>c. sv_objs (rp_server rp1) 0 = Some c" using t [of "[]" rp1] by (auto simp: CONN_READ_WRITE_EXPIRES_def)
  moreover have "count_list (replicate 10 R_tick) R_tick = 10" by (simp add: numeral_eq_Suc)
  ultimately show ?thesis using t [OF ticks_legal rp2] run rp1(1) rp2 by (auto simp: CONN_READ_WRITE_EXPIRES_def)
qed

text \<open>
  C13. The example refines the server. Wherever its handlers take it from its start, the server underneath
  got there by steps of its own relation, so that what holds in every reachable state of the server holds
  under this application; and from there every operation the system can report is carried out, again by
  steps of the server.
\<close>

theorem resp_refines_server:
  assumes "granted env ok" and "resp_start rp0" and "(resp_step env ok)\<^sup>*\<^sup>* rp0 rp"
  shows "(server_step env ok)\<^sup>*\<^sup>* (rp_server rp0) (rp_server rp) \<and>
    (\<forall>op. resp_legal ok op rp \<longrightarrow>
      (\<exists>rp'. resp_exec env ok op rp = Inr rp' \<and> (server_step env ok)\<^sup>*\<^sup>* (rp_server rp) (rp_server rp')))"
proof -
  have inv: "granted env ok \<and> resp_inv rp0" using assms(1) resp_start_inv [OF assms(2)] by simp
  have "resp_inv rp" using resp_system.steps_keep [OF assms(3) inv] by simp
  then have "\<exists>rp'. steps_to env ok op rp rp'" if "resp_legal ok op rp" for op using resp_steps [OF _ assms(1) that] by blast
  then show ?thesis using resp_system.steps_simulate [OF assms(3) inv] unfolding steps_to_def by blast
qed

theorem resp_refines_server_witness:
  "\<exists>rp rp'. (resp_step sample_env (\<lambda>_. True))\<^sup>*\<^sup>* sample_resp rp \<and> el_tasks (loop_of (Io 0) (rp_server rp)) = [AttachConn 0] \<and>
     (server_step sample_env (\<lambda>_. True))\<^sup>*\<^sup>* (rp_server sample_resp) (rp_server rp) \<and>
     resp_exec sample_env (\<lambda>_. True) (R_task 0) rp = Inr rp' \<and>
     (server_step sample_env (\<lambda>_. True))\<^sup>*\<^sup>* (rp_server rp) (rp_server rp')"
proof -
  obtain sv where sv: "handleNewConnection sample_env (\<lambda>_. True) 1 ''id'' 7 ''peer'' (rp_server sample_resp) = Inr sv"
    "el_tasks (loop_of (Io 0) sv) = [AttachConn 0]" "length (loops sv) = 1" using sample_accept by blast
  let ?rp = "sample_resp\<lparr>rp_server := sv\<rparr>"
  have "el_thread (sv_ctl (rp_server sample_resp)) = 1" "sv_objs (rp_server sample_resp) = Map.empty"
    using sample_server_idle by (simp_all add: sample_resp_def)
  then have st: "(resp_step sample_env (\<lambda>_. True))\<^sup>*\<^sup>* sample_resp ?rp"
    using sv(1) by (intro r_into_rtranclp resp_step.op [of _ "R_accept ''id'' 7 ''peer''"]) (simp_all add: ids_def)
  moreover have "resp_legal (\<lambda>_. True) (R_task 0) ?rp" using sv(2,3) by simp
  moreover have "el_tasks (loop_of (Io 0) (rp_server ?rp)) = [AttachConn 0]" using sv(2) by simp
  ultimately show ?thesis using resp_refines_server [OF sample_env_granted sample_resp_start st] by blast
qed

end
