(* ===== verification/Single_Loop.thy ===== *)
theory Single_Loop
  imports Server_Start
begin

text \<open>
  The events of a connection as libevent delivers them, with the objects they may destroy on the way:
  \<open>Channel::eventHandle\<close> calls the read callback and then looks at its members again for the write
  callback. In a server without a pool (\<open>thread_num_\<close> is 0, the servers of
  \<open>examples/atp_tcp_multi_listener_benchmark.cpp\<close>) the control loop is the connection's loop, and closing
  a connection destroys it before the handler returns. With a pool the control loop is another thread,
  which may take its tasks while the handler runs.
\<close>

section \<open>Handlers\<close>

text \<open>
  \<open>eventHandle\<close> of the channel of the connection \<open>i\<close>, which owns the channel. The handler holds no reference to
  the connection; \<open>between\<close> is what other threads do after the read callback has returned and before the
  members are looked at again.
\<close>

definition connection_event ::
  "(server \<Rightarrow> server result) \<Rightarrow> (server \<Rightarrow> server result) \<Rightarrow> (server \<Rightarrow> server result) \<Rightarrow> nat \<Rightarrow> int \<Rightarrow> flags \<Rightarrow>
    server \<Rightarrow> server result" where
  "connection_event on_read between on_write i fd which sv =
     (case sv_objs sv i of
        None \<Rightarrow> Inl UseAfterFree
      | Some c \<Rightarrow> assert_that (fd = ch_fd (cn_chan c))
          (bnd (if (which AND ATP_READ_EVENT) \<noteq> 0 \<and> read_cb (cn_chan c) then on_read sv else Inr sv) (\<lambda>sv0.
           bnd (between sv0) (\<lambda>sv1.
             if (which AND ATP_WRITE_EVENT) \<noteq> 0
             then case sv_objs sv1 i of
                    None \<Rightarrow> Inl UseAfterFree
                  | Some c1 \<Rightarrow> if write_cb (cn_chan c1) then on_write sv1 else Inr sv1
             else Inr sv1))))"

text \<open>The control loop takes up to \<open>k\<close> tasks.\<close>

primrec control_turns :: "event_env \<Rightarrow> nat \<Rightarrow> server \<Rightarrow> server result" where
  "control_turns env 0 sv = Inr sv"
| "control_turns env (Suc k) sv = bnd (next_task env Control sv) (control_turns env k)"

text \<open>\<open>netFdReadHandle\<close> and \<open>netFdWriteHandle\<close> with the callbacks; \<open>app\<close> is the message callback of the application.\<close>

fun handler_callbacks :: "(nat \<Rightarrow> server \<Rightarrow> server result) \<Rightarrow> nat \<Rightarrow> nat \<Rightarrow> conn_event list \<Rightarrow> server \<Rightarrow> server result" where
  "handler_callbacks app tid i [] sv = Inr sv"
| "handler_callbacks app tid i (ev # evs) sv =
     bnd (case ev of Message \<Rightarrow> app i sv | Closed \<Rightarrow> handleCloseConnection tid i sv | _ \<Rightarrow> Inr sv) (handler_callbacks app tid i evs)"

definition connection_read ::
  "event_env \<Rightarrow> (nat \<Rightarrow> bool) \<Rightarrow> (nat \<Rightarrow> server \<Rightarrow> server result) \<Rightarrow> nat \<Rightarrow> readv_result \<Rightarrow> nat \<Rightarrow> server \<Rightarrow> server result" where
  "connection_read env ok app tid rv i sv =
     (case sv_objs sv i of
        None \<Rightarrow> Inl UseAfterFree
      | Some c \<Rightarrow> bnd (netFdReadHandle env ok rv c) (\<lambda>c1.
          handler_callbacks app tid i (new_events c c1) (sv\<lparr>sv_objs := (sv_objs sv)(i \<mapsto> c1)\<rparr>)))"

definition connection_write :: "event_env \<Rightarrow> nat \<Rightarrow> int \<Rightarrow> errno \<Rightarrow> nat \<Rightarrow> server \<Rightarrow> server result" where
  "connection_write env tid n er i sv =
     (case sv_objs sv i of
        None \<Rightarrow> Inl UseAfterFree
      | Some c \<Rightarrow> bnd (netFdWriteHandle env n er c) (\<lambda>c1.
          handler_callbacks (\<lambda>_. Inr) tid i (new_events c c1) (sv\<lparr>sv_objs := (sv_objs sv)(i \<mapsto> c1)\<rparr>)))"

text \<open>An event that libevent reports for the connection \<open>i\<close>, with the answers of the kernel to its handlers.\<close>

definition server_event ::
  "event_env \<Rightarrow> (nat \<Rightarrow> bool) \<Rightarrow> (nat \<Rightarrow> server \<Rightarrow> server result) \<Rightarrow> (server \<Rightarrow> server result) \<Rightarrow> nat \<Rightarrow> readv_result \<Rightarrow> int \<Rightarrow> errno \<Rightarrow> nat \<Rightarrow>
    int \<Rightarrow> flags \<Rightarrow> server \<Rightarrow> server result" where
  "server_event env ok app between tid rv n er i fd which sv =
     connection_event (connection_read env ok app tid rv i) between (connection_write env tid n er i) i fd which sv"

section \<open>The application\<close>

definition pong_message :: "byte list" where
  "pong_message = map of_char (''pong-pong-pong-pong-pong-pong-pong-pong-pong-pong-pong-pong'' @ [CHR 0x0D, CHR 0x0A])"

text \<open>The message callback of the example: it answers and closes. \<open>sr\<close> and \<open>er\<close> are the kernel's.\<close>

definition pong_onMessage :: "event_env \<Rightarrow> (nat \<Rightarrow> bool) \<Rightarrow> int \<Rightarrow> errno \<Rightarrow> nat \<Rightarrow> nat \<Rightarrow> server \<Rightarrow> server result" where
  "pong_onMessage env ok sr er tid i sv =
     (case sv_objs sv i of
        None \<Rightarrow> Inl UseAfterFree
      | Some c \<Rightarrow>
          bnd (consume 65535 (cn_read c)) (\<lambda>(ss, rb).
          bnd (toString ss) (\<lambda>_.
          bnd (conn_send env ok sr er (Some \<lparr>obj = pong_message @ [0], off = 0, len = length pong_message\<rparr>) (c\<lparr>cn_read := rb\<rparr>)) (\<lambda>(_, c1).
            connection_close env tid i (sv\<lparr>sv_objs := (sv_objs sv)(i \<mapsto> c1)\<rparr>)))))"

section \<open>Closing\<close>

text \<open>A server without a pool: its connections live on the control loop, and no task for \<open>i\<close> is queued.\<close>

definition single_loop :: "nat \<Rightarrow> nat \<Rightarrow> server \<Rightarrow> bool" where
  "single_loop tid i sv \<longleftrightarrow> sv_thread_num sv = 0 \<and> el_thread (sv_ctl sv) = tid \<and> sv_home sv i = Some Control \<and>
     (\<forall>t\<in>{AttachConn i, RemoveConn i, CloseConn i}. io_count t sv = 0 \<and> ctl_count t sv = 0)"

lemma read_closes:
  assumes "sv_objs sv i = Some c" and "buf_wf (cn_read c)" and "cn_close_fn c" and "rv_ret rv \<le> 0"
  shows "connection_read env ok app tid rv i sv = connection_closes env tid i sv"
proof (cases "netFdCloseHandle env c")
  case (Inr c')
  let ?sv = "sv\<lparr>sv_objs := (sv_objs sv)(i \<mapsto> c')\<rparr>"
  have "new_events c c' = [Closed]" "cn_close_fn c'" using close_frame [OF Inr] assms(3) by (auto simp: same_conn_def)
  then show ?thesis using assms Inr
    by (cases "handleCloseConnection tid i ?sv") (simp_all add: connection_read_def read_eof connection_closes_def Let_def)
qed (use assms in \<open>simp add: connection_read_def read_eof connection_closes_def\<close>)

text \<open>In such a server a connection that closes is destroyed at once.\<close>

lemma single_closes:
  assumes sl: "single_loop tid i sv" and c: "sv_objs sv i = Some c" "cn_close_fn c" "conn_ok c" and env: "good_env env"
  shows "\<exists>sv'. connection_closes env tid i sv = Inr sv' \<and> sv_objs sv' = (sv_objs sv)(i := None) \<and>
    sv_table sv' = (sv_table sv)(cn_id c := None) \<and> sv_destroyed sv' = sv_destroyed sv @ [i]"
proof -
  obtain c' where c': "netFdCloseHandle env c = Inr c'" "chan_closed (cn_chan c')" "cn_id c' = cn_id c" "cn_close_fn c'"
    using conn_closes [OF _ env, of c] c(2,3) by (auto simp: conn_ok_def)
  obtain x where "Connection_destroy c' = Inr x" using destroy_closed [OF c'(2)] by blast
  then show ?thesis using sl c(1) c' env
    by (simp add: connection_closes_def handleCloseConnection_def post_def threadSafety_def single_loop_def remove_connection_def
        drop_reference_def referenced_def hashTableRemove_def getUUID_def io_count_def ctl_count_def loops_def Let_def bnd_simps)
qed

text \<open>
  The answer of the example is taken by the kernel as far as it goes; what is left in the write buffer
  is destroyed with the connection.
\<close>

lemma pong_answers:
  assumes sl: "single_loop tid i sv" and c: "sv_objs sv i = Some c" "cn_close_fn c" "conn_ok c" "buf_wf (cn_read c)" and env: "good_env env"
    and sr: "0 \<le> sr" "sr \<le> int (length pong_message)" and rm: "\<forall>n\<le>length pong_message. room ok n (cn_write c)"
  shows "\<exists>rb c1 sv'. conn_send env ok sr er (Some \<lparr>obj = pong_message @ [0], off = 0, len = length pong_message\<rparr>) (c\<lparr>cn_read := rb\<rparr>) =
      Inr (False, c1) \<and> cn_sent c1 @ content (cn_write c1) = cn_sent c @ content (cn_write c) @ pong_message \<and>
    pong_onMessage env ok sr er tid i sv = Inr sv' \<and> sv_objs sv' = (sv_objs sv)(i := None)"
proof -
  let ?m = "\<lparr>obj = pong_message @ [0], off = 0, len = length pong_message\<rparr>"
  have m: "message_ok ?m" "payload ?m = pong_message" by (simp_all add: message_ok_def payload_def pong_message_def)
  obtain ss rb where rb: "consume 65535 (cn_read c) = Inr (ss, rb)" "slice_wf ss" using consume_ok [OF c(4)] by metis
  let ?c = "c\<lparr>cn_read := rb\<rparr>"
  have "conn_ok ?c" using c(3) by (simp add: conn_ok_def)
  then obtain c1 where c1: "conn_send_now env ok sr er ?m ?c = Inr c1" "conn_ok c1"
    "cn_sent c1 @ content (cn_write c1) = cn_sent c @ content (cn_write c) @ pong_message"
    using send_now_ok [of ?c env ?m sr ok er] env m sr rm by auto
  have f: "cn_close_fn c1" "cn_id c1 = cn_id c" using send_frame [OF c1(1) sr(1)] c(2) by (simp_all add: same_conn_def)
  have send: "conn_send env ok sr er (Some ?m) ?c = Inr (False, c1)" using c1(1) env m(1) by (simp add: conn_send_def good_env_def message_ok_def)
  let ?sv = "sv\<lparr>sv_objs := (sv_objs sv)(i \<mapsto> c1)\<rparr>"
  have sl1: "single_loop tid i ?sv" using sl by (simp add: single_loop_def io_count_def ctl_count_def loops_def)
  obtain sv' where sv': "connection_closes env tid i ?sv = Inr sv'" "sv_objs sv' = (sv_objs sv)(i := None)"
    using single_closes [OF sl1 _ f(1) c1(2) env] by auto
  have "connection_close env tid i ?sv = Inr sv'"
    using sl1 sv' env by (simp add: connection_close_def server_send_def post_def threadSafety_def single_loop_def good_env_def drop_reference_def)
  then have "pong_onMessage env ok sr er tid i sv = Inr sv'"
    using c(1) rb(1) toString_wf [OF rb(2)] send by (simp add: pong_onMessage_def)
  then show ?thesis using send c1(3) sv'(2) by blast
qed

lemma event_read:
  "sv_objs sv i = Some c \<Longrightarrow> read_cb (cn_chan c) \<Longrightarrow>
     connection_event on_read between on_write i (ch_fd (cn_chan c)) ATP_READ_EVENT sv = bnd (on_read sv) between"
  by (cases "bnd (on_read sv) between"; cases "on_read sv") (simp_all add: connection_event_def ATP_READ_EVENT_def ATP_WRITE_EVENT_def)

lemma event_both:
  "sv_objs sv i = Some c \<Longrightarrow> read_cb (cn_chan c) \<Longrightarrow>
     connection_event on_read between on_write i (ch_fd (cn_chan c)) (ATP_READ_EVENT OR ATP_WRITE_EVENT) sv =
     bnd (on_read sv) (\<lambda>sv0. bnd (between sv0) (\<lambda>sv1. case sv_objs sv1 i of
       None \<Rightarrow> Inl UseAfterFree | Some c1 \<Rightarrow> if write_cb (cn_chan c1) then on_write sv1 else Inr sv1))"
  by (simp add: connection_event_def ATP_READ_EVENT_def ATP_WRITE_EVENT_def)

section \<open>The control loop meanwhile\<close>

lemma ctl_queue:
  assumes "life_inv sv" and "next_task env Control sv = Inr sv'"
  shows "el_tasks (sv_ctl sv') = tl (el_tasks (sv_ctl sv))"
proof (cases "el_tasks (sv_ctl sv)")
  case (Cons t ts)
  then obtain i where "t = RemoveConn i" using life_invD(1) [OF assms(1)] by (cases t) (auto simp: srv_ok_def)
  then show ?thesis using assms(2) Cons
    by (auto simp: next_task_def remove_connection_def drop_reference_def hashTableRemove_def bnd_simps split: option.splits if_splits)
qed (use assms in \<open>simp add: next_task_def\<close>)

lemma turns_keep:
  "life_inv sv \<Longrightarrow> \<exists>sv'. control_turns env k sv = Inr sv' \<and> life_inv sv' \<and> el_tasks (sv_ctl sv') = drop k (el_tasks (sv_ctl sv)) \<and>
     closings sv' = closings sv \<and> (sv_objs sv' i = sv_objs sv i \<or> sv_objs sv' i = None)"
proof (induction k arbitrary: sv)
  case (Suc k)
  obtain sv1 where sv1: "next_task env Control sv = Inr sv1" "life_inv sv1"
    "view sv1 = view sv \<or> (\<exists>j c. view sv1 = (view sv)\<lparr>vw_objs := (sv_objs sv)(j := None)\<rparr>)"
    using ctl_keeps [OF Suc.prems, of env] by blast
  have "closings sv1 = closings sv" "sv_objs sv1 i = sv_objs sv i \<or> sv_objs sv1 i = None"
    using sv1(3) by (auto simp: view_def split: if_splits)
  moreover have "el_tasks (sv_ctl sv1) = tl (el_tasks (sv_ctl sv))" by (rule ctl_queue [OF Suc.prems sv1(1)])
  ultimately show ?case using Suc.IH [OF sv1(2)] sv1(1) by (auto simp: drop_Suc)
qed simp

text \<open>A closed connection lives as long as a queued task refers to it.\<close>

lemma closed_alive:
  assumes "life_inv sv" and "sv_objs sv i = Some c \<and> chan_closed (cn_chan c) \<or> sv_objs sv i = None"
  shows "sv_objs sv i = None \<longleftrightarrow> closings sv i + removals sv i = 0"
  using life_phase [OF life_invD(3) [OF assms(1)], of i c] life_none [OF life_invD(3) [OF assms(1)], of i] assms(2)
  by (cases "sv_objs sv i") (auto simp: conn_phase_def chan_sync_def chan_closed_def)

lemma closed_then_turns:
  assumes li: "life_inv sv" and c: "sv_objs sv i = Some c" "conn_ok c" and env: "good_env env" and tid: "tid \<noteq> el_thread (sv_ctl sv)"
  shows "\<exists>c' sv1 sv'. connection_closes env tid i sv = Inr sv1 \<and> control_turns env k sv1 = Inr sv' \<and> life_inv sv' \<and>
    chan_closed (cn_chan c') \<and> \<not> write_cb (cn_chan c') \<and>
    sv_objs sv' i = (if length (el_tasks (sv_ctl sv)) < k \<and> closings sv i = 0 then None else Some c')"
proof -
  have ch: "chan_sync True (content (cn_write c) \<noteq> []) (cn_chan c)" using c(2) by (simp add: conn_ok_def)
  then have open0: "attaching sv i = 0" "removals sv i = 0"
    using life_phase [OF life_invD(3) [OF li] c(1)] by (auto simp: conn_phase_def chan_sync_def chan_closed_def)
  from close_keeps [OF li c(1) open0(1) env tid] obtain c' sv1 where
    r: "netFdCloseHandle env c = Inr c'" "connection_closes env tid i sv = Inr sv1" "closed_by sv i c' sv1" "life_inv sv1" by blast
  have q: "el_tasks (sv_ctl sv1) = el_tasks (sv_ctl sv) @ [RemoveConn i]" using r(3) by (auto simp: closed_by_def)
  obtain sv' where sv': "control_turns env k sv1 = Inr sv'" "life_inv sv'" "el_tasks (sv_ctl sv') = drop k (el_tasks (sv_ctl sv1))"
    "closings sv' = closings sv1" "sv_objs sv' i = sv_objs sv1 i \<or> sv_objs sv' i = None"
    using turns_keep [OF r(4), of env k i] by blast
  have "RemoveConn i \<notin> set (el_tasks (sv_ctl sv))" using open0(2) by (simp add: ctl_count_def count_list_0_iff)
  then have "RemoveConn i \<notin> set (drop k (el_tasks (sv_ctl sv)))" using in_set_dropD by metis
  then have rem: "removals sv' i = (if length (el_tasks (sv_ctl sv)) < k then 0 else 1)"
    using sv'(3) q by (simp add: ctl_count_def count_list_0_iff)
  have obj: "sv_objs sv' i = Some c' \<or> sv_objs sv' i = None" "chan_closed (cn_chan c')" using sv'(5) closed_by_same [OF r(3)] by auto
  then have "sv_objs sv' i = None \<longleftrightarrow> closings sv' i + removals sv' i = 0" using sv'(2) by (intro closed_alive [of _ _ c']) auto
  moreover have "closings sv' i = closings sv i" using sv'(4) closed_by_same(7) [OF r(3)] by metis
  moreover have "\<not> write_cb (cn_chan c')" using close_handle [OF ch env] r(1) by auto
  ultimately show ?thesis using r(2) sv'(1,2) obj rem by (auto split: if_splits)
qed

section \<open>Properties\<close>

text \<open>
  C21. The peer of a connection closes it. In a server without a pool the connection is destroyed inside
  its own handler: when only the read event was reported the handler returns and table and store are
  clean, but when the write event was reported with it \<open>eventHandle\<close> goes on to a channel that has been
  freed. With a pool the removal is queued for the control loop, which may take any number \<open>k\<close> of tasks
  before \<open>eventHandle\<close> looks at its members again. With the read event alone nothing faults. With both
  events, \<open>eventHandle\<close> goes on to a freed channel exactly when the control loop has come to the removal
  and no queued \<open>close\<close> keeps the connection; otherwise the channel is there, closed and without
  callbacks, and nothing faults.
\<close>

theorem close_in_handler:
  assumes "good_env env" and "sv_objs sv i = Some c" and "conn_ok c" and "buf_wf (cn_read c)" and "cn_close_fn c" and "read_cb (cn_chan c)"
    and "rv_ret rv \<le> 0" and "fd = ch_fd (cn_chan c)"
  shows "(single_loop tid i sv \<longrightarrow>
      (\<exists>sv'. server_event env ok app Inr tid rv n er i fd ATP_READ_EVENT sv = Inr sv' \<and> sv_objs sv' = (sv_objs sv)(i := None) \<and>
        sv_table sv' = (sv_table sv)(cn_id c := None)) \<and>
      server_event env ok app Inr tid rv n er i fd (ATP_READ_EVENT OR ATP_WRITE_EVENT) sv = Inl UseAfterFree) \<and>
    (life_inv sv \<and> tid \<noteq> el_thread (sv_ctl sv) \<longrightarrow>
      (\<exists>sv'. server_event env ok app (control_turns env k) tid rv n er i fd ATP_READ_EVENT sv = Inr sv' \<and> life_inv sv') \<and>
      (if length (el_tasks (sv_ctl sv)) < k \<and> io_count (CloseConn i) sv = 0
       then server_event env ok app (control_turns env k) tid rv n er i fd (ATP_READ_EVENT OR ATP_WRITE_EVENT) sv = Inl UseAfterFree
       else \<exists>sv' c'. server_event env ok app (control_turns env k) tid rv n er i fd (ATP_READ_EVENT OR ATP_WRITE_EVENT) sv = Inr sv' \<and>
         life_inv sv' \<and> sv_objs sv' i = Some c' \<and> chan_closed (cn_chan c')))"
proof -
  note rd = read_closes [OF assms(2,4,5,7)] and event = event_read [OF assms(2,6)] event_both [OF assms(2,6)]
  have "(\<exists>sv'. server_event env ok app Inr tid rv n er i fd ATP_READ_EVENT sv = Inr sv' \<and> sv_objs sv' = (sv_objs sv)(i := None) \<and>
      sv_table sv' = (sv_table sv)(cn_id c := None)) \<and>
    server_event env ok app Inr tid rv n er i fd (ATP_READ_EVENT OR ATP_WRITE_EVENT) sv = Inl UseAfterFree" if "single_loop tid i sv"
    using single_closes [OF that assms(2,5,3,1)] by (auto simp: server_event_def assms(8) event rd)
  moreover obtain c' sv1 sv' where "connection_closes env tid i sv = Inr sv1" "control_turns env k sv1 = Inr sv'" "life_inv sv'"
    "chan_closed (cn_chan c')" "\<not> write_cb (cn_chan c')"
    "sv_objs sv' i = (if length (el_tasks (sv_ctl sv)) < k \<and> io_count (CloseConn i) sv = 0 then None else Some c')"
    if "life_inv sv" "tid \<noteq> el_thread (sv_ctl sv)"
    using closed_then_turns [OF _ assms(2,3,1), of tid k] by metis
  ultimately show ?thesis by (auto simp: server_event_def assms(8) event rd)
qed

text \<open>A connection on the server without a pool, and on the one loop of a pool.\<close>

definition single_server :: server where
  "single_server = sample_server\<lparr>sv_thread_num := 0, sv_objs := [0 \<mapsto> sample_conn], sv_home := [0 \<mapsto> Control], sv_table := [''id'' \<mapsto> 0]\<rparr>"

definition pool_server :: server where
  "pool_server = sample_server\<lparr>sv_objs := [0 \<mapsto> sample_conn], sv_home := [0 \<mapsto> Io 0], sv_table := [''id'' \<mapsto> 0], sv_next := 1\<rparr>"

lemma sample_servers:
  "single_loop 1 0 single_server" "sv_objs single_server 0 = Some sample_conn" "sv_objs pool_server 0 = Some sample_conn"
  "el_thread (sv_ctl pool_server) = 1" "el_tasks (sv_ctl pool_server) = []" "io_count (CloseConn 0) pool_server = 0" "life_inv pool_server"
proof -
  show "life_inv pool_server" using sample_conn_facts(1)
    by (auto simp: life_inv_def life_def ids_ok_def ids_def conn_phase_def conn_ok_def srv_ok_def homes_ok_def pool_server_def sample_server_def
        server_blank_def io_count_def ctl_count_def loops_def sample_conn_def split: if_splits)
qed (simp_all add: single_loop_def single_server_def pool_server_def sample_server_def server_blank_def io_count_def ctl_count_def loops_def)

theorem close_in_handler_witness:
  "server_event sample_env (\<lambda>_. True) (\<lambda>_. Inr) Inr 1 \<lparr>rv_ret = 0, rv_retriable = False, rv_bytes = []\<rparr> 0 EINTR 0 (ch_fd sample_channel)
     (ATP_READ_EVENT OR ATP_WRITE_EVENT) single_server = Inl UseAfterFree \<and>
   server_event sample_env (\<lambda>_. True) (\<lambda>_. Inr) (control_turns sample_env 1) 2 \<lparr>rv_ret = 0, rv_retriable = False, rv_bytes = []\<rparr> 0 EINTR 0
     (ch_fd sample_channel) (ATP_READ_EVENT OR ATP_WRITE_EVENT) pool_server = Inl UseAfterFree"
proof -
  let ?rv = "\<lparr>rv_ret = 0, rv_retriable = False, rv_bytes = []\<rparr> :: readv_result"
  have c: "buf_wf (cn_read sample_conn)" "cn_close_fn sample_conn" "read_cb (cn_chan sample_conn)" "rv_ret ?rv \<le> 0"
    "ch_fd sample_channel = ch_fd (cn_chan sample_conn)"
    by (simp_all add: sample_conn_def consumed_buffer_def buf_wf_def size_mod_def sample_channel_def)
  note closes = close_in_handler [OF sample_channel_sync(2) _ sample_conn_facts(1) c]
  show ?thesis
    using closes [OF sample_servers(2), of 1] closes [OF sample_servers(3), of 2 "\<lambda>_. True" "\<lambda>_. Inr" 0 EINTR 1] sample_servers by simp
qed

end
