(* ===== verification/Dao.thy ===== *)
theory Dao
  imports Atp_Prelude "HOL-Library.AList"
begin

text \<open>
  \<open>app/atp_dao.cpp\<close>: the Redis commands over hiredis. \<open>redisCommand\<close> is the argument \<open>cmd\<close>: it takes
  the words of the command and the connection's state and returns the reply, if there is one, with
  the new state. A reply is what hiredis documents: a type, an integer, a string and its elements.
  A destination \<open>char*\<close> is the memory behind it, so that writing past its end is a fault.
\<close>

datatype reply_type = REDIS_REPLY_STRING | REDIS_REPLY_ARRAY | REDIS_REPLY_INTEGER | REDIS_REPLY_NIL
  | REDIS_REPLY_STATUS | REDIS_REPLY_ERROR

datatype redis_reply = Reply (rtype: reply_type) (rinteger: int) (rstr: "string option") (relements: "redis_reply list")

type_synonym 'c redis_cmd = "string list \<Rightarrow> 'c \<Rightarrow> redis_reply option \<times> 'c"

section \<open>Formatting\<close>

text \<open>\<open>%u\<close> and \<open>%d\<close>.\<close>

fun dec_digits :: "nat \<Rightarrow> string" where
  "dec_digits n = (if n < 10 then [char_of (48 + n)] else dec_digits (n div 10) @ [char_of (48 + n mod 10)])"

declare dec_digits.simps [simp del]

definition dec_int :: "int \<Rightarrow> string" where
  "dec_int i = (if i < 0 then CHR ''-'' # dec_digits (nat (- i)) else dec_digits (nat i))"

text \<open>\<open>strcmp\<close> and \<open>%s\<close> see a string up to its first NUL.\<close>

definition c_string :: "string \<Rightarrow> string" where
  "c_string s = takeWhile (\<lambda>ch. ch \<noteq> CHR 0x00) s"

definition lower :: "char \<Rightarrow> char" where
  "lower ch = (if 65 \<le> (of_char ch :: nat) \<and> (of_char ch :: nat) \<le> 90 then char_of (of_char ch + (32 :: nat)) else ch)"

section \<open>Connection\<close>

text \<open>A context with \<open>err\<close> set is returned by hiredis and dropped here without being freed.\<close>

definition redis_connect :: "(bool \<times> 'c) option \<Rightarrow> 'c option" where
  "redis_connect conn = (case conn of None \<Rightarrow> None | Some (err, c) \<Rightarrow> if err then None else Some c)"

text \<open>The result and whether the context was freed.\<close>

definition redis_close :: "'c option \<Rightarrow> int \<times> bool" where
  "redis_close c = (case c of None \<Rightarrow> (- 1, False) | Some _ \<Rightarrow> (0, True))"

text \<open>Every command asserts its context, sends the words and looks at the reply.\<close>

definition command :: "'c redis_cmd \<Rightarrow> string list \<Rightarrow> 'c option \<Rightarrow> (redis_reply option \<Rightarrow> 'c \<Rightarrow> 'b result) \<Rightarrow> 'b result" where
  "command cmd words c f =
     (case c of None \<Rightarrow> Inl AssertFail | Some ctx \<Rightarrow> (case cmd words ctx of (reply, ctx1) \<Rightarrow> f reply ctx1))"

definition status_is :: "redis_reply option \<Rightarrow> (string \<Rightarrow> bool) \<Rightarrow> bool" where
  "status_is reply P \<longleftrightarrow>
     (case reply of None \<Rightarrow> False
      | Some r \<Rightarrow> (case rstr r of None \<Rightarrow> False | Some s \<Rightarrow> rtype r = REDIS_REPLY_STATUS \<and> P (c_string s)))"

definition has_type :: "redis_reply option \<Rightarrow> reply_type \<Rightarrow> bool" where
  "has_type reply ty \<longleftrightarrow> (case reply of None \<Rightarrow> False | Some r \<Rightarrow> rtype r = ty)"

text \<open>\<open>memcpy (res, reply->str, reply->len)\<close> when the reply is a string.\<close>

definition copy_string :: "redis_reply option \<Rightarrow> int \<Rightarrow> string \<Rightarrow> (int \<times> string) result" where
  "copy_string reply fail res =
     (case reply of None \<Rightarrow> Inr (fail, res)
      | Some r \<Rightarrow>
          (case rstr r of None \<Rightarrow> Inr (fail, res)
           | Some s \<Rightarrow>
               if rtype r = REDIS_REPLY_STRING then bnd (mem_write res 0 s) (\<lambda>res1. Inr (0, res1)) else Inr (fail, res)))"

section \<open>Commands\<close>

definition redis_expire :: "'c redis_cmd \<Rightarrow> 'c option \<Rightarrow> string \<Rightarrow> nat \<Rightarrow> (int \<times> 'c) result" where
  "redis_expire cmd c key sec =
     command cmd [''EXPIRE'', c_string key, dec_digits sec] c (\<lambda>reply ctx.
       Inr (if has_type reply REDIS_REPLY_STATUS then 0 else - 1, ctx))"

definition redis_multi :: "'c redis_cmd \<Rightarrow> 'c option \<Rightarrow> (int \<times> 'c) result" where
  "redis_multi cmd c =
     command cmd [''MULTI''] c (\<lambda>reply ctx. Inr (if status_is reply (\<lambda>s. s = ''OK'') then 0 else - 1, ctx))"

text \<open>\<open>freeReplyObject\<close> accepts a null reply.\<close>

definition redis_discard :: "'c redis_cmd \<Rightarrow> 'c option \<Rightarrow> (int \<times> 'c) result" where
  "redis_discard cmd c =
     command cmd [''DISCARD''] c (\<lambda>reply ctx. Inr (if status_is reply (\<lambda>s. map lower s = ''ok'') then 0 else - 1, ctx))"

definition redis_exec :: "'c redis_cmd \<Rightarrow> 'c option \<Rightarrow> (int \<times> 'c) result" where
  "redis_exec cmd c =
     command cmd [''EXEC''] c (\<lambda>reply ctx.
       Inr (if has_type reply REDIS_REPLY_ARRAY \<and> relements (the reply) \<noteq> [] then 0 else - 1, ctx))"

definition redis_set :: "'c redis_cmd \<Rightarrow> 'c option \<Rightarrow> string \<Rightarrow> string \<Rightarrow> (int \<times> 'c) result" where
  "redis_set cmd c key val =
     command cmd [''SET'', c_string key, c_string val] c (\<lambda>reply ctx.
       Inr (if status_is reply (\<lambda>s. \<not> (s \<noteq> ''OK'' \<and> s \<noteq> ''QUEUED'')) then 0 else - 1, ctx))"

definition redis_get :: "'c redis_cmd \<Rightarrow> 'c option \<Rightarrow> string \<Rightarrow> string \<Rightarrow> (int \<times> string \<times> 'c) result" where
  "redis_get cmd c key res =
     command cmd [''GET'', c_string key] c (\<lambda>reply ctx. bnd (copy_string reply (- 1) res) (\<lambda>(ret, res1). Inr (ret, res1, ctx)))"

definition redis_del :: "'c redis_cmd \<Rightarrow> 'c option \<Rightarrow> string \<Rightarrow> (int \<times> 'c) result" where
  "redis_del cmd c key =
     command cmd [''DEL'', c_string key] c (\<lambda>reply ctx.
       Inr (if has_type reply REDIS_REPLY_INTEGER \<and> rinteger (the reply) = 1 then 0 else - 1, ctx))"

definition redis_hset :: "'c redis_cmd \<Rightarrow> 'c option \<Rightarrow> string \<Rightarrow> string \<Rightarrow> string \<Rightarrow> (int \<times> 'c) result" where
  "redis_hset cmd c key filed val =
     command cmd [''HSET'', c_string key, c_string filed, c_string val] c (\<lambda>reply ctx.
       Inr (if has_type reply REDIS_REPLY_STATUS then 0 else - 1, ctx))"

definition redis_hget :: "'c redis_cmd \<Rightarrow> 'c option \<Rightarrow> string \<Rightarrow> string \<Rightarrow> string \<Rightarrow> (int \<times> string \<times> 'c) result" where
  "redis_hget cmd c key filed res =
     command cmd [''HGET'', c_string key, c_string filed] c (\<lambda>reply ctx. bnd (copy_string reply 0 res) (\<lambda>(ret, res1). Inr (ret, res1, ctx)))"

text \<open>\<open>redis_hdel\<close> passes its context to \<open>freeReplyObject\<close>.\<close>

definition redis_hdel :: "'c redis_cmd \<Rightarrow> 'c option \<Rightarrow> string \<Rightarrow> string \<Rightarrow> (int \<times> 'c) result" where
  "redis_hdel cmd c key filed =
     command cmd [''HDEL'', c_string key, c_string filed] c (\<lambda>reply ctx. if c \<noteq> None then Inl InvalidFree else Inr (0, ctx))"

text \<open>\<open>assign\<close> from the string of an element; a reply that is no string has a null pointer there.\<close>

fun element_strings :: "redis_reply list \<Rightarrow> string list result" where
  "element_strings [] = Inr []"
| "element_strings (r # rs) =
     (case rstr r of None \<Rightarrow> Inl NullDeref
      | Some s \<Rightarrow> bnd (element_strings rs) (\<lambda>ss. Inr (s # ss)))"

definition redis_hgetall :: "'c redis_cmd \<Rightarrow> 'c option \<Rightarrow> string \<Rightarrow> (string list \<times> 'c) result" where
  "redis_hgetall cmd c key =
     command cmd [''HGETALL'', c_string key] c (\<lambda>reply ctx.
       if has_type reply REDIS_REPLY_ARRAY \<and> relements (the reply) \<noteq> []
       then bnd (element_strings (relements (the reply))) (\<lambda>ret. Inr (ret, ctx))
       else Inr ([], ctx))"

text \<open>The loop with step two; a last element without a partner is left out.\<close>

fun element_pairs :: "redis_reply list \<Rightarrow> (string \<rightharpoonup> string) \<Rightarrow> (string \<rightharpoonup> string) result" where
  "element_pairs (k # v # rs) ret =
     (case rstr k of None \<Rightarrow> Inl NullDeref
      | Some key \<Rightarrow> (case rstr v of None \<Rightarrow> Inl NullDeref | Some val \<Rightarrow> element_pairs rs (ret(key \<mapsto> val))))"
| "element_pairs rs ret = Inr ret"

definition redis_hgetall_2 :: "'c redis_cmd \<Rightarrow> 'c option \<Rightarrow> string \<Rightarrow> ((string \<rightharpoonup> string) \<times> 'c) result" where
  "redis_hgetall_2 cmd c key =
     command cmd [''HGETALL'', c_string key] c (\<lambda>reply ctx.
       if has_type reply REDIS_REPLY_ARRAY \<and> relements (the reply) \<noteq> []
       then bnd (element_pairs (relements (the reply)) Map.empty) (\<lambda>ret. Inr (ret, ctx))
       else Inr (Map.empty, ctx))"

definition redis_lpush :: "'c redis_cmd \<Rightarrow> 'c option \<Rightarrow> string \<Rightarrow> string \<Rightarrow> (int \<times> 'c) result" where
  "redis_lpush cmd c key val =
     command cmd [''LPUSH'', c_string key, c_string val] c (\<lambda>reply ctx. Inr (if has_type reply REDIS_REPLY_INTEGER then 0 else - 1, ctx))"

definition redis_lpop :: "'c redis_cmd \<Rightarrow> 'c option \<Rightarrow> string \<Rightarrow> string \<Rightarrow> (int \<times> string \<times> 'c) result" where
  "redis_lpop cmd c key res =
     command cmd [''LPOP'', c_string key] c (\<lambda>reply ctx. bnd (copy_string reply (- 1) res) (\<lambda>(ret, res1). Inr (ret, res1, ctx)))"

definition redis_rpush :: "'c redis_cmd \<Rightarrow> 'c option \<Rightarrow> string \<Rightarrow> string \<Rightarrow> (int \<times> 'c) result" where
  "redis_rpush cmd c key val =
     command cmd [''RPUSH'', c_string key, c_string val] c (\<lambda>reply ctx. Inr (if has_type reply REDIS_REPLY_INTEGER then 0 else - 1, ctx))"

definition redis_rpop :: "'c redis_cmd \<Rightarrow> 'c option \<Rightarrow> string \<Rightarrow> string \<Rightarrow> (int \<times> string \<times> 'c) result" where
  "redis_rpop cmd c key res =
     command cmd [''RPOP'', c_string key] c (\<lambda>reply ctx. bnd (copy_string reply (- 1) res) (\<lambda>(ret, res1). Inr (ret, res1, ctx)))"

definition redis_lrem :: "'c redis_cmd \<Rightarrow> 'c option \<Rightarrow> string \<Rightarrow> int \<Rightarrow> string \<Rightarrow> (int \<times> 'c) result" where
  "redis_lrem cmd c key cnt val =
     command cmd [''LREM'', c_string key, dec_int cnt, c_string val] c (\<lambda>reply ctx. Inr (if has_type reply REDIS_REPLY_INTEGER then 0 else - 1, ctx))"

definition redis_lrange :: "'c redis_cmd \<Rightarrow> 'c option \<Rightarrow> string \<Rightarrow> int \<Rightarrow> int \<Rightarrow> (string list \<times> 'c) result" where
  "redis_lrange cmd c key first lst =
     command cmd [''LRANGE'', c_string key, dec_int first, dec_int lst] c (\<lambda>reply ctx.
       if has_type reply REDIS_REPLY_ARRAY \<and> relements (the reply) \<noteq> []
       then bnd (element_strings (relements (the reply))) (\<lambda>ret. Inr (ret, ctx))
       else Inr ([], ctx))"

section \<open>What the server documents\<close>

text \<open>
  A key holds a string, a hash (here with its fields in the order the server lists them) or a value of
  another kind.
\<close>

datatype redis_value = StringVal string | HashVal "(string \<times> string) list" | OtherVal

text \<open>
  The replies of \<open>SET\<close>, \<open>GET\<close>, \<open>HSET\<close> and \<open>HGETALL\<close> outside a transaction, from a server that can be reached and
  has memory left; \<open>db\<close> is its key space. \<open>SET\<close> replaces a value of any kind, the others answer a key of the wrong kind with
  an error and change nothing.
\<close>

abbreviation string_reply :: "string \<Rightarrow> redis_reply" where
  "string_reply s \<equiv> Reply REDIS_REPLY_STRING 0 (Some s) []"

definition wrong_type :: redis_reply where
  "wrong_type = Reply REDIS_REPLY_ERROR 0 (Some ''WRONGTYPE Operation against a key holding the wrong kind of value'') []"

definition flat :: "(string \<times> string) list \<Rightarrow> redis_reply list" where
  "flat ps = concat (map (\<lambda>(f, v). [string_reply f, string_reply v]) ps)"

fun hash_of :: "redis_value option \<Rightarrow> (string \<times> string) list option" where
  "hash_of None = Some []"
| "hash_of (Some (HashVal h)) = Some h"
| "hash_of (Some _) = None"

fun get_reply :: "redis_value option \<Rightarrow> redis_reply" where
  "get_reply None = Reply REDIS_REPLY_NIL 0 None []"
| "get_reply (Some (StringVal v)) = string_reply v"
| "get_reply (Some _) = wrong_type"

definition hgetall_reply :: "redis_value option \<Rightarrow> redis_reply" where
  "hgetall_reply x = (case hash_of x of Some h \<Rightarrow> Reply REDIS_REPLY_ARRAY 0 None (flat h) | None \<Rightarrow> wrong_type)"

definition redis_replies :: "'c redis_cmd \<Rightarrow> ('c \<Rightarrow> string \<rightharpoonup> redis_value) \<Rightarrow> bool" where
  "redis_replies cmd db \<longleftrightarrow>
     (\<forall>c k v. \<exists>c'. cmd [''SET'', k, v] c = (Some (Reply REDIS_REPLY_STATUS 0 (Some ''OK'') []), c') \<and> db c' = (db c)(k \<mapsto> StringVal v)) \<and>
     (\<forall>c k. cmd [''GET'', k] c = (Some (get_reply (db c k)), c)) \<and>
     (\<forall>c k f v. case hash_of (db c k) of
        Some h \<Rightarrow> (\<exists>n c' h'. cmd [''HSET'', k, f, v] c = (Some (Reply REDIS_REPLY_INTEGER n None []), c') \<and>
          db c' = (db c)(k \<mapsto> HashVal h') \<and> map_of h' = (map_of h)(f \<mapsto> v) \<and> distinct (map fst h'))
      | None \<Rightarrow> cmd [''HSET'', k, f, v] c = (Some wrong_type, c)) \<and>
     (\<forall>c k. cmd [''HGETALL'', k] c = (Some (hgetall_reply (db c k)), c))"

lemma hset_reply:
  assumes "redis_replies cmd db"
  shows "hash_of (db c k) = Some h \<Longrightarrow> \<exists>n c' h'. cmd [''HSET'', k, f, v] c = (Some (Reply REDIS_REPLY_INTEGER n None []), c') \<and>
      db c' = (db c)(k \<mapsto> HashVal h') \<and> map_of h' = (map_of h)(f \<mapsto> v) \<and> distinct (map fst h')"
    and "hash_of (db c k) = None \<Longrightarrow> cmd [''HSET'', k, f, v] c = (Some wrong_type, c)"
proof -
  note law = assms [unfolded redis_replies_def, THEN conjunct2, THEN conjunct2, THEN conjunct1, THEN spec [of _ c],
      THEN spec [of _ k], THEN spec [of _ f], THEN spec [of _ v]]
  show "hash_of (db c k) = Some h \<Longrightarrow> \<exists>n c' h'. cmd [''HSET'', k, f, v] c = (Some (Reply REDIS_REPLY_INTEGER n None []), c') \<and>
      db c' = (db c)(k \<mapsto> HashVal h') \<and> map_of h' = (map_of h)(f \<mapsto> v) \<and> distinct (map fst h')" using law by simp
  show "hash_of (db c k) = None \<Longrightarrow> cmd [''HSET'', k, f, v] c = (Some wrong_type, c)" using law by simp
qed

lemma element_pairs_flat: "element_pairs (flat ps) m = Inr (m ++ map_of (rev ps))"
proof (induction ps arbitrary: m)
  case (Cons p ps)
  obtain f v where p: "p = (f, v)" by (cases p)
  have "element_pairs (flat (p # ps)) m = element_pairs (flat ps) (m(f \<mapsto> v))" by (simp add: flat_def p)
  also have "\<dots> = Inr (m(f \<mapsto> v) ++ map_of (rev ps))" by (rule Cons.IH)
  also have "m(f \<mapsto> v) ++ map_of (rev ps) = m ++ map_of (rev (p # ps))" by (simp add: p)
  finally show ?case .
qed (simp add: flat_def)

lemma map_of_rev_distinct: "distinct (map fst ps) \<Longrightarrow> map_of (rev ps) = map_of ps"
proof
  fix k assume d: "distinct (map fst ps)"
  then have d': "distinct (map fst (rev ps))" by (simp add: rev_map [symmetric])
  show "map_of (rev ps) k = map_of ps k"
  proof (cases "map_of ps k")
    case None
    then have "map_of (rev ps) k = None" by (simp add: map_of_eq_None_iff)
    then show ?thesis using None by simp
  next
    case (Some v)
    then have "map_of (rev ps) k = Some v" using map_of_eq_Some_iff [OF d] map_of_eq_Some_iff [OF d'] by simp
    then show ?thesis using Some by simp
  qed
qed

text \<open>\<open>redis_hset\<close> and \<open>redis_hgetall_2\<close> together.\<close>

lemma hgetall_2_reply:
  assumes "cmd [''HGETALL'', c_string k] c = (Some (hgetall_reply x), c)" and "hash_of x = Some h" and "distinct (map fst h)"
  shows "redis_hgetall_2 cmd (Some c) k = Inr (map_of h, c)"
proof -
  have "flat h = [] \<Longrightarrow> h = []" by (cases h) (auto simp: flat_def)
  then show ?thesis using assms
    by (auto simp: redis_hgetall_2_def command_def has_type_def hgetall_reply_def element_pairs_flat map_of_rev_distinct bnd_simps)
qed

lemma hash_commands:
  assumes "redis_replies cmd db"
  shows "case hash_of (db c (c_string k)) of
      Some h \<Rightarrow> (\<exists>c2. redis_hset cmd (Some c) k f v = Inr (- 1, c2) \<and>
        redis_hgetall_2 cmd (Some c2) k = Inr ((map_of h)(c_string f \<mapsto> c_string v), c2))
    | None \<Rightarrow> redis_hset cmd (Some c) k f v = Inr (- 1, c) \<and> redis_hgetall_2 cmd (Some c) k = Inr (Map.empty, c)"
proof (cases "hash_of (db c (c_string k))")
  case None
  then have "cmd [''HSET'', c_string k, c_string f, c_string v] c = (Some wrong_type, c)"
    by (rule hset_reply(2) [OF assms])
  moreover have "cmd [''HGETALL'', c_string k] c = (Some wrong_type, c)" using assms None by (simp add: redis_replies_def hgetall_reply_def)
  ultimately show ?thesis using None
    by (simp add: redis_hset_def redis_hgetall_2_def command_def has_type_def wrong_type_def)
next
  case (Some h)
  then obtain n c2 h' where c2: "cmd [''HSET'', c_string k, c_string f, c_string v] c = (Some (Reply REDIS_REPLY_INTEGER n None []), c2)"
    "db c2 = (db c)(c_string k \<mapsto> HashVal h')" "map_of h' = (map_of h)(c_string f \<mapsto> c_string v)" "distinct (map fst h')"
    using hset_reply(1) [OF assms, of c "c_string k" h "c_string f" "c_string v"] by blast
  have "cmd [''HGETALL'', c_string k] c2 = (Some (hgetall_reply (db c2 (c_string k))), c2)" using assms by (simp add: redis_replies_def)
  then have "redis_hgetall_2 cmd (Some c2) k = Inr (map_of h', c2)"
    using hgetall_2_reply [of cmd k c2 "db c2 (c_string k)" h'] c2(2,4) by simp
  moreover have "redis_hset cmd (Some c) k f v = Inr (- 1, c2)" using c2(1) by (simp add: redis_hset_def command_def has_type_def)
  ultimately show ?thesis using Some c2(3) by simp
qed

section \<open>Properties\<close>

text \<open>
  C27. Against a server that replies as documented. A value that was set, over a value of any kind, is read
  back into the first bytes of the destination, without a terminator, and past its end when the destination
  is too short; the value ends at its first NUL. \<open>redis_get\<close> of a key that holds no string fails and leaves
  the destination alone. \<open>redis_hset\<close> reports a failure in every case: on a key that is free or holds a hash
  the field is stored nevertheless and \<open>redis_hgetall_2\<close> returns the old fields with the new one, on any other
  key nothing changes. \<open>redis_hdel\<close> frees its connection as if it were a reply.
\<close>

theorem dao_round_trip:
  assumes "redis_replies cmd db"
  shows "(\<exists>c1. redis_set cmd (Some c) k v = Inr (0, c1) \<and> db c1 = (db c)(c_string k \<mapsto> StringVal (c_string v)) \<and>
      redis_get cmd (Some c1) k res =
        (if length (c_string v) \<le> length res then Inr (0, c_string v @ drop (length (c_string v)) res, c1) else Inl OutOfBounds)) \<and>
    ((\<nexists>s. db c (c_string k) = Some (StringVal s)) \<longrightarrow> redis_get cmd (Some c) k res = Inr (- 1, res, c)) \<and>
    (case hash_of (db c (c_string k)) of
       Some h \<Rightarrow> (\<exists>c2. redis_hset cmd (Some c) k f v = Inr (- 1, c2) \<and>
         redis_hgetall_2 cmd (Some c2) k = Inr ((map_of h)(c_string f \<mapsto> c_string v), c2))
     | None \<Rightarrow> redis_hset cmd (Some c) k f v = Inr (- 1, c) \<and> redis_hgetall_2 cmd (Some c) k = Inr (Map.empty, c)) \<and>
    redis_hdel cmd (Some c) k f = Inl InvalidFree"
proof (intro conjI impI)
  let ?k = "c_string k" and ?v = "c_string v" and ?f = "c_string f"
  have get: "cmd [''GET'', ?k] c' = (Some (get_reply (db c' ?k)), c')" for c' using assms by (simp add: redis_replies_def)
  obtain c1 where c1: "cmd [''SET'', ?k, ?v] c = (Some (Reply REDIS_REPLY_STATUS 0 (Some ''OK'') []), c1)" "db c1 = (db c)(?k \<mapsto> StringVal ?v)"
    using assms unfolding redis_replies_def by blast
  have "redis_set cmd (Some c) k v = Inr (0, c1)" using c1(1) by (simp add: redis_set_def command_def status_is_def c_string_def)
  moreover have "redis_get cmd (Some c1) k res = (if length ?v \<le> length res then Inr (0, ?v @ drop (length ?v) res, c1) else Inl OutOfBounds)"
    using get [of c1] c1(2) by (simp add: redis_get_def command_def copy_string_def mem_write_def bnd_simps)
  ultimately show "\<exists>c1. redis_set cmd (Some c) k v = Inr (0, c1) \<and> db c1 = (db c)(?k \<mapsto> StringVal ?v) \<and>
      redis_get cmd (Some c1) k res = (if length ?v \<le> length res then Inr (0, ?v @ drop (length ?v) res, c1) else Inl OutOfBounds)"
    using c1(2) by blast
  show "redis_get cmd (Some c) k res = Inr (- 1, res, c)" if "\<nexists>s. db c ?k = Some (StringVal s)"
    using get [of c] that by (cases "db c ?k" rule: get_reply.cases) (auto simp: redis_get_def command_def copy_string_def wrong_type_def bnd_simps)
  show "case hash_of (db c ?k) of
      Some h \<Rightarrow> (\<exists>c2. redis_hset cmd (Some c) k f v = Inr (- 1, c2) \<and> redis_hgetall_2 cmd (Some c2) k = Inr ((map_of h)(?f \<mapsto> ?v), c2))
    | None \<Rightarrow> redis_hset cmd (Some c) k f v = Inr (- 1, c) \<and> redis_hgetall_2 cmd (Some c) k = Inr (Map.empty, c)"
    by (rule hash_commands [OF assms])
  show "redis_hdel cmd (Some c) k f = Inl InvalidFree" by (simp add: redis_hdel_def command_def split: prod.split)
qed

text \<open>A store with strings, hashes and other values; \<open>AList.update\<close> keeps one pair per field.\<close>

definition mini_redis :: "(string \<times> redis_value) list redis_cmd" where
  "mini_redis words c =
     (case words of
        [w, k] \<Rightarrow>
          if w = ''GET'' then (Some (get_reply (map_of c k)), c)
          else if w = ''HGETALL'' then (Some (hgetall_reply (map_of c k)), c) else (None, c)
      | [w, k, v] \<Rightarrow>
          if w = ''SET'' then (Some (Reply REDIS_REPLY_STATUS 0 (Some ''OK'') []), (k, StringVal v) # c) else (None, c)
      | [w, k, f, v] \<Rightarrow>
          if w = ''HSET'' then
            (case hash_of (map_of c k) of
               Some h \<Rightarrow> (Some (Reply REDIS_REPLY_INTEGER 1 None []), (k, HashVal (AList.update f v (AList.clearjunk h))) # c)
             | None \<Rightarrow> (Some wrong_type, c))
          else (None, c)
      | _ \<Rightarrow> (None, c))"

lemma mini_redis_replies: "redis_replies mini_redis map_of"
proof -
  have h: "map_of (AList.update f v (AList.clearjunk h)) = (map_of h)(f \<mapsto> v) \<and> distinct (map fst (AList.update f v (AList.clearjunk h)))"
    for f v and h :: "(string \<times> string) list"
    by (simp add: update_conv' map_of_clearjunk distinct_update distinct_clearjunk)
  have "case hash_of (map_of c k) of
      Some h \<Rightarrow> (\<exists>n c' h'. mini_redis [''HSET'', k, f, v] c = (Some (Reply REDIS_REPLY_INTEGER n None []), c') \<and>
        map_of c' = (map_of c)(k \<mapsto> HashVal h') \<and> map_of h' = (map_of h)(f \<mapsto> v) \<and> distinct (map fst h'))
    | None \<Rightarrow> mini_redis [''HSET'', k, f, v] c = (Some wrong_type, c)" for c k f v
  proof (cases "hash_of (map_of c k)")
    case (Some x)
    then show ?thesis using h [of f v x] by (auto simp: mini_redis_def)
  qed (simp add: mini_redis_def)
  then show ?thesis by (simp add: redis_replies_def mini_redis_def)
qed

theorem dao_round_trip_witness:
  "(\<exists>c1. redis_set mini_redis (Some []) ''k'' ''val'' = Inr (0, c1) \<and> redis_get mini_redis (Some c1) ''k'' ''.....'' = Inr (0, ''val..'', c1)) \<and>
   (\<exists>c2. redis_hset mini_redis (Some []) ''k'' ''f'' ''val'' = Inr (- 1, c2) \<and> redis_hgetall_2 mini_redis (Some c2) ''k'' = Inr ([''f'' \<mapsto> ''val''], c2)) \<and>
   redis_hset mini_redis (Some [(''k'', OtherVal)]) ''k'' ''f'' ''val'' = Inr (- 1, [(''k'', OtherVal)])"
  using dao_round_trip [OF mini_redis_replies, of "[]" "''k''" "''val''" "''.....''" "''f''"]
    dao_round_trip [OF mini_redis_replies, of "[(''k'', OtherVal)]" "''k''" "''val''" "''.....''" "''f''"]
  by (auto simp: c_string_def)

end
