(* ===== verification/Any.thy ===== *)
theory Any
  imports Atp_Prelude Step_System
begin

text \<open>
  \<open>app/atp_any.hpp\<close>: a value of any copyable type behind a pointer that the \<open>any\<close> owns. A \<open>holder\<close>
  carries the type and the value; the heap maps addresses to holders; the variables of the program
  that are of type \<open>any\<close> are the state, each with its \<open>content\<close> pointer.
\<close>

type_synonym type_info = string

record 'v holder =
  held_type :: type_info
  held :: 'v

record 'v any_heap =
  cells :: "nat \<rightharpoonup> 'v holder"
  next_cell :: nat

text \<open>The \<open>content\<close> member.\<close>

type_synonym any = "nat option"

section \<open>Holders\<close>

definition new_holder :: "type_info \<Rightarrow> 'v \<Rightarrow> 'v any_heap \<Rightarrow> nat \<times> 'v any_heap" where
  "new_holder ty v h = (next_cell h, h\<lparr>cells := (cells h)(next_cell h \<mapsto> \<lparr>held_type = ty, held = v\<rparr>), next_cell := Suc (next_cell h)\<rparr>)"

definition delete_holder :: "nat \<Rightarrow> 'v any_heap \<Rightarrow> 'v any_heap result" where
  "delete_holder p h = (if cells h p = None then Inl InvalidFree else Inr (h\<lparr>cells := (cells h)(p := None)\<rparr>))"

definition holder_clone :: "nat \<Rightarrow> 'v any_heap \<Rightarrow> (nat \<times> 'v any_heap) result" where
  "holder_clone p h =
     (case cells h p of None \<Rightarrow> Inl UseAfterFree | Some ho \<Rightarrow> Inr (new_holder (held_type ho) (held ho) h))"

section \<open>Constructors and destructor\<close>

definition any_new :: any where
  "any_new = None"

definition any_of :: "type_info \<Rightarrow> 'v \<Rightarrow> 'v any_heap \<Rightarrow> any \<times> 'v any_heap" where
  "any_of ty v h = (case new_holder ty v h of (p, h1) \<Rightarrow> (Some p, h1))"

definition any_copy :: "any \<Rightarrow> 'v any_heap \<Rightarrow> (any \<times> 'v any_heap) result" where
  "any_copy other h =
     (case other of None \<Rightarrow> Inr (None, h) | Some p \<Rightarrow> bnd (holder_clone p h) (\<lambda>(q, h1). Inr (Some q, h1)))"

text \<open>The new object and the one moved from.\<close>

definition any_move :: "any \<Rightarrow> any \<times> any" where
  "any_move other = (other, None)"

definition any_destroy :: "any \<Rightarrow> 'v any_heap \<Rightarrow> 'v any_heap result" where
  "any_destroy a h = (case a of None \<Rightarrow> Inr h | Some p \<Rightarrow> delete_holder p h)"

section \<open>Operations\<close>

definition any_swap :: "any \<Rightarrow> any \<Rightarrow> any \<times> any" where
  "any_swap a b = (b, a)"

text \<open>Copy assignment swaps with a copy, which is then destroyed with the old content.\<close>

definition assign_copy :: "any \<Rightarrow> any \<Rightarrow> 'v any_heap \<Rightarrow> (any \<times> 'v any_heap) result" where
  "assign_copy self rhs h =
     bnd (any_copy rhs h) (\<lambda>(tmp, h1).
       case any_swap tmp self of (tmp1, self1) \<Rightarrow> bnd (any_destroy tmp1 h1) (\<lambda>h2. Inr (self1, h2)))"

text \<open>Move assignment: swap, then the other one is swapped with an empty object, which takes its content away.\<close>

definition assign_move :: "any \<Rightarrow> any \<Rightarrow> 'v any_heap \<Rightarrow> (any \<times> any \<times> 'v any_heap) result" where
  "assign_move self rhs h =
     (case any_swap rhs self of (rhs1, self1) \<Rightarrow>
        (case any_swap any_new rhs1 of (tmp, rhs2) \<Rightarrow> bnd (any_destroy tmp h) (\<lambda>h1. Inr (self1, rhs2, h1))))"

definition assign_value :: "any \<Rightarrow> type_info \<Rightarrow> 'v \<Rightarrow> 'v any_heap \<Rightarrow> (any \<times> 'v any_heap) result" where
  "assign_value self ty v h =
     (case any_of ty v h of (tmp, h1) \<Rightarrow>
        (case any_swap tmp self of (tmp1, self1) \<Rightarrow> bnd (any_destroy tmp1 h1) (\<lambda>h2. Inr (self1, h2))))"

definition any_empty :: "any \<Rightarrow> bool" where
  "any_empty a \<longleftrightarrow> a = None"

definition any_clear :: "any \<Rightarrow> 'v any_heap \<Rightarrow> (any \<times> 'v any_heap) result" where
  "any_clear self h = (case any_swap any_new self of (tmp, self1) \<Rightarrow> bnd (any_destroy tmp h) (\<lambda>h1. Inr (self1, h1)))"

definition any_type :: "any \<Rightarrow> 'v any_heap \<Rightarrow> type_info result" where
  "any_type a h =
     (case a of None \<Rightarrow> Inr ''void''
      | Some p \<Rightarrow> (case cells h p of None \<Rightarrow> Inl UseAfterFree | Some ho \<Rightarrow> Inr (held_type ho)))"

section \<open>Casts\<close>

text \<open>The pointer cast gives the address of the held value, or a null pointer; \<open>operand\<close> may be null.\<close>

definition any_cast_ptr :: "type_info \<Rightarrow> any option \<Rightarrow> 'v any_heap \<Rightarrow> nat option result" where
  "any_cast_ptr ty operand h =
     (case operand of None \<Rightarrow> Inr None
      | Some a \<Rightarrow> bnd (any_type a h) (\<lambda>t. Inr (if t = ty then a else None)))"

definition bad_cast_reason :: "type_info \<Rightarrow> type_info \<Rightarrow> string" where
  "bad_cast_reason from to = ''bad any_cast : can't convert '' @ from @ '' to '' @ to"

text \<open>The cast of a reference returns the value or throws.\<close>

definition any_cast :: "type_info \<Rightarrow> any \<Rightarrow> 'v any_heap \<Rightarrow> (string + 'v) result" where
  "any_cast ty a h =
     bnd (any_cast_ptr ty (Some a) h) (\<lambda>r.
       case r of
         None \<Rightarrow> bnd (any_type a h) (\<lambda>t. Inr (Inl (bad_cast_reason t ty)))
       | Some p \<Rightarrow> (case cells h p of None \<Rightarrow> Inl UseAfterFree | Some ho \<Rightarrow> Inr (Inr (held ho))))"

section \<open>Programs\<close>

text \<open>The live variables with their contents, and the heap.\<close>

type_synonym 'v any_state = "(nat \<rightharpoonup> any) \<times> 'v any_heap"

datatype 'v any_op = New nat | Value nat type_info 'v | Copy nat nat | Move nat nat | AssignCopy nat nat
  | AssignMove nat nat | AssignValue nat type_info 'v | Clear nat | Destroy nat

definition the_var :: "(nat \<rightharpoonup> any) \<Rightarrow> nat \<Rightarrow> any" where
  "the_var V x = (case V x of None \<Rightarrow> None | Some a \<Rightarrow> a)"

text \<open>A move assignment of an object to itself ends empty: the swap with itself changes nothing.\<close>

fun any_exec :: "'v any_op \<Rightarrow> 'v any_state \<Rightarrow> 'v any_state result" where
  "any_exec (New x) (V, h) = Inr (V(x \<mapsto> any_new), h)"
| "any_exec (Value x ty v) (V, h) = (case any_of ty v h of (a, h1) \<Rightarrow> Inr (V(x \<mapsto> a), h1))"
| "any_exec (Copy x y) (V, h) = bnd (any_copy (the_var V y) h) (\<lambda>(a, h1). Inr (V(x \<mapsto> a), h1))"
| "any_exec (Move x y) (V, h) = (case any_move (the_var V y) of (a, b) \<Rightarrow> Inr (V(x \<mapsto> a, y \<mapsto> b), h))"
| "any_exec (AssignCopy x y) (V, h) = bnd (assign_copy (the_var V x) (the_var V y) h) (\<lambda>(a, h1). Inr (V(x \<mapsto> a), h1))"
| "any_exec (AssignMove x y) (V, h) =
     (if x = y then bnd (any_clear (the_var V x) h) (\<lambda>(a, h1). Inr (V(x \<mapsto> a), h1))
      else bnd (assign_move (the_var V x) (the_var V y) h) (\<lambda>(a, b, h1). Inr (V(x \<mapsto> a, y \<mapsto> b), h1)))"
| "any_exec (AssignValue x ty v) (V, h) = bnd (assign_value (the_var V x) ty v h) (\<lambda>(a, h1). Inr (V(x \<mapsto> a), h1))"
| "any_exec (Clear x) (V, h) = bnd (any_clear (the_var V x) h) (\<lambda>(a, h1). Inr (V(x \<mapsto> a), h1))"
| "any_exec (Destroy x) (V, h) = bnd (any_destroy (the_var V x) h) (\<lambda>h1. Inr (V(x := None), h1))"

text \<open>Variables are constructed once and used while they live.\<close>

fun any_legal :: "'v any_op \<Rightarrow> (nat \<rightharpoonup> 'b) \<Rightarrow> bool" where
  "any_legal (New x) m \<longleftrightarrow> m x = None"
| "any_legal (Value x ty v) m \<longleftrightarrow> m x = None"
| "any_legal (Copy x y) m \<longleftrightarrow> m x = None \<and> m y \<noteq> None"
| "any_legal (Move x y) m \<longleftrightarrow> m x = None \<and> m y \<noteq> None"
| "any_legal (AssignCopy x y) m \<longleftrightarrow> m x \<noteq> None \<and> m y \<noteq> None"
| "any_legal (AssignMove x y) m \<longleftrightarrow> m x \<noteq> None \<and> m y \<noteq> None"
| "any_legal (AssignValue x ty v) m \<longleftrightarrow> m x \<noteq> None"
| "any_legal (Clear x) m \<longleftrightarrow> m x \<noteq> None"
| "any_legal (Destroy x) m \<longleftrightarrow> m x \<noteq> None"

text \<open>The meaning: a variable holds nothing, or a value with its type.\<close>

type_synonym 'v any_values = "nat \<rightharpoonup> (type_info \<times> 'v) option"

fun any_spec :: "'v any_op \<Rightarrow> 'v any_values \<Rightarrow> 'v any_values" where
  "any_spec (New x) m = m(x \<mapsto> None)"
| "any_spec (Value x ty v) m = m(x \<mapsto> Some (ty, v))"
| "any_spec (Copy x y) m = m(x := m y)"
| "any_spec (Move x y) m = m(x := m y, y \<mapsto> None)"
| "any_spec (AssignCopy x y) m = m(x := m y)"
| "any_spec (AssignMove x y) m = m(x := m y, y \<mapsto> None)"
| "any_spec (AssignValue x ty v) m = m(x \<mapsto> Some (ty, v))"
| "any_spec (Clear x) m = m(x \<mapsto> None)"
| "any_spec (Destroy x) m = m(x := None)"

section \<open>Ownership\<close>

text \<open>Every holder belongs to exactly one variable.\<close>

definition owns :: "'v any_state \<Rightarrow> bool" where
  "owns s \<longleftrightarrow> (\<forall>x p. fst s x = Some (Some p) \<longrightarrow> cells (snd s) p \<noteq> None) \<and>
     (\<forall>x y p. fst s x = Some (Some p) \<and> fst s y = Some (Some p) \<longrightarrow> x = y) \<and>
     (\<forall>p. cells (snd s) p \<noteq> None \<longrightarrow> p < next_cell (snd s) \<and> (\<exists>x. fst s x = Some (Some p)))"

definition cell_value :: "'v any_heap \<Rightarrow> any \<Rightarrow> (type_info \<times> 'v) option" where
  "cell_value h a = (case a of None \<Rightarrow> None | Some p \<Rightarrow> map_option (\<lambda>ho. (held_type ho, held ho)) (cells h p))"

definition view :: "'v any_state \<Rightarrow> 'v any_values" where
  "view s x = map_option (cell_value (snd s)) (fst s x)"

lemmas any_defs = any_new_def any_of_def any_copy_def any_move_def any_destroy_def any_swap_def assign_copy_def assign_move_def
  assign_value_def any_clear_def new_holder_def delete_holder_def holder_clone_def the_var_def

lemma ownsI:
  assumes "\<And>x p. V x = Some (Some p) \<Longrightarrow> cells h p \<noteq> None"
    and "\<And>x y p. V x = Some (Some p) \<Longrightarrow> V y = Some (Some p) \<Longrightarrow> x = y"
    and "\<And>p. cells h p \<noteq> None \<Longrightarrow> p < next_cell h \<and> (\<exists>x. V x = Some (Some p))"
  shows "owns (V, h)"
  using assms unfolding owns_def fst_conv snd_conv by blast

lemma owns_live: "owns (V, h) \<Longrightarrow> V x = Some (Some p) \<Longrightarrow> cells h p \<noteq> None"
  unfolding owns_def fst_conv snd_conv by blast

lemma owns_inj: "owns (V, h) \<Longrightarrow> V x = Some (Some p) \<Longrightarrow> V y = Some (Some p) \<Longrightarrow> x = y"
  unfolding owns_def fst_conv snd_conv by blast

lemma owns_owner: "owns (V, h) \<Longrightarrow> cells h p \<noteq> None \<Longrightarrow> p < next_cell h \<and> (\<exists>x. V x = Some (Some p))"
  unfolding owns_def fst_conv snd_conv by blast

lemma owns_next: "owns (V, h) \<Longrightarrow> cells h (next_cell h) = None"
  using owns_owner by blast

text \<open>A holder that no variable has had yet, put into a variable that had nothing.\<close>

lemma own_fresh:
  assumes own: "owns (V, h)" and x: "V x = None \<or> V x = Some None"
  shows "owns (V(x \<mapsto> Some (next_cell h)), h\<lparr>cells := (cells h)(next_cell h \<mapsto> ho), next_cell := Suc (next_cell h)\<rparr>)" (is "owns (?V, ?h)")
    and "view (V(x \<mapsto> Some (next_cell h)), h\<lparr>cells := (cells h)(next_cell h \<mapsto> ho), next_cell := Suc (next_cell h)\<rparr>)
      = (view (V, h))(x \<mapsto> Some (held_type ho, held ho))"
proof -
  have n': "V y \<noteq> Some (Some (next_cell h))" for y using owns_live [OF own] owns_next [OF own] by blast
  show "owns (?V, ?h)"
  proof (rule ownsI)
    fix p assume p: "cells ?h p \<noteq> None"
    show "p < next_cell ?h \<and> (\<exists>y. ?V y = Some (Some p))"
    proof (cases "p = next_cell h")
      case False
      then have "p < next_cell h \<and> (\<exists>y. V y = Some (Some p))" using owns_owner [OF own, of p] p by simp
      then obtain y where "p < next_cell h" "V y = Some (Some p)" by blast
      moreover have "y \<noteq> x" using calculation(2) x by auto
      ultimately show ?thesis by (auto intro: exI [of _ y])
    qed auto
  next
    fix y p assume "?V y = Some (Some p)"
    then show "cells ?h p \<noteq> None" using owns_live [OF own, of y p] by (cases "y = x") auto
  next
    fix y z p assume "?V y = Some (Some p)" "?V z = Some (Some p)"
    then show "y = z" using owns_inj [OF own, of y p z] n' by (cases "y = x"; cases "z = x") auto
  qed
  show "view (?V, ?h) = (view (V, h))(x \<mapsto> Some (held_type ho, held ho))"
  proof
    fix y
    show "view (?V, ?h) y = ((view (V, h))(x \<mapsto> Some (held_type ho, held ho))) y"
      using n' [of y] by (cases "y = x"; cases "V y") (auto simp: view_def cell_value_def split: option.split)
  qed
qed

text \<open>A variable gives up its holder, which is deleted; it stays empty or goes.\<close>

lemma own_free:
  assumes own: "owns (V, h)" and x: "V x = Some (Some p)" and a: "a = None \<or> a = Some None"
  shows "owns (V(x := a), h\<lparr>cells := (cells h)(p := None)\<rparr>)" (is "owns (?V, ?h)")
    and "view (V(x := a), h\<lparr>cells := (cells h)(p := None)\<rparr>) = (view (V, h))(x := map_option (\<lambda>_. None) a)"
proof -
  have u: "V y = Some (Some p) \<Longrightarrow> y = x" for y using owns_inj [OF own _ x] .
  have bk: "y \<noteq> x \<and> V y = Some (Some q)" if "?V y = Some (Some q)" for y q
    using that a by (cases "y = x") auto
  show "owns (?V, ?h)"
  proof (rule ownsI)
    fix q assume q: "cells ?h q \<noteq> None"
    then have ne: "q \<noteq> p" "cells h q \<noteq> None" by (cases "q = p"; simp)+
    then obtain y where y: "q < next_cell h" "V y = Some (Some q)" using owns_owner [OF own, of q] by blast
    then have "y \<noteq> x" using x ne(1) by auto
    then show "q < next_cell ?h \<and> (\<exists>y. ?V y = Some (Some q))" using y by (auto intro: exI [of _ y])
  next
    fix y q assume y: "?V y = Some (Some q)"
    have "q \<noteq> p" using bk [OF y] u [of y] by blast
    then show "cells ?h q \<noteq> None" using owns_live [OF own, of y q] bk [OF y] by simp
  next
    fix y z q assume "?V y = Some (Some q)" "?V z = Some (Some q)"
    then show "y = z" using owns_inj [OF own] bk by blast
  qed
  show "view (?V, ?h) = (view (V, h))(x := map_option (\<lambda>_. None) a)"
  proof
    fix y
    show "view (?V, ?h) y = ((view (V, h))(x := map_option (\<lambda>_. None) a)) y"
    proof (cases "y = x")
      case True
      then show ?thesis using a by (auto simp: view_def cell_value_def)
    next
      case False
      then have "V y \<noteq> Some (Some p)" using u by blast
      then show ?thesis using False by (cases "V y") (auto simp: view_def cell_value_def split: option.split)
    qed
  qed
qed

lemma own_move:
  assumes own: "owns (V, h)" and x: "V x = None \<or> V x = Some None" and y: "V y = Some a" and ne: "x \<noteq> y"
  shows "owns (V(x \<mapsto> a, y \<mapsto> None), h)" (is "owns (?V, h)")
    and "view (V(x \<mapsto> a, y \<mapsto> None), h) = (view (V, h))(x := view (V, h) y, y \<mapsto> None)"
proof -
  have bk: "?V z = Some (Some p) \<Longrightarrow> V (if z = x then y else z) = Some (Some p) \<and> z \<noteq> y" for z p
    using y ne by (cases "z = x"; cases "z = y") auto
  show "owns (?V, h)"
  proof (rule ownsI)
    fix p assume "cells h p \<noteq> None"
    then obtain z where z: "p < next_cell h" "V z = Some (Some p)" using owns_owner [OF own] by blast
    have "?V (if z = y then x else z) = Some (Some p)" using z(2) x y ne by (cases "z = y"; cases "z = x") auto
    then show "p < next_cell h \<and> (\<exists>z. ?V z = Some (Some p))" using z(1) by blast
  next
    fix z p assume "?V z = Some (Some p)"
    then show "cells h p \<noteq> None" using owns_live [OF own] bk by blast
  next
    fix z w p assume "?V z = Some (Some p)" "?V w = Some (Some p)"
    then have "(if z = x then y else z) = (if w = x then y else w)" "z \<noteq> y" "w \<noteq> y" using owns_inj [OF own] bk by blast+
    then show "z = w" by (simp split: if_splits)
  qed
  show "view (?V, h) = (view (V, h))(x := view (V, h) y, y \<mapsto> None)"
  proof
    fix z
    show "view (?V, h) z = ((view (V, h))(x := view (V, h) y, y \<mapsto> None)) z"
      using y ne by (cases "z = x"; cases "z = y") (simp_all add: view_def cell_value_def)
  qed
qed

text \<open>A variable that holds nothing, or whose content has just been destroyed.\<close>

lemma own_emptied:
  assumes own: "owns (V, h)" and x: "V x = Some a"
  shows "\<exists>h'. any_destroy a h = Inr h' \<and> next_cell h' = next_cell h \<and> owns (V(x \<mapsto> None), h') \<and> owns (V(x := None), h') \<and>
    view (V(x \<mapsto> None), h') = (view (V, h))(x \<mapsto> None) \<and> view (V(x := None), h') = (view (V, h))(x := None)"
proof (cases a)
  case None
  then have e: "V(x \<mapsto> None) = V" using x by auto
  have "owns (V(x := None), h)"
  proof (rule ownsI)
    fix p assume "cells h p \<noteq> None"
    then obtain z where z: "p < next_cell h" "V z = Some (Some p)" using owns_owner [OF own] by blast
    then have "z \<noteq> x" using x None by auto
    then show "p < next_cell h \<and> (\<exists>z. (V(x := None)) z = Some (Some p))" using z by (auto intro: exI [of _ z])
  next
    fix z p assume "(V(x := None)) z = Some (Some p)"
    then show "cells h p \<noteq> None" using owns_live [OF own, of z p] by (simp split: if_splits)
  next
    fix z w p assume "(V(x := None)) z = Some (Some p)" "(V(x := None)) w = Some (Some p)"
    then show "z = w" using owns_inj [OF own, of z p w] by (simp split: if_splits)
  qed
  moreover have "view (V, h) = (view (V, h))(x \<mapsto> None)" "view (V(x := None), h) = (view (V, h))(x := None)"
    using x None by (simp_all add: fun_eq_iff view_def cell_value_def)
  ultimately show ?thesis using None own e by (simp add: any_destroy_def)
next
  case (Some p)
  then have xp: "V x = Some (Some p)" using x by simp
  show ?thesis
    using own_free [OF own xp, of None] own_free [OF own xp, of "Some None"] owns_live [OF own xp] Some
    by (simp add: any_destroy_def delete_holder_def)
qed

text \<open>A holder is made before another one is deleted.\<close>

lemma destroy_after_new:
  assumes "any_destroy a h = Inr h'" and "a \<noteq> Some (next_cell h)"
  shows "any_destroy a (h\<lparr>cells := (cells h)(next_cell h \<mapsto> ho), next_cell := Suc (next_cell h)\<rparr>) =
    Inr (h'\<lparr>cells := (cells h')(next_cell h' \<mapsto> ho), next_cell := Suc (next_cell h')\<rparr>)"
  using assms by (cases a) (auto simp: any_destroy_def delete_holder_def fun_upd_twist split: if_splits)

text \<open>The assignment of a new holder to a variable.\<close>

lemma own_assign:
  assumes own: "owns (V, h)" and x: "V x = Some a"
  shows "\<exists>h'. any_destroy a (h\<lparr>cells := (cells h)(next_cell h \<mapsto> ho), next_cell := Suc (next_cell h)\<rparr>) = Inr h' \<and>
    owns (V(x \<mapsto> Some (next_cell h)), h') \<and> view (V(x \<mapsto> Some (next_cell h)), h') = (view (V, h))(x \<mapsto> Some (held_type ho, held ho))"
proof -
  from own_emptied [OF own x] obtain h' where h': "any_destroy a h = Inr h'" "next_cell h' = next_cell h" "owns (V(x \<mapsto> None), h')"
    "view (V(x \<mapsto> None), h') = (view (V, h))(x \<mapsto> None)" by blast
  have "a \<noteq> Some (next_cell h)" using owns_live [OF own, of x] owns_next [OF own] x by auto
  from destroy_after_new [OF h'(1) this, of ho] own_fresh [OF h'(3), of x ho] h'(2,4) show ?thesis by simp
qed

lemma view_eq: "view (V, h) x = map_option (cell_value h) (V x)"
  by (simp add: view_def)

text \<open>Copying a variable that holds something.\<close>

lemma any_copy_holder:
  assumes "owns (V, h)" and "V y = Some (Some q)"
  obtains ho where "cells h q = Some ho" and "view (V, h) y = Some (Some (held_type ho, held ho))"
    and "any_copy (Some q) h = Inr (Some (next_cell h),
      h\<lparr>cells := (cells h)(next_cell h \<mapsto> \<lparr>held_type = held_type ho, held = held ho\<rparr>), next_cell := Suc (next_cell h)\<rparr>)"
proof -
  obtain ho where "cells h q = Some ho" using owns_live [OF assms] by auto
  then show thesis using that assms(2)
    by (simp add: view_eq cell_value_def any_copy_def holder_clone_def new_holder_def bnd_simps)
qed

text \<open>An operation does what it means and keeps the ownership.\<close>

definition exec_ok :: "'v any_op \<Rightarrow> (nat \<rightharpoonup> any) \<Rightarrow> 'v any_heap \<Rightarrow> bool" where
  "exec_ok op V h \<longleftrightarrow> (\<exists>s. any_exec op (V, h) = Inr s \<and> owns s \<and> view s = any_spec op (view (V, h)))"

lemma own_declare:
  assumes own: "owns (V, h)" and x: "V x = None"
  shows "owns (V(x \<mapsto> None), h)" and "view (V(x \<mapsto> None), h) = (view (V, h))(x \<mapsto> None)"
proof -
  have eq: "(V(x \<mapsto> None)) z = Some (Some p) \<longleftrightarrow> V z = Some (Some p)" for z p using x by (cases "z = x") simp_all
  show "owns (V(x \<mapsto> None), h)"
    by (rule ownsI) (use owns_live [OF own] owns_inj [OF own] owns_owner [OF own] eq in blast)+
  show "view (V(x \<mapsto> None), h) = (view (V, h))(x \<mapsto> None)" by (auto simp: fun_eq_iff view_eq cell_value_def)
qed

lemma exec_Copy:
  assumes own: "owns (V, h)" and x: "V x = None" and y: "V y = Some b"
  shows "exec_ok (Copy x y) V h"
proof (cases b)
  case None
  have "view (V, h) y = Some None" using y None by (simp add: view_eq cell_value_def)
  then show ?thesis using own_declare [OF own x] y None by (simp add: exec_ok_def any_copy_def the_var_def)
next
  case (Some q)
  then have vy: "V y = Some (Some q)" using y by simp
  obtain ho :: "'a holder" where "view (V, h) y = Some (Some (held_type ho, held ho))" "any_copy (Some q) h = Inr (Some (next_cell h),
    h\<lparr>cells := (cells h)(next_cell h \<mapsto> \<lparr>held_type = held_type ho, held = held ho\<rparr>), next_cell := Suc (next_cell h)\<rparr>)"
    using any_copy_holder [OF own vy] by blast
  then show ?thesis using x y Some own_fresh [OF own, of x "\<lparr>held_type = held_type ho, held = held ho\<rparr>"]
    by (simp add: exec_ok_def the_var_def bnd_simps)
qed

lemma exec_AssignCopy:
  assumes own: "owns (V, h)" and x: "V x = Some a" and y: "V y = Some b"
  shows "exec_ok (AssignCopy x y) V h"
proof (cases b)
  case None
  have "view (V, h) y = Some None" using y None by (simp add: view_eq cell_value_def)
  moreover from own_emptied [OF own x] obtain h' where "any_destroy a h = Inr h'" "owns (V(x \<mapsto> None), h')"
    "view (V(x \<mapsto> None), h') = (view (V, h))(x \<mapsto> None)" by blast
  ultimately show ?thesis using x y None
    by (simp add: exec_ok_def assign_copy_def any_copy_def any_swap_def the_var_def bnd_simps)
next
  case (Some q)
  then have vy: "V y = Some (Some q)" using y by simp
  obtain ho :: "'a holder" where ho: "view (V, h) y = Some (Some (held_type ho, held ho))" "any_copy (Some q) h = Inr (Some (next_cell h),
    h\<lparr>cells := (cells h)(next_cell h \<mapsto> \<lparr>held_type = held_type ho, held = held ho\<rparr>), next_cell := Suc (next_cell h)\<rparr>)"
    using any_copy_holder [OF own vy] by blast
  from own_assign [OF own x, of "\<lparr>held_type = held_type ho, held = held ho\<rparr>"] obtain h' where
    "any_destroy a (h\<lparr>cells := (cells h)(next_cell h \<mapsto> \<lparr>held_type = held_type ho, held = held ho\<rparr>), next_cell := Suc (next_cell h)\<rparr>) = Inr h'"
    "owns (V(x \<mapsto> Some (next_cell h)), h')" "view (V(x \<mapsto> Some (next_cell h)), h') = (view (V, h))(x \<mapsto> Some (held_type ho, held ho))"
    by auto
  then show ?thesis using x y Some ho by (simp add: exec_ok_def assign_copy_def any_swap_def the_var_def bnd_simps)
qed

lemma exec_AssignMove:
  assumes own: "owns (V, h)" and x: "V x = Some a" and y: "V y = Some b"
  shows "exec_ok (AssignMove x y) V h"
proof -
  from own_emptied [OF own x] obtain h' where h': "any_destroy a h = Inr h'" "owns (V(x \<mapsto> None), h')"
    "view (V(x \<mapsto> None), h') = (view (V, h))(x \<mapsto> None)" by blast
  show ?thesis
  proof (cases "x = y")
    case True
    then show ?thesis using x h' by (simp add: exec_ok_def any_clear_def any_swap_def any_new_def the_var_def bnd_simps)
  next
    case False
    have "owns (V(x \<mapsto> b, y \<mapsto> None), h')" "view (V(x \<mapsto> b, y \<mapsto> None), h') = (view (V, h))(x := view (V, h) y, y \<mapsto> None)"
      using own_move [OF h'(2), of x y b] False y h'(3) by simp_all
    then show ?thesis using x y h'(1) False
      by (simp add: exec_ok_def assign_move_def any_swap_def any_new_def the_var_def bnd_simps)
  qed
qed

lemma exec_AssignValue:
  assumes own: "owns (V, h)" and x: "V x = Some a"
  shows "exec_ok (AssignValue x ty v) V h"
proof -
  from own_assign [OF own x, of "\<lparr>held_type = ty, held = v\<rparr>"] obtain h' where
    "any_destroy a (h\<lparr>cells := (cells h)(next_cell h \<mapsto> \<lparr>held_type = ty, held = v\<rparr>), next_cell := Suc (next_cell h)\<rparr>) = Inr h'"
    "owns (V(x \<mapsto> Some (next_cell h)), h')" "view (V(x \<mapsto> Some (next_cell h)), h') = (view (V, h))(x \<mapsto> Some (ty, v))"
    by auto
  then show ?thesis using x by (simp add: exec_ok_def assign_value_def any_of_def new_holder_def any_swap_def the_var_def bnd_simps)
qed

lemma exec_Clear_Destroy:
  assumes own: "owns (V, h)" and x: "V x = Some a"
  shows "exec_ok (Clear x) V h" and "exec_ok (Destroy x) V h"
proof -
  from own_emptied [OF own x] obtain h' where "any_destroy a h = Inr h'" "owns (V(x \<mapsto> None), h')" "owns (V(x := None), h')"
    "view (V(x \<mapsto> None), h') = (view (V, h))(x \<mapsto> None)" "view (V(x := None), h') = (view (V, h))(x := None)" by blast
  then show "exec_ok (Clear x) V h" "exec_ok (Destroy x) V h"
    using x by (simp_all add: exec_ok_def any_clear_def any_swap_def any_new_def the_var_def bnd_simps)
qed

lemma any_exec_ok:
  assumes own: "owns (V, h)" and legal: "any_legal op V"
  shows "exec_ok op V h"
proof (cases op)
  case (New x)
  then show ?thesis using legal own_declare [OF own, of x] by (simp add: exec_ok_def any_new_def)
next
  case (Value x ty v)
  then show ?thesis using legal own_fresh [OF own, of x "\<lparr>held_type = ty, held = v\<rparr>"]
    by (simp add: exec_ok_def any_of_def new_holder_def)
next
  case (Move x y)
  then obtain b where y: "V y = Some b" "V x = None" using legal by auto
  then have "x \<noteq> y" by auto
  then show ?thesis using Move y own_move [OF own, of x y b] by (simp add: exec_ok_def any_move_def the_var_def)
qed (use legal exec_Copy [OF own] exec_AssignCopy [OF own] exec_AssignMove [OF own] exec_AssignValue [OF own]
      exec_Clear_Destroy [OF own] in auto)

section \<open>Runs\<close>

fun any_run :: "'v any_op list \<Rightarrow> 'v any_state \<Rightarrow> 'v any_state result" where
  "any_run [] s = Inr s"
| "any_run (op # ops) s = bnd (any_exec op s) (any_run ops)"

fun spec_run :: "'v any_op list \<Rightarrow> 'v any_values \<Rightarrow> 'v any_values" where
  "spec_run [] m = m"
| "spec_run (op # ops) m = spec_run ops (any_spec op m)"

fun legal_run :: "'v any_op list \<Rightarrow> 'v any_values \<Rightarrow> bool" where
  "legal_run [] m \<longleftrightarrow> True"
| "legal_run (op # ops) m \<longleftrightarrow> any_legal op m \<and> legal_run ops (any_spec op m)"

lemma any_legal_view: "any_legal op (view (V, h)) \<longleftrightarrow> any_legal op V"
  by (cases op) (simp_all add: view_eq)

lemma any_run_ok:
  "owns s \<Longrightarrow> legal_run ops (view s) \<Longrightarrow> \<exists>t. any_run ops s = Inr t \<and> owns t \<and> view t = spec_run ops (view s)"
proof (induction ops arbitrary: s)
  case (Cons op ops)
  obtain V h where s: "s = (V, h)" by (cases s)
  then obtain s1 where "any_exec op s = Inr s1" "owns s1" "view s1 = any_spec op (view s)"
    using Cons.prems any_exec_ok [of V h op] any_legal_view [of op V h] by (auto simp: exec_ok_def)
  then show ?case using Cons.IH [of s1] Cons.prems(2) by simp
qed simp

lemma any_cast_view:
  assumes "owns (V, h)" and "view (V, h) x = Some (Some (ty, v))"
  shows "any_cast ty' (the_var V x) h = Inr (if ty' = ty then Inr v else Inl (bad_cast_reason ty ty'))"
proof -
  obtain p ho where "V x = Some (Some p)" "cells h p = Some ho" "held_type ho = ty" "held ho = v"
    using assms(2) by (auto simp: view_eq cell_value_def split: option.splits)
  then show ?thesis by (simp add: any_cast_def any_cast_ptr_def any_type_def the_var_def bnd_simps)
qed

text \<open>
  C15. Objects of type \<open>any\<close> are values. Whatever constructions, copies, moves, assignments and
  destructions a program makes, nothing is freed twice or used after it was freed, a holder exists
  exactly while one variable owns it, every variable holds what the operations say, and a cast
  returns that value for its own type and throws for every other type.
\<close>

theorem any_value_semantics:
  assumes "legal_run ops Map.empty"
  shows "\<exists>V h. any_run ops (Map.empty, \<lparr>cells = Map.empty, next_cell = 0\<rparr>) = Inr (V, h) \<and>
    view (V, h) = spec_run ops Map.empty \<and> (\<forall>p. cells h p \<noteq> None \<longleftrightarrow> (\<exists>!x. V x = Some (Some p))) \<and>
    (\<forall>x ty v ty'. spec_run ops Map.empty x = Some (Some (ty, v)) \<longrightarrow>
      any_cast ty' (the_var V x) h = Inr (if ty' = ty then Inr v else Inl (bad_cast_reason ty ty')))"
proof -
  let ?s = "(Map.empty, \<lparr>cells = Map.empty, next_cell = 0\<rparr>) :: 'a any_state"
  have "owns ?s" and e: "view ?s = Map.empty" by (simp_all add: owns_def fun_eq_iff view_def)
  then obtain V h where t: "any_run ops ?s = Inr (V, h)" "owns (V, h)" "view (V, h) = spec_run ops Map.empty"
    using any_run_ok [of ?s ops] assms by (auto simp: e)
  have "cells h p \<noteq> None \<longleftrightarrow> (\<exists>!x. V x = Some (Some p))" for p
    using owns_live [OF t(2)] owns_inj [OF t(2)] owns_owner [OF t(2)] by metis
  then show ?thesis using t any_cast_view [OF t(2)] by auto
qed

theorem any_value_semantics_witness:
  "\<exists>V h. any_run [Value 0 ''int'' 7, Copy 1 0, AssignMove 0 1, Destroy 1] (Map.empty, \<lparr>cells = Map.empty, next_cell = 0\<rparr>) = Inr (V, h) \<and>
     any_cast ''int'' (the_var V 0) h = Inr (Inr (7 :: nat)) \<and>
     any_cast ''long'' (the_var V 0) h = Inr (Inl ''bad any_cast : can't convert int to long'')"
  using any_value_semantics [of "[Value 0 ''int'' (7 :: nat), Copy 1 0, AssignMove 0 1, Destroy 1]"]
  by (auto simp: bad_cast_reason_def)

end
