(* ===== verification/Send_Helper.thy ===== *)
theory Send_Helper
  imports Socket
begin

text \<open>
  \<open>app/atp_send_helper.hpp\<close>: a client that connects, sends a message and reads an answer. The
  answers of \<open>poll\<close>, \<open>send\<close> and \<open>recv\<close> are arguments; \<open>sh_closed\<close> lists the descriptors closed and
  \<open>sh_out\<close> the bytes that the kernel took.
\<close>

datatype helper_error = ATP_HELPER_ERROR_BASE | ATP_HELPER_CREATE_SOCKET_ERROR | ATP_HELPER_CONNECT_SOCKET_ERROR
  | ATP_HELPER_INVALID_ARGS | ATP_HELPER_NONBLOCK_WRITE_ERROR | ATP_HELPER_NONBLOCK_READ_ERROR | ATP_HELPER_POLL_ERROR
  | ATP_HELPER_SELECT_ERROR | ATP_HELPER_SEND_ERROR | ATP_HELPER_RECV_ERROR

fun helper_code :: "helper_error \<Rightarrow> int" where
  "helper_code ATP_HELPER_ERROR_BASE = - 100"
| "helper_code ATP_HELPER_CREATE_SOCKET_ERROR = - 101"
| "helper_code ATP_HELPER_CONNECT_SOCKET_ERROR = - 102"
| "helper_code ATP_HELPER_INVALID_ARGS = - 103"
| "helper_code ATP_HELPER_NONBLOCK_WRITE_ERROR = - 104"
| "helper_code ATP_HELPER_NONBLOCK_READ_ERROR = - 105"
| "helper_code ATP_HELPER_POLL_ERROR = - 106"
| "helper_code ATP_HELPER_SELECT_ERROR = - 107"
| "helper_code ATP_HELPER_SEND_ERROR = - 108"
| "helper_code ATP_HELPER_RECV_ERROR = - 109"

lemma helper_code_negative: "helper_code e < 0"
  by (cases e) simp_all

record send_helper =
  sh_fd :: int
  sh_retry :: int
  sh_closed :: "int list"
  sh_out :: string

definition SendHelper :: send_helper where
  "SendHelper = \<lparr>sh_fd = - 1, sh_retry = 0, sh_closed = [], sh_out = []\<rparr>"

definition close_fd :: "send_helper \<Rightarrow> send_helper" where
  "close_fd s = s\<lparr>sh_closed := sh_closed s @ [sh_fd s], sh_fd := - 1\<rparr>"

definition SendHelper_destroy :: "send_helper \<Rightarrow> send_helper" where
  "SendHelper_destroy s = (if 0 \<le> sh_fd s then close_fd s else s)\<lparr>sh_retry := 0\<rparr>"

definition setFd :: "int \<Rightarrow> send_helper \<Rightarrow> int \<times> send_helper" where
  "setFd fd s = (fd, s\<lparr>sh_fd := fd\<rparr>)"

definition setRetryCount :: "int \<Rightarrow> send_helper \<Rightarrow> send_helper" where
  "setRetryCount n s = s\<lparr>sh_retry := n\<rparr>"

text \<open>The classes that derive from \<open>SocketImpl\<close> only forward.\<close>

definition Socket_create :: "create_env \<Rightarrow> bool \<Rightarrow> sock \<Rightarrow> int \<times> sock" where
  "Socket_create env tcp_stream s = sock_create env tcp_stream s"

definition Socket_connect :: "connect_env \<Rightarrow> sock \<Rightarrow> (int \<times> errno \<times> sock) option result" where
  "Socket_connect env s = sock_connect env s"

section \<open>Reading\<close>

text \<open>The flags of \<open>revents\<close>, grouped as the code tests them, and the answer of \<open>recv\<close>.\<close>

record read_env =
  re_polls :: "(int \<times> errno) list"
  re_error :: bool
  re_readable :: bool
  re_recv :: int
  re_data :: string

fun poll_read :: "(int \<times> errno) list \<Rightarrow> int option" where
  "poll_read [] = None"
| "poll_read ((ret, e) # ps) = (if ret < 0 \<and> (e = EINTR \<or> e = EINPROGRESS) then poll_read ps else Some ret)"

definition READ_BUFF_SIZE :: nat where
  "READ_BUFF_SIZE = 4096"

text \<open>\<open>std::string (buff)\<close> of the zeroed array after \<open>n\<close> bytes were received.\<close>

definition buff_string :: "string \<Rightarrow> string result" where
  "buff_string received =
     (let m = received @ replicate (READ_BUFF_SIZE - length received) (CHR 0x00) in
      if CHR 0x00 \<in> set m then Inr (takeWhile (\<lambda>ch. ch \<noteq> CHR 0x00) m) else Inl OutOfBounds)"

definition nonblockRead :: "read_env \<Rightarrow> string \<Rightarrow> send_helper \<Rightarrow> (int \<times> string \<times> send_helper) option result" where
  "nonblockRead env data s =
     (case poll_read (re_polls env) of
        None \<Rightarrow> Inr None
      | Some ret \<Rightarrow>
          if ret \<le> 0 then Inr (Some (helper_code ATP_HELPER_POLL_ERROR, data, close_fd s))
          else if re_error env then Inr (Some (helper_code ATP_HELPER_POLL_ERROR, data, close_fd s))
          else if re_readable env
          then if re_recv env \<le> 0 then Inr (Some (helper_code ATP_HELPER_RECV_ERROR, data, close_fd s))
               else bnd (buff_string (take (nat (re_recv env)) (re_data env))) (\<lambda>d. Inr (Some (re_recv env, d, s)))
          else Inr (Some (ret, data, s)))"

section \<open>Writing\<close>

text \<open>
  The loop after a partial write: the two branches of the first test leave nothing for the rest of
  the body, so only interrupted calls of \<open>poll\<close> repeat it.
\<close>

fun poll_write :: "(int \<times> errno) list \<Rightarrow> int option" where
  "poll_write [] = None"
| "poll_write ((ret, e) # ps) = (if ret < 0 \<and> e = EINTR then poll_write ps else Some (helper_code ATP_HELPER_POLL_ERROR))"

record write_env =
  we_send :: int
  we_polls :: "(int \<times> errno) list"

definition nonblockWrite :: "write_env \<Rightarrow> string \<Rightarrow> send_helper \<Rightarrow> (int \<times> send_helper) option" where
  "nonblockWrite env data s =
     (let nwrite = we_send env in
      if 0 \<le> nwrite
      then let s1 = s\<lparr>sh_out := sh_out s @ take (nat nwrite) data\<rparr>; remaining_data_size = length data - nat nwrite
           in if remaining_data_size = 0 then Some (0, s1)
              else map_option (\<lambda>r. (r, s1)) (poll_write (we_polls env))
      else Some (helper_code ATP_HELPER_SEND_ERROR, close_fd s))"

section \<open>Sending a message\<close>

text \<open>\<open>sock\<close> is the uninitialised local \<open>Socket\<close>.\<close>

definition sendMessage ::
  "create_env \<Rightarrow> connect_env \<Rightarrow> write_env \<Rightarrow> read_env \<Rightarrow> sock \<Rightarrow> string \<Rightarrow> send_helper \<Rightarrow> (int \<times> sock \<times> send_helper) option result" where
  "sendMessage cenv nenv wenv renv sock message s =
     (if length message \<le> 0 then Inr (Some (helper_code ATP_HELPER_INVALID_ARGS, sock, s))
      else case Socket_create cenv False sock of (fd, sock1) \<Rightarrow>
        let s1 = s\<lparr>sh_fd := fd\<rparr> in
        if sh_fd s1 \<noteq> 0 then Inr (Some (helper_code ATP_HELPER_CREATE_SOCKET_ERROR, sock1, s1))
        else bnd (Socket_connect nenv sock1) (\<lambda>con.
          case con of None \<Rightarrow> Inr None
          | Some (ret, _, sock2) \<Rightarrow>
              if ret \<noteq> 0 then Inr (Some (helper_code ATP_HELPER_CONNECT_SOCKET_ERROR, sock2, s1))
              else case nonblockWrite wenv message s1 of None \<Rightarrow> Inr None
                | Some (ret, s2) \<Rightarrow>
                    if ret \<noteq> 0 then Inr (Some (helper_code ATP_HELPER_NONBLOCK_WRITE_ERROR, sock2, s2))
                    else bnd (nonblockRead renv [] s2) (\<lambda>rd.
                      case rd of None \<Rightarrow> Inr None
                      | Some (ret, _, s3) \<Rightarrow>
                          Inr (Some (if ret \<le> 0 then helper_code ATP_HELPER_NONBLOCK_READ_ERROR else 0, sock2, s3)))))"

lemma poll_write_error: "poll_write ps = Some r \<Longrightarrow> r = helper_code ATP_HELPER_POLL_ERROR"
  by (induction ps rule: poll_write.induct) (auto split: if_splits)

section \<open>Properties\<close>

text \<open>
  C38. The client never sends anything: for every message and whatever the kernel answers,
  \<open>sendMessage\<close> returns an error before it connects, after closing a descriptor number that was never
  assigned. And its writer, used on its own, succeeds only when the kernel takes all bytes at once:
  a partial write ends in an error with the descriptor left open.
\<close>

theorem send_helper_never_sends:
  assumes "message \<noteq> []"
  shows "\<exists>sock' s'. sendMessage cenv nenv wenv renv sock message s =
      Inr (Some (helper_code ATP_HELPER_CREATE_SOCKET_ERROR, sock', s')) \<and>
      sh_out s' = sh_out s \<and> s_closed sock' = s_closed sock @ [s_fd sock] \<and>
      (\<forall>r s2. nonblockWrite wenv message s = Some (r, s2) \<longrightarrow>
        (r = 0 \<longleftrightarrow> int (length message) \<le> we_send wenv) \<and>
        (0 \<le> we_send wenv \<and> r \<noteq> 0 \<longrightarrow> sh_fd s2 = sh_fd s \<and> r = helper_code ATP_HELPER_POLL_ERROR))"
proof -
  have "(r = 0 \<longleftrightarrow> int (length message) \<le> we_send wenv) \<and>
      (0 \<le> we_send wenv \<and> r \<noteq> 0 \<longrightarrow> sh_fd s2 = sh_fd s \<and> r = helper_code ATP_HELPER_POLL_ERROR)"
    if "nonblockWrite wenv message s = Some (r, s2)" for r s2
  proof (cases "0 \<le> we_send wenv")
    case True
    show ?thesis
    proof (cases "length message - nat (we_send wenv) = 0")
      case all: True
      then show ?thesis using that True by (simp add: nonblockWrite_def Let_def nat_le_iff)
    next
      case part: False
      then have "poll_write (we_polls wenv) = Some r" "sh_fd s2 = sh_fd s" using that True
        by (auto simp: nonblockWrite_def Let_def)
      then show ?thesis using poll_write_error [of "we_polls wenv" r] part True by simp
    qed
  next
    case False
    then show ?thesis using that by (auto simp: nonblockWrite_def Let_def)
  qed
  moreover have "\<exists>sock' s'. sendMessage cenv nenv wenv renv sock message s =
      Inr (Some (helper_code ATP_HELPER_CREATE_SOCKET_ERROR, sock', s')) \<and>
      sh_out s' = sh_out s \<and> s_closed sock' = s_closed sock @ [s_fd sock]"
    using assms by (simp add: sendMessage_def Socket_create_def create_datagram Let_def)
  ultimately show ?thesis by blast
qed

theorem send_helper_never_sends_witness:
  "\<exists>sock' s'. sendMessage \<lparr>socket_ret = 5, nonblock_ret = 0, cloexec_ret = 0\<rparr>
      \<lparr>attempts = [(0, EINTR)], select_ret = 1, select_errno = EINTR, select_error = False, so_error = EINTR\<rparr>
      \<lparr>we_send = 2, we_polls = []\<rparr> \<lparr>re_polls = [(1, EINTR)], re_error = False, re_readable = True, re_recv = 2, re_data = ''ok''\<rparr>
      \<lparr>s_fd = 33, s_port = 0, s_ip = [], s_closed = []\<rparr> ''hi'' SendHelper =
        Inr (Some (helper_code ATP_HELPER_CREATE_SOCKET_ERROR, sock', s')) \<and> s_closed sock' = [33] \<and> sh_out s' = []"
proof -
  have "''hi'' \<noteq> []" by simp
  from send_helper_never_sends [OF this, of "\<lparr>socket_ret = 5, nonblock_ret = 0, cloexec_ret = 0\<rparr>"
      "\<lparr>attempts = [(0, EINTR)], select_ret = 1, select_errno = EINTR, select_error = False, so_error = EINTR\<rparr>" "\<lparr>we_send = 2, we_polls = []\<rparr>"
      "\<lparr>re_polls = [(1, EINTR)], re_error = False, re_readable = True, re_recv = 2, re_data = ''ok''\<rparr>"
      "\<lparr>s_fd = 33, s_port = 0, s_ip = [], s_closed = []\<rparr>" SendHelper]
  obtain sock' s' where "sendMessage \<lparr>socket_ret = 5, nonblock_ret = 0, cloexec_ret = 0\<rparr>
      \<lparr>attempts = [(0, EINTR)], select_ret = 1, select_errno = EINTR, select_error = False, so_error = EINTR\<rparr>
      \<lparr>we_send = 2, we_polls = []\<rparr> \<lparr>re_polls = [(1, EINTR)], re_error = False, re_readable = True, re_recv = 2, re_data = ''ok''\<rparr>
      \<lparr>s_fd = 33, s_port = 0, s_ip = [], s_closed = []\<rparr> ''hi'' SendHelper =
        Inr (Some (helper_code ATP_HELPER_CREATE_SOCKET_ERROR, sock', s'))"
    "sh_out s' = sh_out SendHelper" "s_closed sock' = s_closed \<lparr>s_fd = 33, s_port = 0, s_ip = [], s_closed = []\<rparr> @
      [s_fd \<lparr>s_fd = 33, s_port = 0, s_ip = [], s_closed = []\<rparr>]"
    by blast
  then show ?thesis by (simp add: SendHelper_def)
qed

end
