(* ===== verification/Rpc_Message.thy ===== *)
theory Rpc_Message
  imports Byte_Order
begin

text \<open>
  \<open>rpc.pb.h\<close> and \<open>rpc.pb.cc\<close>: the class \<open>RpcMessage\<close>, the envelope of a remote call, with its accessors,
  its parser and its serializer. What libprotobuf provides (the coded streams, the wire format of
  single fields, the set of unknown fields) is the record \<open>wire\<close>, an argument of the operations; what
  its documentation says of it is \<open>wire_laws\<close>.

  A string field is a pointer to the shared empty string, \<^const>\<open>None\<close>, or to a string that the message
  owns. The calls of \<open>VerifyUTF8String\<close> only write to the log.
\<close>

unbundle bit_operations_syntax

section \<open>The message\<close>

record 'u rpc_message =
  m_unknown :: 'u
  m_id :: "64 word"
  m_service :: "byte list option"
  m_method :: "byte list option"
  m_type :: int
  m_error :: int
  m_request :: "byte list option"
  m_response :: "byte list option"
  m_cached_size :: int
  m_has :: "32 word"

definition UNKNOW :: int where "UNKNOW = 0"

definition REQUEST :: int where "REQUEST = 1"

definition RESPONSE :: int where "RESPONSE = 2"

definition RpcMessageType_IsValid :: "int \<Rightarrow> bool" where
  "RpcMessageType_IsValid v \<longleftrightarrow> v = 0 \<or> v = 1 \<or> v = 2"

definition RpcError_IsValid :: "int \<Rightarrow> bool" where
  "RpcError_IsValid v \<longleftrightarrow> v = - 3 \<or> v = - 2 \<or> v = - 1 \<or> v = 0"

section \<open>libprotobuf\<close>

text \<open>
  The functions that the generated code calls. An input stream is the rest of its bytes. \<open>ReadFixed64\<close>,
  \<open>ReadString\<close> and \<open>ReadBytes\<close> also say what they leave in their target when they fail.
  \<open>TotalBytesLimit\<close> is how many bytes a stream may have before reading fails.
\<close>

record 'u wire =
  TotalBytesLimit :: int
  ReadTag :: "byte list \<Rightarrow> nat \<times> byte list"
  ExpectTag :: "nat \<Rightarrow> byte list \<Rightarrow> byte list option"
  ExpectAtEnd :: "byte list \<Rightarrow> bool"
  GetTagFieldNumber :: "nat \<Rightarrow> nat"
  GetTagWireType :: "nat \<Rightarrow> nat"
  ReadEnum :: "byte list \<Rightarrow> (int \<times> byte list) option"
  ReadFixed64 :: "64 word \<Rightarrow> byte list \<Rightarrow> bool \<times> 64 word \<times> byte list"
  ReadString :: "byte list \<Rightarrow> bool \<times> byte list \<times> byte list"
  ReadBytes :: "byte list \<Rightarrow> bool \<times> byte list \<times> byte list"
  SkipField :: "byte list \<Rightarrow> nat \<Rightarrow> 'u \<Rightarrow> bool \<times> 'u \<times> byte list"
  WriteEnum :: "nat \<Rightarrow> int \<Rightarrow> byte list"
  WriteFixed64 :: "nat \<Rightarrow> 64 word \<Rightarrow> byte list"
  WriteString :: "nat \<Rightarrow> byte list \<Rightarrow> byte list"
  WriteBytes :: "nat \<Rightarrow> byte list \<Rightarrow> byte list"
  EnumSize :: "int \<Rightarrow> int"
  StringSize :: "byte list \<Rightarrow> int"
  BytesSize :: "byte list \<Rightarrow> int"
  NoUnknown :: 'u
  UnknownEmpty :: "'u \<Rightarrow> bool"
  AddVarint :: "nat \<Rightarrow> int \<Rightarrow> 'u \<Rightarrow> 'u"
  UnknownMerge :: "'u \<Rightarrow> 'u \<Rightarrow> 'u"
  SerializeUnknownFields :: "'u \<Rightarrow> byte list"
  ComputeUnknownFieldsSize :: "'u \<Rightarrow> int"

definition WIRETYPE_VARINT :: nat where "WIRETYPE_VARINT = 0"

definition WIRETYPE_FIXED64 :: nat where "WIRETYPE_FIXED64 = 1"

definition WIRETYPE_LENGTH_DELIMITED :: nat where "WIRETYPE_LENGTH_DELIMITED = 2"

definition WIRETYPE_END_GROUP :: nat where "WIRETYPE_END_GROUP = 4"

section \<open>Accessors\<close>

definition has_bit :: "32 word \<Rightarrow> 'u rpc_message \<Rightarrow> bool" where
  "has_bit b m \<longleftrightarrow> m_has m AND b \<noteq> 0"

definition set_has :: "32 word \<Rightarrow> 'u rpc_message \<Rightarrow> 'u rpc_message" where
  "set_has b m = m\<lparr>m_has := m_has m OR b\<rparr>"

definition clear_has :: "32 word \<Rightarrow> 'u rpc_message \<Rightarrow> 'u rpc_message" where
  "clear_has b m = m\<lparr>m_has := m_has m AND NOT b\<rparr>"

subsection \<open>type, id and error\<close>

definition has_type :: "'u rpc_message \<Rightarrow> bool" where
  "has_type m = has_bit 0x01 m"

definition clear_type :: "'u rpc_message \<Rightarrow> 'u rpc_message" where
  "clear_type m = clear_has 0x01 (m\<lparr>m_type := 0\<rparr>)"

definition set_type :: "int \<Rightarrow> 'u rpc_message \<Rightarrow> 'u rpc_message result" where
  "set_type v m = assert_that (RpcMessageType_IsValid v) (Inr ((set_has 0x01 m)\<lparr>m_type := v\<rparr>))"

definition has_id :: "'u rpc_message \<Rightarrow> bool" where
  "has_id m = has_bit 0x02 m"

definition set_has_id :: "'u rpc_message \<Rightarrow> 'u rpc_message" where
  "set_has_id m = set_has 0x02 m"

definition clear_id :: "'u rpc_message \<Rightarrow> 'u rpc_message" where
  "clear_id m = clear_has 0x02 (m\<lparr>m_id := 0\<rparr>)"

definition set_id :: "64 word \<Rightarrow> 'u rpc_message \<Rightarrow> 'u rpc_message" where
  "set_id v m = (set_has_id m)\<lparr>m_id := v\<rparr>"

definition has_error :: "'u rpc_message \<Rightarrow> bool" where
  "has_error m = has_bit 0x40 m"

definition clear_error :: "'u rpc_message \<Rightarrow> 'u rpc_message" where
  "clear_error m = clear_has 0x40 (m\<lparr>m_error := 0\<rparr>)"

definition set_error :: "int \<Rightarrow> 'u rpc_message \<Rightarrow> 'u rpc_message result" where
  "set_error v m = assert_that (RpcError_IsValid v) (Inr ((set_has 0x40 m)\<lparr>m_error := v\<rparr>))"

subsection \<open>The string fields\<close>

text \<open>The accessors of the four string fields have the same text; \<open>sfield\<close> says for which field.\<close>

datatype sfield = Service | Method | Request | Response

fun string_bit :: "sfield \<Rightarrow> 32 word" where
  "string_bit Service = 0x04"
| "string_bit Method = 0x08"
| "string_bit Request = 0x10"
| "string_bit Response = 0x20"

fun string_ptr :: "sfield \<Rightarrow> 'u rpc_message \<Rightarrow> byte list option" where
  "string_ptr Service m = m_service m"
| "string_ptr Method m = m_method m"
| "string_ptr Request m = m_request m"
| "string_ptr Response m = m_response m"

fun string_store :: "sfield \<Rightarrow> byte list option \<Rightarrow> 'u rpc_message \<Rightarrow> 'u rpc_message" where
  "string_store Service p m = m\<lparr>m_service := p\<rparr>"
| "string_store Method p m = m\<lparr>m_method := p\<rparr>"
| "string_store Request p m = m\<lparr>m_request := p\<rparr>"
| "string_store Response p m = m\<lparr>m_response := p\<rparr>"

definition has_string :: "sfield \<Rightarrow> 'u rpc_message \<Rightarrow> bool" where
  "has_string f m = has_bit (string_bit f) m"

definition get_string :: "sfield \<Rightarrow> 'u rpc_message \<Rightarrow> byte list" where
  "get_string f m = (case string_ptr f m of None \<Rightarrow> [] | Some s \<Rightarrow> s)"

definition clear_pointee :: "sfield \<Rightarrow> 'u rpc_message \<Rightarrow> 'u rpc_message" where
  "clear_pointee f m = (case string_ptr f m of None \<Rightarrow> m | Some s \<Rightarrow> string_store f (Some []) m)"

definition clear_string :: "sfield \<Rightarrow> 'u rpc_message \<Rightarrow> 'u rpc_message" where
  "clear_string f m = clear_has (string_bit f) (clear_pointee f m)"

definition mutable_string :: "sfield \<Rightarrow> 'u rpc_message \<Rightarrow> 'u rpc_message" where
  "mutable_string f m =
     (let m1 = set_has (string_bit f) m in
      case string_ptr f m1 of None \<Rightarrow> string_store f (Some []) m1 | Some s \<Rightarrow> m1)"

definition set_string :: "sfield \<Rightarrow> byte list \<Rightarrow> 'u rpc_message \<Rightarrow> 'u rpc_message" where
  "set_string f v m =
     (let m1 = set_has (string_bit f) m;
          m2 = (case string_ptr f m1 of None \<Rightarrow> string_store f (Some []) m1 | Some s \<Rightarrow> m1)
      in string_store f (Some v) m2)"

definition set_string_cstr :: "sfield \<Rightarrow> byte list \<Rightarrow> 'u rpc_message \<Rightarrow> 'u rpc_message result" where
  "set_string_cstr f p m = bnd (strlen p) (\<lambda>n. Inr (set_string f (take n p) m))"

definition set_string_mem :: "sfield \<Rightarrow> byte list \<Rightarrow> nat \<Rightarrow> 'u rpc_message \<Rightarrow> 'u rpc_message result" where
  "set_string_mem f p n m = bnd (mem_read p 0 n) (\<lambda>v. Inr (set_string f v m))"

definition release_string :: "sfield \<Rightarrow> 'u rpc_message \<Rightarrow> byte list option \<times> 'u rpc_message" where
  "release_string f m =
     (let m1 = clear_has (string_bit f) m in
      case string_ptr f m1 of None \<Rightarrow> (None, m1) | Some s \<Rightarrow> (Some s, string_store f None m1))"

text \<open>The second result is the string deleted.\<close>

definition set_allocated_string ::
  "sfield \<Rightarrow> byte list option \<Rightarrow> 'u rpc_message \<Rightarrow> 'u rpc_message \<times> byte list option" where
  "set_allocated_string f p m =
     (case p of
        Some s \<Rightarrow> string_store f (Some s) (set_has (string_bit f) m)
      | None \<Rightarrow> string_store f None (clear_has (string_bit f) m),
      string_ptr f m)"

section \<open>The class\<close>

definition SharedCtor :: "'u rpc_message \<Rightarrow> 'u rpc_message" where
  "SharedCtor m = m\<lparr>m_cached_size := 0, m_type := 0, m_id := 0, m_service := None, m_method := None,
     m_request := None, m_response := None, m_error := 0, m_has := 0\<rparr>"

text \<open>The fields that are not initialised before \<open>SharedCtor\<close> have the values of \<open>raw\<close>.\<close>

definition RpcMessage :: "'u wire \<Rightarrow> 'u rpc_message \<Rightarrow> 'u rpc_message" where
  "RpcMessage w raw = SharedCtor (raw\<lparr>m_unknown := NoUnknown w\<rparr>)"

text \<open>The strings that \<open>SharedDtor\<close> deletes.\<close>

definition SharedDtor :: "'u rpc_message \<Rightarrow> byte list list" where
  "SharedDtor m = List.map_filter (\<lambda>f. string_ptr f m) [Service, Method, Request, Response]"

definition Clear :: "'u wire \<Rightarrow> 'u rpc_message \<Rightarrow> 'u rpc_message" where
  "Clear w m =
     (let m1 = (if has_bit 0xff m then
                  (let a = m\<lparr>m_type := 0, m_id := 0\<rparr>;
                       b = (if has_string Service a then clear_pointee Service a else a);
                       c = (if has_string Method b then clear_pointee Method b else b);
                       d = (if has_string Request c then clear_pointee Request c else c);
                       e = (if has_string Response d then clear_pointee Response d else d)
                   in e\<lparr>m_error := 0\<rparr>)
                else m)
      in m1\<lparr>m_has := 0, m_unknown := NoUnknown w\<rparr>)"

definition MergeFrom :: "'u wire \<Rightarrow> 'u rpc_message \<Rightarrow> 'u rpc_message \<Rightarrow> 'u rpc_message result" where
  "MergeFrom w from m =
     bnd (if has_bit 0xff from then
            bnd (if has_type from then set_type (m_type from) m else Inr m) (\<lambda>a.
              let b = (if has_id from then set_id (m_id from) a else a);
                  c = (if has_string Service from then set_string Service (get_string Service from) b else b);
                  d = (if has_string Method from then set_string Method (get_string Method from) c else c);
                  e = (if has_string Request from then set_string Request (get_string Request from) d else d);
                  f = (if has_string Response from then set_string Response (get_string Response from) e else e)
              in if has_error from then set_error (m_error from) f else Inr f)
          else Inr m)
       (\<lambda>m1. Inr (m1\<lparr>m_unknown := UnknownMerge w (m_unknown m1) (m_unknown from)\<rparr>))"

definition CopyFrom :: "'u wire \<Rightarrow> 'u rpc_message \<Rightarrow> 'u rpc_message \<Rightarrow> 'u rpc_message result" where
  "CopyFrom w from m = MergeFrom w from (Clear w m)"

definition IsInitialized :: "'u rpc_message \<Rightarrow> bool" where
  "IsInitialized m = True"

definition Swap :: "'u rpc_message \<Rightarrow> 'u rpc_message \<Rightarrow> 'u rpc_message \<times> 'u rpc_message" where
  "Swap m other =
     (m\<lparr>m_type := m_type other, m_id := m_id other, m_service := m_service other, m_method := m_method other,
        m_request := m_request other, m_response := m_response other, m_error := m_error other,
        m_has := m_has other, m_unknown := m_unknown other, m_cached_size := m_cached_size other\<rparr>,
      other\<lparr>m_type := m_type m, m_id := m_id m, m_service := m_service m, m_method := m_method m,
        m_request := m_request m, m_response := m_response m, m_error := m_error m,
        m_has := m_has m, m_unknown := m_unknown m, m_cached_size := m_cached_size m\<rparr>)"

section \<open>Serializing\<close>

definition SerializeWithCachedSizes :: "'u wire \<Rightarrow> 'u rpc_message \<Rightarrow> byte list" where
  "SerializeWithCachedSizes w m =
     (if has_type m then WriteEnum w 1 (m_type m) else []) @
     (if has_id m then WriteFixed64 w 2 (m_id m) else []) @
     (if has_string Service m then WriteString w 3 (get_string Service m) else []) @
     (if has_string Method m then WriteString w 4 (get_string Method m) else []) @
     (if has_string Request m then WriteBytes w 5 (get_string Request m) else []) @
     (if has_string Response m then WriteBytes w 6 (get_string Response m) else []) @
     (if has_error m then WriteEnum w 7 (m_error m) else []) @
     (if \<not> UnknownEmpty w (m_unknown m) then SerializeUnknownFields w (m_unknown m) else [])"

text \<open>The variant that stores at \<open>target\<close>, an offset into the array \<open>mem\<close>.\<close>

definition to_array :: "bool \<Rightarrow> byte list \<Rightarrow> byte list \<times> nat \<Rightarrow> (byte list \<times> nat) result" where
  "to_array present bs t =
     (if present then bnd (mem_write (fst t) (snd t) bs) (\<lambda>mem. Inr (mem, snd t + length bs)) else Inr t)"

definition SerializeWithCachedSizesToArray ::
  "'u wire \<Rightarrow> 'u rpc_message \<Rightarrow> byte list \<times> nat \<Rightarrow> (byte list \<times> nat) result" where
  "SerializeWithCachedSizesToArray w m t =
     bnd (to_array (has_type m) (WriteEnum w 1 (m_type m)) t) (\<lambda>t.
     bnd (to_array (has_id m) (WriteFixed64 w 2 (m_id m)) t) (\<lambda>t.
     bnd (to_array (has_string Service m) (WriteString w 3 (get_string Service m)) t) (\<lambda>t.
     bnd (to_array (has_string Method m) (WriteString w 4 (get_string Method m)) t) (\<lambda>t.
     bnd (to_array (has_string Request m) (WriteBytes w 5 (get_string Request m)) t) (\<lambda>t.
     bnd (to_array (has_string Response m) (WriteBytes w 6 (get_string Response m)) t) (\<lambda>t.
     bnd (to_array (has_error m) (WriteEnum w 7 (m_error m)) t) (\<lambda>t.
     to_array (\<not> UnknownEmpty w (m_unknown m)) (SerializeUnknownFields w (m_unknown m)) t)))))))"

text \<open>\<open>total_size\<close> is an \<open>int\<close>: \<open>add_size\<close> is \<open>total_size += 1 + n\<close> in 32 bits.\<close>

definition add_size :: "bool \<Rightarrow> int \<Rightarrow> int \<Rightarrow> int" where
  "add_size present n total_size = (if present then int_wrap (total_size + int_wrap (1 + n)) else total_size)"

definition ByteSize :: "'u wire \<Rightarrow> 'u rpc_message \<Rightarrow> int \<times> 'u rpc_message" where
  "ByteSize w m =
     (let total_size = 0;
          total_size = (if has_bit 0xff m then
              (let total_size = add_size (has_type m) (EnumSize w (m_type m)) total_size;
                   total_size = add_size (has_id m) 8 total_size;
                   total_size = add_size (has_string Service m) (StringSize w (get_string Service m)) total_size;
                   total_size = add_size (has_string Method m) (StringSize w (get_string Method m)) total_size;
                   total_size = add_size (has_string Request m) (BytesSize w (get_string Request m)) total_size;
                   total_size = add_size (has_string Response m) (BytesSize w (get_string Response m)) total_size
               in add_size (has_error m) (EnumSize w (m_error m)) total_size)
            else total_size);
          total_size = (if \<not> UnknownEmpty w (m_unknown m)
            then int_wrap (total_size + ComputeUnknownFieldsSize w (m_unknown m)) else total_size)
      in (total_size, m\<lparr>m_cached_size := total_size\<rparr>))"

section \<open>Parsing\<close>

text \<open>The wire type that the parser accepts for a field, and the tag it expects after it.\<close>

definition field_type :: "nat \<Rightarrow> nat" where
  "field_type k = (if k = 1 \<or> k = 7 then WIRETYPE_VARINT else if k = 2 then WIRETYPE_FIXED64 else WIRETYPE_LENGTH_DELIMITED)"

definition next_tag :: "nat \<Rightarrow> nat" where
  "next_tag k = (if k = 1 then 17 else if k = 2 then 26 else if k = 3 then 34 else if k = 4 then 42 else if k = 5 then 50 else 56)"

definition parse_string ::
  "bool \<times> byte list \<times> byte list \<Rightarrow> sfield \<Rightarrow> 'u rpc_message \<Rightarrow> bool \<times> 'u rpc_message \<times> byte list" where
  "parse_string r f m = (let (ok, s, rest) = r in (ok, string_store f (Some s) (mutable_string f m), rest))"

text \<open>The code at a label \<open>parse_...\<close> that reads the value of field \<open>k\<close>.\<close>

definition parse_field ::
  "'u wire \<Rightarrow> nat \<Rightarrow> byte list \<Rightarrow> 'u rpc_message \<Rightarrow> (bool \<times> 'u rpc_message \<times> byte list) result" where
  "parse_field w k inp m =
     (if k = 1 then
        (case ReadEnum w inp of
           None \<Rightarrow> Inr (False, m, inp)
         | Some (v, rest) \<Rightarrow>
             if RpcMessageType_IsValid v then bnd (set_type v m) (\<lambda>m1. Inr (True, m1, rest))
             else Inr (True, m\<lparr>m_unknown := AddVarint w 1 v (m_unknown m)\<rparr>, rest))
      else if k = 2 then
        (let (ok, v, rest) = ReadFixed64 w (m_id m) inp; m1 = m\<lparr>m_id := v\<rparr>
         in Inr (ok, if ok then set_has_id m1 else m1, rest))
      else if k = 3 then Inr (parse_string (ReadString w inp) Service m)
      else if k = 4 then Inr (parse_string (ReadString w inp) Method m)
      else if k = 5 then Inr (parse_string (ReadBytes w inp) Request m)
      else if k = 6 then Inr (parse_string (ReadBytes w inp) Response m)
      else
        (case ReadEnum w inp of
           None \<Rightarrow> Inr (False, m, inp)
         | Some (v, rest) \<Rightarrow>
             if RpcError_IsValid v then bnd (set_error v m) (\<lambda>m1. Inr (True, m1, rest))
             else Inr (True, m\<lparr>m_unknown := AddVarint w 7 v (m_unknown m)\<rparr>, rest)))"

text \<open>
  The loop, entered at its top (\<open>at = None\<close>) or at the label of a field. Not returning is the outer
  \<^const>\<open>None\<close>.
\<close>

partial_function (option) parse_loop ::
  "'u wire \<Rightarrow> nat option \<Rightarrow> byte list \<Rightarrow> 'u rpc_message \<Rightarrow> (bool \<times> 'u rpc_message) result option" where
  "parse_loop w at inp m =
     (case at of
        None \<Rightarrow>
          (let (tag, inp1) = ReadTag w inp; k = GetTagFieldNumber w tag; ty = GetTagWireType w tag in
           if tag = 0 then Some (Inr (True, m))
           else if 1 \<le> k \<and> k \<le> 7 \<and> ty = field_type k then parse_loop w (Some k) inp1 m
           else if ty = WIRETYPE_END_GROUP then Some (Inr (True, m))
           else (let (ok, u, inp2) = SkipField w inp1 tag (m_unknown m); m1 = m\<lparr>m_unknown := u\<rparr> in
                 if ok then parse_loop w None inp2 m1 else Some (Inr (False, m1))))
      | Some k \<Rightarrow>
          (case parse_field w k inp m of
             Inl e \<Rightarrow> Some (Inl e)
           | Inr (ok, m1, inp1) \<Rightarrow>
               if \<not> ok then Some (Inr (False, m1))
               else if k = 7 then (if ExpectAtEnd w inp1 then Some (Inr (True, m1)) else parse_loop w None inp1 m1)
               else (case ExpectTag w (next_tag k) inp1 of
                       Some inp2 \<Rightarrow> parse_loop w (Some (Suc k)) inp2 m1
                     | None \<Rightarrow> parse_loop w None inp1 m1)))"

definition MergePartialFromCodedStream ::
  "'u wire \<Rightarrow> byte list \<Rightarrow> 'u rpc_message \<Rightarrow> (bool \<times> 'u rpc_message) result option" where
  "MergePartialFromCodedStream w inp m = parse_loop w None inp m"

section \<open>What the documentation of libprotobuf says\<close>

text \<open>
  A tag is the field number times eight plus the wire type; a value written after its tag is read
  back as long as the stream is within the limit, which is at least 64 MB; 0 is the tag at the end of the input. \<open>ExpectTag\<close> may fail at any time but succeeds only if
  \<open>ReadTag\<close> would return that tag, and then has read it; \<open>ExpectAtEnd\<close> is true only at the end.
\<close>

definition tag_laws :: "'u wire \<Rightarrow> bool" where
  "tag_laws w \<longleftrightarrow> ReadTag w [] = (0, []) \<and>
     (\<forall>n t. t < 8 \<longrightarrow> GetTagFieldNumber w (8 * n + t) = n \<and> GetTagWireType w (8 * n + t) = t) \<and>
     (\<forall>t inp r. ExpectTag w t inp = Some r \<longrightarrow> ReadTag w inp = (t, r)) \<and>
     (\<forall>inp. ExpectAtEnd w inp \<longrightarrow> inp = [])"

definition value_laws :: "'u wire \<Rightarrow> bool" where
  "value_laws w \<longleftrightarrow>
     (\<forall>n v rest. 0 < n \<and> n < 16 \<and> - (2 ^ 31) \<le> v \<and> v < 2 ^ 31 \<and> int (length (WriteEnum w n v @ rest)) \<le> TotalBytesLimit w \<longrightarrow>
        (\<exists>r. ReadTag w (WriteEnum w n v @ rest) = (8 * n + WIRETYPE_VARINT, r) \<and> ReadEnum w r = Some (v, rest))) \<and>
     (\<forall>n v rest old. 0 < n \<and> n < 16 \<and> int (length (WriteFixed64 w n v @ rest)) \<le> TotalBytesLimit w \<longrightarrow>
        (\<exists>r. ReadTag w (WriteFixed64 w n v @ rest) = (8 * n + WIRETYPE_FIXED64, r) \<and> ReadFixed64 w old r = (True, v, rest))) \<and>
     (\<forall>n s rest. 0 < n \<and> n < 16 \<and> int (length (WriteString w n s @ rest)) \<le> TotalBytesLimit w \<longrightarrow>
        (\<exists>r. ReadTag w (WriteString w n s @ rest) = (8 * n + WIRETYPE_LENGTH_DELIMITED, r) \<and> ReadString w r = (True, s, rest))) \<and>
     (\<forall>n s rest. 0 < n \<and> n < 16 \<and> int (length (WriteBytes w n s @ rest)) \<le> TotalBytesLimit w \<longrightarrow>
        (\<exists>r. ReadTag w (WriteBytes w n s @ rest) = (8 * n + WIRETYPE_LENGTH_DELIMITED, r) \<and> ReadBytes w r = (True, s, rest)))"

text \<open>
  The size functions return an \<open>int\<close>, which is the number of bytes written if that fits. A tag below 16 takes
  one byte, an enumeration value at most ten and the length of a string at most five.
\<close>

definition sized :: "byte list \<Rightarrow> int \<Rightarrow> bool" where
  "sized bs n \<longleftrightarrow> (length bs < 2 ^ 31 \<longrightarrow> n = int (length bs))"

definition size_laws :: "'u wire \<Rightarrow> bool" where
  "size_laws w \<longleftrightarrow> 64 * 2 ^ 20 \<le> TotalBytesLimit w \<and>
     (\<forall>n. 0 < n \<and> n < 16 \<longrightarrow>
       (\<forall>v. WriteEnum w n v \<noteq> [] \<and> length (WriteEnum w n v) \<le> 11 \<and> sized (WriteEnum w n v) (1 + EnumSize w v)) \<and>
       (\<forall>v. length (WriteFixed64 w n v) = 1 + 8) \<and>
       (\<forall>s. length s \<le> length (WriteString w n s) \<and> (length s < 2 ^ 31 \<longrightarrow> length (WriteString w n s) \<le> length s + 6) \<and>
         sized (WriteString w n s) (1 + StringSize w s)) \<and>
       (\<forall>s. length s \<le> length (WriteBytes w n s) \<and> (length s < 2 ^ 31 \<longrightarrow> length (WriteBytes w n s) \<le> length s + 6) \<and>
         sized (WriteBytes w n s) (1 + BytesSize w s))) \<and>
     (\<forall>u. sized (SerializeUnknownFields w u) (ComputeUnknownFieldsSize w u))"

definition unknown_laws :: "'u wire \<Rightarrow> bool" where
  "unknown_laws w \<longleftrightarrow> UnknownEmpty w (NoUnknown w) \<and> (\<forall>u v. UnknownEmpty w v \<longrightarrow> UnknownMerge w u v = u)"

text \<open>Reading moves forward in the input.\<close>

definition reading_laws :: "'u wire \<Rightarrow> bool" where
  "reading_laws w \<longleftrightarrow>
     (\<forall>inp t r. ReadTag w inp = (t, r) \<and> t \<noteq> 0 \<longrightarrow> length r < length inp) \<and>
     (\<forall>inp v r. ReadEnum w inp = Some (v, r) \<longrightarrow> length r \<le> length inp) \<and>
     (\<forall>old inp ok v r. ReadFixed64 w old inp = (ok, v, r) \<longrightarrow> length r \<le> length inp) \<and>
     (\<forall>inp ok v r. ReadString w inp = (ok, v, r) \<longrightarrow> length r \<le> length inp) \<and>
     (\<forall>inp ok v r. ReadBytes w inp = (ok, v, r) \<longrightarrow> length r \<le> length inp) \<and>
     (\<forall>inp t u ok v r. SkipField w inp t u = (ok, v, r) \<longrightarrow> length r \<le> length inp)"

definition wire_laws :: "'u wire \<Rightarrow> bool" where
  "wire_laws w \<longleftrightarrow> tag_laws w \<and> value_laws w \<and> size_laws w \<and> unknown_laws w \<and> reading_laws w"

lemmas wire_types = WIRETYPE_VARINT_def WIRETYPE_FIXED64_def WIRETYPE_LENGTH_DELIMITED_def WIRETYPE_END_GROUP_def

section \<open>Presence bits\<close>

lemma and_or_nonzero: "(x OR c) AND b \<noteq> 0 \<longleftrightarrow> x AND b \<noteq> 0 \<or> c AND b \<noteq> (0 :: 32 word)"
  by (simp add: bit.conj_disj_distrib2 or_eq_0_iff)

lemma has_set_has [simp]: "has_bit b (set_has c m) \<longleftrightarrow> has_bit b m \<or> c AND b \<noteq> 0"
  by (simp add: has_bit_def set_has_def and_or_nonzero)

lemma has_bit_update [simp]:
  "has_bit b (m\<lparr>m_unknown := u\<rparr>) = has_bit b m" "has_bit b (m\<lparr>m_id := i\<rparr>) = has_bit b m"
  "has_bit b (m\<lparr>m_type := t\<rparr>) = has_bit b m" "has_bit b (m\<lparr>m_error := t\<rparr>) = has_bit b m"
  "has_bit b (m\<lparr>m_cached_size := n\<rparr>) = has_bit b m" "has_bit b (string_store f p m) = has_bit b m"
  by (cases f; simp add: has_bit_def)+

lemma no_bits: "\<not> has_bit 0xff m \<Longrightarrow> b AND 0xff = b \<Longrightarrow> \<not> has_bit b m"
proof -
  assume a: "\<not> has_bit 0xff m" and b: "b AND 0xff = b"
  have "m_has m AND b = m_has m AND (b AND 0xff)" by (simp only: b)
  also have "\<dots> = (m_has m AND 0xff) AND b" by (simp only: and.commute and.left_commute)
  also have "\<dots> = 0" using a unfolding has_bit_def by simp
  finally show "\<not> has_bit b m" unfolding has_bit_def by simp
qed

lemma no_fields:
  assumes "\<not> has_bit 0xff m"
  shows "\<not> has_type m" "\<not> has_id m" "\<not> has_string f m" "\<not> has_error m"
proof -
  show "\<not> has_type m" "\<not> has_id m" "\<not> has_error m"
    using no_bits [OF assms, of "0x01"] no_bits [OF assms, of "0x02"] no_bits [OF assms, of "0x40"]
    by (simp_all add: has_type_def has_id_def has_error_def)
  show "\<not> has_string f m"
    using no_bits [OF assms, of "string_bit f"] by (cases f) (simp_all add: has_string_def)
qed

section \<open>Reading what was written\<close>

text \<open>The jump to the label of the next field does what the loop would do.\<close>

lemma next_tag_eq: "1 \<le> k \<Longrightarrow> k < 7 \<Longrightarrow> next_tag k = 8 * Suc k + field_type (Suc k)"
  by (auto simp: next_tag_def field_type_def wire_types)

lemma field_type_less: "field_type k < 8"
  by (simp add: field_type_def wire_types)

lemma loop_at_end: "tag_laws w \<Longrightarrow> parse_loop w None [] m = Some (Inr (True, m))"
  by (subst parse_loop.simps) (simp add: tag_laws_def)

lemma loop_enters_field:
  assumes "tag_laws w" and "1 \<le> k" "k \<le> 7" and "ReadTag w inp = (8 * k + field_type k, r)"
  shows "parse_loop w None inp m = parse_loop w (Some k) r m"
proof -
  have "GetTagFieldNumber w (8 * k + field_type k) = k" "GetTagWireType w (8 * k + field_type k) = field_type k"
    using assms(1) field_type_less by (auto simp: tag_laws_def)
  then show ?thesis using assms(2-4) by (subst parse_loop.simps) simp
qed

lemma field_then_loop:
  assumes "tag_laws w" and "1 \<le> k" "k \<le> 7" and "parse_field w k inp m = Inr (True, m1, rest)"
  shows "parse_loop w (Some k) inp m = parse_loop w None rest m1"
proof (cases "k = 7")
  case True
  have "rest = []" if "ExpectAtEnd w rest" using that assms(1) by (simp add: tag_laws_def)
  then show ?thesis using True assms(4) loop_at_end [OF assms(1)] by (subst parse_loop.simps) auto
next
  case False
  show ?thesis
  proof (cases "ExpectTag w (next_tag k) rest")
    case None
    then show ?thesis using False assms(4) by (subst parse_loop.simps) simp
  next
    case (Some r)
    then have "ReadTag w rest = (next_tag k, r)" using assms(1) by (simp add: tag_laws_def)
    then have "ReadTag w rest = (8 * Suc k + field_type (Suc k), r)" using next_tag_eq [of k] False assms(2,3) by simp
    then have "parse_loop w None rest m1 = parse_loop w (Some (Suc k)) r m1"
      using loop_enters_field [OF assms(1), of "Suc k"] False assms(3) by simp
    then show ?thesis using Some False assms(4) by (subst parse_loop.simps) simp
  qed
qed

lemma field_parsed:
  assumes "tag_laws w" and "1 \<le> k" "k \<le> 7" and "ReadTag w inp = (8 * k + field_type k, r)"
    and "parse_field w k r m = Inr (True, m1, rest)"
  shows "parse_loop w None inp m = parse_loop w None rest m1"
  using loop_enters_field [OF assms(1-4)] field_then_loop [OF assms(1-3,5)] by simp

lemma value_lawsD:
  assumes "value_laws w" and "0 < n" and "n < 16"
  shows "- (2 ^ 31) \<le> v \<Longrightarrow> v < 2 ^ 31 \<Longrightarrow> int (length (WriteEnum w n v @ rest)) \<le> TotalBytesLimit w \<Longrightarrow>
      \<exists>r. ReadTag w (WriteEnum w n v @ rest) = (8 * n + WIRETYPE_VARINT, r) \<and> ReadEnum w r = Some (v, rest)"
    and "int (length (WriteFixed64 w n x @ rest)) \<le> TotalBytesLimit w \<Longrightarrow>
      \<exists>r. ReadTag w (WriteFixed64 w n x @ rest) = (8 * n + WIRETYPE_FIXED64, r) \<and> ReadFixed64 w old r = (True, x, rest)"
    and "int (length (WriteString w n s @ rest)) \<le> TotalBytesLimit w \<Longrightarrow>
      \<exists>r. ReadTag w (WriteString w n s @ rest) = (8 * n + WIRETYPE_LENGTH_DELIMITED, r) \<and> ReadString w r = (True, s, rest)"
    and "int (length (WriteBytes w n s @ rest)) \<le> TotalBytesLimit w \<Longrightarrow>
      \<exists>r. ReadTag w (WriteBytes w n s @ rest) = (8 * n + WIRETYPE_LENGTH_DELIMITED, r) \<and> ReadBytes w r = (True, s, rest)"
proof -
  note laws = assms(1) [unfolded value_laws_def]
  show "\<exists>r. ReadTag w (WriteEnum w n v @ rest) = (8 * n + WIRETYPE_VARINT, r) \<and> ReadEnum w r = Some (v, rest)"
    if "- (2 ^ 31) \<le> v" "v < 2 ^ 31" "int (length (WriteEnum w n v @ rest)) \<le> TotalBytesLimit w"
    by (rule laws [THEN conjunct1, rule_format]) (use assms(2,3) that in blast)
  show "\<exists>r. ReadTag w (WriteFixed64 w n x @ rest) = (8 * n + WIRETYPE_FIXED64, r) \<and> ReadFixed64 w old r = (True, x, rest)"
    if "int (length (WriteFixed64 w n x @ rest)) \<le> TotalBytesLimit w"
    by (rule laws [THEN conjunct2, THEN conjunct1, rule_format]) (use assms(2,3) that in blast)
  show "\<exists>r. ReadTag w (WriteString w n s @ rest) = (8 * n + WIRETYPE_LENGTH_DELIMITED, r) \<and> ReadString w r = (True, s, rest)"
    if "int (length (WriteString w n s @ rest)) \<le> TotalBytesLimit w"
    by (rule laws [THEN conjunct2, THEN conjunct2, THEN conjunct1, rule_format]) (use assms(2,3) that in blast)
  show "\<exists>r. ReadTag w (WriteBytes w n s @ rest) = (8 * n + WIRETYPE_LENGTH_DELIMITED, r) \<and> ReadBytes w r = (True, s, rest)"
    if "int (length (WriteBytes w n s @ rest)) \<le> TotalBytesLimit w"
    by (rule laws [THEN conjunct2, THEN conjunct2, THEN conjunct2, rule_format]) (use assms(2,3) that in blast)
qed

lemma parse_enum:
  assumes "tag_laws w" and "value_laws w" and "k = 1 \<and> RpcMessageType_IsValid v \<or> k = 7 \<and> RpcError_IsValid v"
    and "(if k = 1 then set_type v m else set_error v m) = Inr m1" and "int (length (WriteEnum w k v @ rest)) \<le> TotalBytesLimit w"
  shows "parse_loop w None (WriteEnum w k v @ rest) m = parse_loop w None rest m1"
proof -
  have v: "- (2 ^ 31) \<le> v \<and> v < 2 ^ 31" using assms(3) by (auto simp: RpcMessageType_IsValid_def RpcError_IsValid_def)
  then obtain r where r: "ReadTag w (WriteEnum w k v @ rest) = (8 * k + WIRETYPE_VARINT, r)" "ReadEnum w r = Some (v, rest)"
    using value_lawsD(1) [OF assms(2), of k v rest] assms(3,5) by auto
  then have "ReadTag w (WriteEnum w k v @ rest) = (8 * k + field_type k, r)" using assms(3) by (auto simp: field_type_def)
  moreover have "parse_field w k r m = Inr (True, m1, rest)" using assms(3,4) r(2) by (auto simp: parse_field_def)
  ultimately show ?thesis using assms(3) by (intro field_parsed [OF assms(1)]) auto
qed

lemma parse_fixed64:
  assumes "tag_laws w" and "value_laws w" and "int (length (WriteFixed64 w 2 v @ rest)) \<le> TotalBytesLimit w"
  shows "parse_loop w None (WriteFixed64 w 2 v @ rest) m = parse_loop w None rest (set_id v m)"
proof -
  obtain r where r: "ReadTag w (WriteFixed64 w 2 v @ rest) = (8 * 2 + WIRETYPE_FIXED64, r)" "ReadFixed64 w (m_id m) r = (True, v, rest)"
    using value_lawsD(2) [OF assms(2), of 2 v rest "m_id m"] assms(3) by auto
  moreover have "parse_field w 2 r m = Inr (True, set_id v m, rest)" using r(2)
    by (simp add: parse_field_def set_id_def set_has_id_def set_has_def)
  ultimately show ?thesis by (intro field_parsed [OF assms(1), of 2]) (simp_all add: field_type_def)
qed

lemma store_mutable: "string_store f (Some v) (mutable_string f m) = set_string f v m"
  by (simp add: mutable_string_def set_string_def Let_def)

lemma parse_strings:
  assumes "tag_laws w" and "value_laws w"
  shows "int (length (WriteString w 3 s @ rest)) \<le> TotalBytesLimit w \<Longrightarrow>
      parse_loop w None (WriteString w 3 s @ rest) m = parse_loop w None rest (set_string Service s m)"
    and "int (length (WriteString w 4 s @ rest)) \<le> TotalBytesLimit w \<Longrightarrow>
      parse_loop w None (WriteString w 4 s @ rest) m = parse_loop w None rest (set_string Method s m)"
    and "int (length (WriteBytes w 5 s @ rest)) \<le> TotalBytesLimit w \<Longrightarrow>
      parse_loop w None (WriteBytes w 5 s @ rest) m = parse_loop w None rest (set_string Request s m)"
    and "int (length (WriteBytes w 6 s @ rest)) \<le> TotalBytesLimit w \<Longrightarrow>
      parse_loop w None (WriteBytes w 6 s @ rest) m = parse_loop w None rest (set_string Response s m)"
proof -
  note field = field_parsed [OF assms(1)]
  show "int (length (WriteString w 3 s @ rest)) \<le> TotalBytesLimit w \<Longrightarrow>
      parse_loop w None (WriteString w 3 s @ rest) m = parse_loop w None rest (set_string Service s m)"
    using value_lawsD(3) [OF assms(2), of 3 s rest] by (auto intro!: field [of 3] simp: field_type_def parse_field_def parse_string_def store_mutable)
  show "int (length (WriteString w 4 s @ rest)) \<le> TotalBytesLimit w \<Longrightarrow>
      parse_loop w None (WriteString w 4 s @ rest) m = parse_loop w None rest (set_string Method s m)"
    using value_lawsD(3) [OF assms(2), of 4 s rest] by (auto intro!: field [of 4] simp: field_type_def parse_field_def parse_string_def store_mutable)
  show "int (length (WriteBytes w 5 s @ rest)) \<le> TotalBytesLimit w \<Longrightarrow>
      parse_loop w None (WriteBytes w 5 s @ rest) m = parse_loop w None rest (set_string Request s m)"
    using value_lawsD(4) [OF assms(2), of 5 s rest] by (auto intro!: field [of 5] simp: field_type_def parse_field_def parse_string_def store_mutable)
  show "int (length (WriteBytes w 6 s @ rest)) \<le> TotalBytesLimit w \<Longrightarrow>
      parse_loop w None (WriteBytes w 6 s @ rest) m = parse_loop w None rest (set_string Response s m)"
    using value_lawsD(4) [OF assms(2), of 6 s rest] by (auto intro!: field [of 6] simp: field_type_def parse_field_def parse_string_def store_mutable)
qed

text \<open>
  A message that the code can build: the enumerations have declared values and nothing unknown was
  received.
\<close>

definition msg_valid :: "'u wire \<Rightarrow> 'u rpc_message \<Rightarrow> bool" where
  "msg_valid w m \<longleftrightarrow> RpcMessageType_IsValid (m_type m) \<and> RpcError_IsValid (m_error m) \<and> UnknownEmpty w (m_unknown m)"

text \<open>A field that is present or not.\<close>

definition opt :: "bool \<Rightarrow> byte list \<Rightarrow> byte list" where
  "opt b bs = (if b then bs else [])"

lemma serialize_parts:
  "SerializeWithCachedSizes w m =
     opt (has_type m) (WriteEnum w 1 (m_type m)) @ opt (has_id m) (WriteFixed64 w 2 (m_id m)) @
     opt (has_string Service m) (WriteString w 3 (get_string Service m)) @ opt (has_string Method m) (WriteString w 4 (get_string Method m)) @
     opt (has_string Request m) (WriteBytes w 5 (get_string Request m)) @ opt (has_string Response m) (WriteBytes w 6 (get_string Response m)) @
     opt (has_error m) (WriteEnum w 7 (m_error m)) @ opt (\<not> UnknownEmpty w (m_unknown m)) (SerializeUnknownFields w (m_unknown m))"
  by (simp add: SerializeWithCachedSizes_def opt_def)

lemma opt_parsed:
  assumes "int (length (opt p bs @ r)) \<le> TotalBytesLimit w"
    and "int (length (bs @ r)) \<le> TotalBytesLimit w \<Longrightarrow> parse_loop w None (bs @ r) x = parse_loop w None r y"
  shows "parse_loop w None (opt p bs @ r) x = parse_loop w None r (if p then y else x)"
  using assms by (cases p) (simp_all add: opt_def)

text \<open>\<open>m0\<close> with the fields that are present in \<open>m\<close> replaced.\<close>

definition overwrite :: "'u rpc_message \<Rightarrow> 'u rpc_message \<Rightarrow> 'u rpc_message" where
  "overwrite m m0 =
     (let a = (if has_type m then (set_has 0x01 m0)\<lparr>m_type := m_type m\<rparr> else m0);
          b = (if has_id m then set_id (m_id m) a else a);
          c = (if has_string Service m then set_string Service (get_string Service m) b else b);
          d = (if has_string Method m then set_string Method (get_string Method m) c else c);
          e = (if has_string Request m then set_string Request (get_string Request m) d else d);
          f = (if has_string Response m then set_string Response (get_string Response m) e else e)
      in if has_error m then (set_has 0x40 f)\<lparr>m_error := m_error m\<rparr> else f)"

lemma merge_overwrite:
  assumes "wire_laws w" and "msg_valid w m"
  shows "MergeFrom w m m0 = Inr (overwrite m m0)"
proof -
  have valid: "RpcMessageType_IsValid (m_type m)" "RpcError_IsValid (m_error m)" "UnknownMerge w v (m_unknown m) = v" for v
    using assms by (simp_all add: msg_valid_def wire_laws_def unknown_laws_def)
  show ?thesis
  proof (cases "has_bit 0xff m")
    case True
    then show ?thesis using valid by (simp add: MergeFrom_def set_type_def set_error_def overwrite_def Let_def)
  next
    case False
    then show ?thesis using no_fields [OF False] valid(3) by (simp add: MergeFrom_def overwrite_def Let_def)
  qed
qed

lemma parse_serialized:
  assumes "wire_laws w" and "msg_valid w m" and "int (length (SerializeWithCachedSizes w m @ rest)) \<le> TotalBytesLimit w"
  shows "parse_loop w None (SerializeWithCachedSizes w m @ rest) m0 = parse_loop w None rest (overwrite m m0)"
proof -
  have laws: "tag_laws w" "value_laws w" using assms(1) by (simp_all add: wire_laws_def)
  have valid: "RpcMessageType_IsValid (m_type m)" "RpcError_IsValid (m_error m)" using assms(2) by (simp_all add: msg_valid_def)
  let ?T = "opt (has_type m) (WriteEnum w 1 (m_type m))"
    and ?I = "opt (has_id m) (WriteFixed64 w 2 (m_id m))"
    and ?S = "opt (has_string Service m) (WriteString w 3 (get_string Service m))"
    and ?M = "opt (has_string Method m) (WriteString w 4 (get_string Method m))"
    and ?Q = "opt (has_string Request m) (WriteBytes w 5 (get_string Request m))"
    and ?P = "opt (has_string Response m) (WriteBytes w 6 (get_string Response m))"
    and ?E = "opt (has_error m) (WriteEnum w 7 (m_error m))"
  define a where "a = (if has_type m then (set_has 0x01 m0)\<lparr>m_type := m_type m\<rparr> else m0)"
  define b where "b = (if has_id m then set_id (m_id m) a else a)"
  define c where "c = (if has_string Service m then set_string Service (get_string Service m) b else b)"
  define d where "d = (if has_string Method m then set_string Method (get_string Method m) c else c)"
  define e where "e = (if has_string Request m then set_string Request (get_string Request m) d else d)"
  define f where "f = (if has_string Response m then set_string Response (get_string Response m) e else e)"
  define g where "g = (if has_error m then (set_has 0x40 f)\<lparr>m_error := m_error m\<rparr> else f)"
  have bytes: "SerializeWithCachedSizes w m @ rest = ?T @ ?I @ ?S @ ?M @ ?Q @ ?P @ ?E @ rest"
    using assms(2) by (simp add: serialize_parts msg_valid_def opt_def)
  then have len: "int (length (?T @ ?I @ ?S @ ?M @ ?Q @ ?P @ ?E @ rest)) \<le> TotalBytesLimit w" using assms(3) by simp
  have "parse_loop w None (?T @ ?I @ ?S @ ?M @ ?Q @ ?P @ ?E @ rest) m0 = parse_loop w None (?I @ ?S @ ?M @ ?Q @ ?P @ ?E @ rest) a"
    unfolding a_def using len valid by (intro opt_parsed parse_enum [OF laws]) (auto simp: set_type_def set_error_def)
  also have "\<dots> = parse_loop w None (?S @ ?M @ ?Q @ ?P @ ?E @ rest) b"
    unfolding b_def using len by (intro opt_parsed parse_fixed64 [OF laws]) auto
  also have "\<dots> = parse_loop w None (?M @ ?Q @ ?P @ ?E @ rest) c"
    unfolding c_def using len by (intro opt_parsed parse_strings(1) [OF laws]) auto
  also have "\<dots> = parse_loop w None (?Q @ ?P @ ?E @ rest) d"
    unfolding d_def using len by (intro opt_parsed parse_strings(2) [OF laws]) auto
  also have "\<dots> = parse_loop w None (?P @ ?E @ rest) e"
    unfolding e_def using len by (intro opt_parsed parse_strings(3) [OF laws]) auto
  also have "\<dots> = parse_loop w None (?E @ rest) f"
    unfolding f_def using len by (intro opt_parsed parse_strings(4) [OF laws]) auto
  also have "\<dots> = parse_loop w None (rest) g"
    unfolding g_def using len valid by (intro opt_parsed parse_enum [OF laws]) (auto simp: set_type_def set_error_def)
  finally show ?thesis using bytes by (simp add: overwrite_def Let_def a_def b_def c_def d_def e_def f_def g_def)
qed

lemma within_limit: "wire_laws w \<Longrightarrow> n \<le> 64 * 2 ^ 20 \<Longrightarrow> int n \<le> TotalBytesLimit w"
  by (simp add: wire_laws_def size_laws_def)

text \<open>Several messages one after the other are merged.\<close>

fun merge_all :: "'u wire \<Rightarrow> 'u rpc_message list \<Rightarrow> 'u rpc_message \<Rightarrow> 'u rpc_message result" where
  "merge_all w [] m0 = Inr m0"
| "merge_all w (m # ms) m0 = bnd (MergeFrom w m m0) (merge_all w ms)"

lemma parse_all:
  assumes "wire_laws w"
  shows "\<forall>m\<in>set ms. msg_valid w m \<Longrightarrow> int (length (concat (map (SerializeWithCachedSizes w) ms))) \<le> TotalBytesLimit w \<Longrightarrow> \<exists>m'. merge_all w ms m0 = Inr m' \<and>
    parse_loop w None (concat (map (SerializeWithCachedSizes w) ms)) m0 = Some (Inr (True, m'))"
proof (induction ms arbitrary: m0)
  case Nil
  have "tag_laws w" using assms by (simp add: wire_laws_def)
  then show ?case using loop_at_end by simp
next
  case (Cons m ms)
  have "MergeFrom w m m0 = Inr (overwrite m m0)"
    "parse_loop w None (SerializeWithCachedSizes w m @ concat (map (SerializeWithCachedSizes w) ms)) m0 =
     parse_loop w None (concat (map (SerializeWithCachedSizes w) ms)) (overwrite m m0)"
    using Cons.prems by (simp_all add: merge_overwrite [OF assms] parse_serialized [OF assms])
  then show ?case using Cons.IH [of "overwrite m m0"] Cons.prems by simp
qed

section \<open>What a message says\<close>

datatype field_value = Number int | Fixed "64 word" | Text "byte list"

definition msg_fields :: "'u rpc_message \<Rightarrow> nat \<rightharpoonup> field_value" where
  "msg_fields m k =
     (if k = 1 \<and> has_type m then Some (Number (m_type m))
      else if k = 2 \<and> has_id m then Some (Fixed (m_id m))
      else if k = 3 \<and> has_string Service m then Some (Text (get_string Service m))
      else if k = 4 \<and> has_string Method m then Some (Text (get_string Method m))
      else if k = 5 \<and> has_string Request m then Some (Text (get_string Request m))
      else if k = 6 \<and> has_string Response m then Some (Text (get_string Response m))
      else if k = 7 \<and> has_error m then Some (Number (m_error m))
      else None)"

lemma set_string_eq: "set_string f v m = string_store f (Some v) (set_has (string_bit f) m)"
  by (cases f) (simp_all add: set_string_def set_has_def Let_def split: option.splits)

lemma set_has_fields [simp]:
  "m_unknown (set_has b m) = m_unknown m" "m_id (set_has b m) = m_id m" "m_type (set_has b m) = m_type m"
  "m_error (set_has b m) = m_error m" "string_ptr f (set_has b m) = string_ptr f m"
  by (simp_all add: set_has_def) (cases f; simp)

lemma string_store_fields [simp]:
  "m_unknown (string_store f p m) = m_unknown m" "m_id (string_store f p m) = m_id m" "m_type (string_store f p m) = m_type m"
  "m_error (string_store f p m) = m_error m"
  by (cases f; simp)+

lemma string_ptr_store [simp]: "string_ptr g (string_store f p m) = (if g = f then p else string_ptr g m)"
  by (cases f; cases g; simp)

lemma string_ptr_update [simp]:
  "string_ptr f (m\<lparr>m_unknown := u\<rparr>) = string_ptr f m" "string_ptr f (m\<lparr>m_id := i\<rparr>) = string_ptr f m"
  "string_ptr f (m\<lparr>m_type := t\<rparr>) = string_ptr f m" "string_ptr f (m\<lparr>m_error := t\<rparr>) = string_ptr f m"
  by (cases f; simp)+

declare string_ptr.simps [simp del] string_store.simps [simp del]

lemmas presence = has_type_def has_id_def has_string_def has_error_def get_string_def

lemma fields_set_number:
  "set_type v m = Inr m' \<Longrightarrow> msg_fields m' = (msg_fields m)(1 \<mapsto> Number v)"
  "set_error v m = Inr m' \<Longrightarrow> msg_fields m' = (msg_fields m)(7 \<mapsto> Number v)"
  by (auto simp: set_type_def set_error_def bnd_simps msg_fields_def presence fun_eq_iff)

lemma fields_set_id: "msg_fields (set_id v m) = (msg_fields m)(2 \<mapsto> Fixed v)"
  by (auto simp: set_id_def set_has_id_def msg_fields_def presence fun_eq_iff)

fun string_number :: "sfield \<Rightarrow> nat" where
  "string_number Service = 3"
| "string_number Method = 4"
| "string_number Request = 5"
| "string_number Response = 6"

lemma fields_set_string: "msg_fields (set_string f v m) = (msg_fields m)(string_number f \<mapsto> Text v)"
  by (cases f) (auto simp: set_string_eq msg_fields_def presence fun_eq_iff)

lemma fields_unknown [simp]: "msg_fields (m\<lparr>m_unknown := u\<rparr>) = msg_fields m"
  by (auto simp: msg_fields_def presence fun_eq_iff)

lemma fields_none: "\<not> has_bit 0xff m \<Longrightarrow> msg_fields m = Map.empty"
  by (auto simp: msg_fields_def no_fields fun_eq_iff)

lemma fields_merge:
  assumes "MergeFrom w from m = Inr m'"
  shows "msg_fields m' = msg_fields m ++ msg_fields from"
proof (cases "has_bit 0xff from")
  case True
  then obtain a where a: "(if has_type from then set_type (m_type from) m else Inr m) = Inr a"
    and m': "(let b = (if has_id from then set_id (m_id from) a else a);
                  c = (if has_string Service from then set_string Service (get_string Service from) b else b);
                  d = (if has_string Method from then set_string Method (get_string Method from) c else c);
                  e = (if has_string Request from then set_string Request (get_string Request from) d else d);
                  f = (if has_string Response from then set_string Response (get_string Response from) e else e);
                  g = (if has_error from then set_error (m_error from) f else Inr f)
              in bnd g (\<lambda>m1. Inr (m1\<lparr>m_unknown := UnknownMerge w (m_unknown m1) (m_unknown from)\<rparr>))) = Inr m'"
    using assms by (auto simp: MergeFrom_def bnd_simps Let_def)
  have a': "msg_fields a = (if has_type from then (msg_fields m)(1 \<mapsto> Number (m_type from)) else msg_fields m)"
    using a fields_set_number(1) [of "m_type from" m a] by (auto split: if_splits)
  define b where "b = (if has_id from then set_id (m_id from) a else a)"
  define c where "c = (if has_string Service from then set_string Service (get_string Service from) b else b)"
  define d where "d = (if has_string Method from then set_string Method (get_string Method from) c else c)"
  define e where "e = (if has_string Request from then set_string Request (get_string Request from) d else d)"
  define f where "f = (if has_string Response from then set_string Response (get_string Response from) e else e)"
  obtain g where g: "(if has_error from then set_error (m_error from) f else Inr f) = Inr g" "msg_fields m' = msg_fields g"
    using m' unfolding Let_def b_def [symmetric] c_def [symmetric] d_def [symmetric] e_def [symmetric] f_def [symmetric]
    by (auto simp: bnd_simps)
  have "msg_fields g = (if has_error from then (msg_fields f)(7 \<mapsto> Number (m_error from)) else msg_fields f)"
    using g(1) fields_set_number(2) [of "m_error from" f g] by (auto split: if_splits)
  then have "msg_fields g k = (msg_fields m ++ msg_fields from) k" for k
    using a' by (auto simp: f_def e_def d_def c_def b_def fields_set_id fields_set_string map_add_def msg_fields_def [of "from"])
  then show ?thesis using g(2) by auto
next
  case False
  then show ?thesis using assms fields_none [OF False] by (auto simp: MergeFrom_def bnd_simps)
qed

lemma fields_merge_all: "merge_all w ms m0 = Inr m' \<Longrightarrow> msg_fields m' = foldl (++) (msg_fields m0) (map msg_fields ms)"
  by (induction ms arbitrary: m0) (auto simp: bnd_simps dest: fields_merge)

lemma fields_Clear: "msg_fields (Clear w m) = Map.empty"
  by (rule fields_none) (simp add: Clear_def has_bit_def)

section \<open>Sizes\<close>

lemma add_size_exact:
  assumes "sized bs (1 + n)" and "k + length (opt p bs) < 2 ^ 31"
  shows "add_size p n (int k) = int (k + length (opt p bs))"
  using assms by (auto simp: add_size_def opt_def sized_def int_wrap_small)

lemma ByteSize_exact:
  assumes "size_laws w" and "length (SerializeWithCachedSizes w m) < 2 ^ 31"
  shows "fst (ByteSize w m) = int (length (SerializeWithCachedSizes w m))"
proof -
  let ?T = "opt (has_type m) (WriteEnum w 1 (m_type m))" and ?I = "opt (has_id m) (WriteFixed64 w 2 (m_id m))"
    and ?S = "opt (has_string Service m) (WriteString w 3 (get_string Service m))" and ?M = "opt (has_string Method m) (WriteString w 4 (get_string Method m))"
    and ?Q = "opt (has_string Request m) (WriteBytes w 5 (get_string Request m))" and ?P = "opt (has_string Response m) (WriteBytes w 6 (get_string Response m))"
    and ?E = "opt (has_error m) (WriteEnum w 7 (m_error m))"
  define k where "k = length (?T @ ?I @ ?S @ ?M @ ?Q @ ?P @ ?E)"
  have all: "length (SerializeWithCachedSizes w m) = k + length (opt (\<not> UnknownEmpty w (m_unknown m)) (SerializeUnknownFields w (m_unknown m)))"
    by (simp add: serialize_parts k_def)
  have sz: "sized (WriteEnum w 1 v) (1 + EnumSize w v)" "sized (WriteEnum w 7 v) (1 + EnumSize w v)" "sized (WriteFixed64 w 2 x) (1 + 8)"
    "sized (WriteString w 3 b) (1 + StringSize w b)" "sized (WriteString w 4 b) (1 + StringSize w b)" "sized (WriteBytes w 5 b) (1 + BytesSize w b)"
    "sized (WriteBytes w 6 b) (1 + BytesSize w b)" for v x b using assms(1) by (simp_all add: size_laws_def sized_def)
  have "fst (ByteSize w m) = (if \<not> UnknownEmpty w (m_unknown m) then int_wrap (int k + ComputeUnknownFieldsSize w (m_unknown m)) else int k)"
  proof (cases "has_bit 0xff m")
    case True
    have len: "length (?T @ ?I @ ?S @ ?M @ ?Q @ ?P @ ?E) < 2 ^ 31" using assms(2) all by (simp add: k_def)
    have "add_size (has_type m) (EnumSize w (m_type m)) 0 = int (length ?T)"
      using add_size_exact [OF sz(1), of 0 "has_type m"] len by simp
    moreover have "add_size (has_id m) 8 (int (length ?T)) = int (length (?T @ ?I))"
      using add_size_exact [OF sz(3)] len by simp
    moreover have "add_size (has_string Service m) (StringSize w (get_string Service m)) (int (length (?T @ ?I))) = int (length (?T @ ?I @ ?S))"
      using add_size_exact [OF sz(4), of "length (?T @ ?I)"] len by simp
    moreover have "add_size (has_string Method m) (StringSize w (get_string Method m)) (int (length (?T @ ?I @ ?S))) = int (length (?T @ ?I @ ?S @ ?M))"
      using add_size_exact [OF sz(5), of "length (?T @ ?I @ ?S)"] len by simp
    moreover have "add_size (has_string Request m) (BytesSize w (get_string Request m)) (int (length (?T @ ?I @ ?S @ ?M))) = int (length (?T @ ?I @ ?S @ ?M @ ?Q))"
      using add_size_exact [OF sz(6), of "length (?T @ ?I @ ?S @ ?M)"] len by simp
    moreover have "add_size (has_string Response m) (BytesSize w (get_string Response m)) (int (length (?T @ ?I @ ?S @ ?M @ ?Q))) = int (length (?T @ ?I @ ?S @ ?M @ ?Q @ ?P))"
      using add_size_exact [OF sz(7), of "length (?T @ ?I @ ?S @ ?M @ ?Q)"] len by simp
    moreover have "add_size (has_error m) (EnumSize w (m_error m)) (int (length (?T @ ?I @ ?S @ ?M @ ?Q @ ?P))) = int k"
      using add_size_exact [OF sz(2), of "length (?T @ ?I @ ?S @ ?M @ ?Q @ ?P)"] len by (simp add: k_def)
    ultimately show ?thesis using True by (simp only: ByteSize_def Let_def if_True fst_conv)
  next
    case False
    then show ?thesis using no_fields [OF False] by (simp add: ByteSize_def Let_def k_def opt_def)
  qed
  moreover have "sized (SerializeUnknownFields w u) (ComputeUnknownFieldsSize w u)" for u using assms(1) by (simp add: size_laws_def)
  ultimately show ?thesis using assms(2) all by (auto simp: opt_def sized_def int_wrap_small)
qed

text \<open>The array after \<open>out\<close> was stored from offset \<open>off\<close> on, with the pointer behind it.\<close>

definition written :: "byte list \<Rightarrow> nat \<Rightarrow> byte list \<Rightarrow> byte list \<times> nat" where
  "written mem off out = (take off mem @ out @ drop (off + length out) mem, off + length out)"

lemma to_array_written:
  assumes "off + length out + length (if p then bs else []) \<le> length mem"
  shows "to_array p bs (written mem off out) = Inr (written mem off (out @ (if p then bs else [])))"
proof (cases p)
  case True
  then show ?thesis using assms by (simp add: to_array_def written_def mem_write_def ac_simps)
next
  case False
  then show ?thesis by (simp add: to_array_def)
qed

lemma to_array_then:
  assumes "off + length (out @ (if p then bs else []) @ rest) \<le> length mem"
    and "k (written mem off (out @ (if p then bs else []))) = Inr (written mem off ((out @ (if p then bs else [])) @ rest))"
  shows "bnd (to_array p bs (written mem off out)) k = Inr (written mem off (out @ (if p then bs else []) @ rest))"
  using assms to_array_written [of off out p bs mem] by simp

lemma to_array_serialize:
  assumes "off + length (SerializeWithCachedSizes w m) \<le> length mem"
  shows "SerializeWithCachedSizesToArray w m (mem, off) = Inr (written mem off (SerializeWithCachedSizes w m))"
proof -
  have "(mem, off) = written mem off []" by (simp add: written_def)
  moreover have "off + length ([] @ SerializeWithCachedSizes w m) \<le> length mem" using assms by simp
  ultimately show ?thesis
    unfolding SerializeWithCachedSizesToArray_def SerializeWithCachedSizes_def
    by (simp only:) (subst append_Nil [symmetric],
      (rule to_array_then, (simp only: append_assoc append_Nil; fail))+, rule to_array_written, simp)
qed

section \<open>The parser returns\<close>

lemma parse_field_total:
  assumes "reading_laws w"
  shows "\<exists>ok m1 r. parse_field w k inp m = Inr (ok, m1, r) \<and> length r \<le> length inp"
proof -
  have "length r \<le> length inp" if "ReadEnum w inp = Some (v, r)" for v r using assms that by (simp add: reading_laws_def)
  moreover have "length r \<le> length inp" if "ReadFixed64 w (m_id m) inp = (ok, v, r)" for ok v r
    using assms that by (simp add: reading_laws_def)
  moreover have "length r \<le> length inp" if "ReadString w inp = (ok, v, r)" for ok v r using assms that by (simp add: reading_laws_def)
  moreover have "length r \<le> length inp" if "ReadBytes w inp = (ok, v, r)" for ok v r using assms that by (simp add: reading_laws_def)
  ultimately show ?thesis
    by (auto simp: parse_field_def set_type_def set_error_def parse_string_def Let_def bnd_simps split: option.splits prod.splits)
qed

lemma parse_total:
  assumes "tag_laws w" and "reading_laws w"
  shows "\<forall>k. at = Some k \<longrightarrow> 1 \<le> k \<and> k \<le> 7 \<Longrightarrow> \<exists>ok m'. parse_loop w at inp m = Some (Inr (ok, m'))"
proof (induction "2 * length inp + (if at = None then 0 else 1)" arbitrary: at inp m rule: less_induct)
  case less
  have tag: "length r < length inp'" if "ReadTag w inp' = (t, r)" "t \<noteq> 0" for inp' t r
    using assms(2) that by (simp add: reading_laws_def)
  show ?case
  proof (cases "at")
    case None
    obtain t r where t: "ReadTag w inp = (t, r)" by fastforce
    obtain ok u r2 where skip: "SkipField w r t (m_unknown m) = (ok, u, r2)" by (cases "SkipField w r t (m_unknown m)")
    then have "length r2 \<le> length r" using assms(2) by (simp add: reading_laws_def)
    then have IH: "\<exists>ok m'. parse_loop w (Some k) r m = Some (Inr (ok, m'))" "\<exists>ok m'. parse_loop w None r2 m1 = Some (Inr (ok, m'))"
      if "t \<noteq> 0" "1 \<le> k" "k \<le> 7" for k m1
      using that less.hyps [of r "Some k" m] less.hyps [of r2 None m1] tag [OF t] None by auto
    have "\<exists>ok m'. parse_loop w None r2 m1 = Some (Inr (ok, m'))" if "t \<noteq> 0" for m1 using IH(2) [OF that, of 1] by simp
    then show ?thesis using None t skip IH(1) by (subst parse_loop.simps) (auto simp: Let_def)
  next
    case (Some k)
    obtain ok m1 r where f: "parse_field w k inp m = Inr (ok, m1, r)" "length r \<le> length inp"
      using parse_field_total [OF assms(2)] by blast
    have IH: "\<exists>ok m'. parse_loop w None r m1 = Some (Inr (ok, m'))" using less.hyps [of r None m1] f(2) Some by simp
    have "\<exists>ok m'. parse_loop w (Some (Suc k)) r2 m1 = Some (Inr (ok, m'))" if "ExpectTag w (next_tag k) r = Some r2" "k \<noteq> 7" for r2
    proof -
      have "length r2 < length r" using tag assms(1) that(1) by (simp add: tag_laws_def next_tag_def split: if_splits)
      then show ?thesis using less.hyps [of r2 "Some (Suc k)" m1] f(2) Some less.prems that(2) by simp
    qed
    then show ?thesis using Some f(1) IH by (subst parse_loop.simps) (auto split: option.splits)
  qed
qed

section \<open>The protobuf wire format\<close>

text \<open>An instance of the record with the documented encoding: base-128 varints, little-endian words.\<close>

fun varint :: "nat \<Rightarrow> byte list" where
  "varint n = (if n < 128 then [of_nat n] else of_nat (128 + n mod 128) # varint (n div 128))"

fun read_varint :: "byte list \<Rightarrow> (nat \<times> byte list) option" where
  "read_varint [] = None"
| "read_varint (b # bs) =
     (if unat b < 128 then Some (unat b, bs)
      else case read_varint bs of None \<Rightarrow> None | Some (n, r) \<Rightarrow> Some (unat b - 128 + 128 * n, r))"

declare varint.simps [simp del]

lemma unat_small_byte: "n < 256 \<Longrightarrow> unat (of_nat n :: byte) = n"
  by (simp add: unat_of_nat)

lemma read_varint_varint: "read_varint (varint n @ rest) = Some (n, rest)"
proof (induction n rule: varint.induct)
  case (1 n)
  show ?case
  proof (cases "n < 128")
    case True
    then show ?thesis by (subst varint.simps) (simp add: unat_small_byte)
  next
    case False
    have "128 + n mod 128 < 256" by simp
    then have "unat (of_nat (128 + n mod 128) :: byte) = 128 + n mod 128" by (rule unat_small_byte)
    then show ?thesis using False 1 by (subst varint.simps) (simp del: of_nat_add)
  qed
qed

lemma read_varint_shorter: "read_varint bs = Some (n, r) \<Longrightarrow> length r < length bs"
  by (induction bs arbitrary: n r) (force split: if_splits option.splits)+

lemma varint_not_empty [simp]: "varint n \<noteq> []"
  by (subst varint.simps) simp

lemma length_varint: "n < 128 ^ Suc k \<Longrightarrow> length (varint n) \<le> Suc k"
proof (induction k arbitrary: n)
  case (Suc k)
  then have "n div 128 < 128 ^ Suc k" by (simp add: less_mult_imp_div_less)
  then show ?case using Suc.IH by (subst varint.simps) simp
qed (subst varint.simps, simp)

lemma length_varint_small: "n < 128 \<Longrightarrow> length (varint n) = 1"
  by (subst varint.simps) simp

definition signed32 :: "nat \<Rightarrow> int" where
  "signed32 n = (let x = int n mod 2 ^ 32 in if x < 2 ^ 31 then x else x - 2 ^ 32)"

lemma signed32_enum: "- (2 ^ 31) \<le> v \<Longrightarrow> v < 2 ^ 31 \<Longrightarrow> signed32 (nat (v mod 2 ^ 64)) = v"
proof -
  assume v: "- (2 ^ 31) \<le> v" "v < 2 ^ 31"
  have "int (nat (v mod 2 ^ 64)) mod 2 ^ 32 = v mod 2 ^ 32" by (simp add: mod_mod_cancel)
  also have "\<dots> = (if 0 \<le> v then v else v + 2 ^ 32)"
    using v mod_pos_pos_trivial [of "v + 2 ^ 32" "2 ^ 32"] by (auto simp: mod_pos_pos_trivial)
  finally show ?thesis using v by (auto simp: signed32_def Let_def)
qed

definition read_block :: "byte list \<Rightarrow> bool \<times> byte list \<times> byte list" where
  "read_block inp =
     (case read_varint inp of
        None \<Rightarrow> (False, [], [])
      | Some (n, r) \<Rightarrow> if n \<le> length r then (True, take n r, drop n r) else (False, r, []))"

definition read_word :: "64 word \<Rightarrow> byte list \<Rightarrow> bool \<times> 64 word \<times> byte list" where
  "read_word old inp = (if 8 \<le> length inp then (True, le_word (take 8 inp), drop 8 inp) else (False, old, inp))"

definition skip_value :: "byte list \<Rightarrow> nat \<Rightarrow> (byte list) option" where
  "skip_value inp ty =
     (if ty = WIRETYPE_VARINT then map_option snd (read_varint inp)
      else if ty = WIRETYPE_FIXED64 then (let (ok, _, r) = read_word 0 inp in if ok then Some r else None)
      else if ty = WIRETYPE_LENGTH_DELIMITED then (let (ok, _, r) = read_block inp in if ok then Some r else None)
      else None)"

definition proto_wire :: "byte list wire" where
  "proto_wire =
     \<lparr>TotalBytesLimit = 64 * 2 ^ 20,
      ReadTag = (\<lambda>inp. case read_varint inp of None \<Rightarrow> (0, []) | Some (t, r) \<Rightarrow> (t, r)),
      ExpectTag = (\<lambda>t inp. case read_varint inp of None \<Rightarrow> None | Some (t', r) \<Rightarrow> if t' = t then Some r else None),
      ExpectAtEnd = (\<lambda>inp. inp = []),
      GetTagFieldNumber = (\<lambda>t. t div 8),
      GetTagWireType = (\<lambda>t. t mod 8),
      ReadEnum = (\<lambda>inp. map_option (\<lambda>(n, r). (signed32 n, r)) (read_varint inp)),
      ReadFixed64 = read_word,
      ReadString = read_block,
      ReadBytes = read_block,
      SkipField = (\<lambda>inp t u. case skip_value inp (t mod 8) of
                       None \<Rightarrow> (False, u, [])
                     | Some r \<Rightarrow> (True, u @ varint t @ take (length inp - length r) inp, r)),
      WriteEnum = (\<lambda>n v. varint (8 * n + WIRETYPE_VARINT) @ varint (nat (v mod 2 ^ 64))),
      WriteFixed64 = (\<lambda>n x. varint (8 * n + WIRETYPE_FIXED64) @ le_bytes64 x),
      WriteString = (\<lambda>n s. varint (8 * n + WIRETYPE_LENGTH_DELIMITED) @ varint (length s) @ s),
      WriteBytes = (\<lambda>n s. varint (8 * n + WIRETYPE_LENGTH_DELIMITED) @ varint (length s) @ s),
      EnumSize = (\<lambda>v. int_wrap (int (length (varint (nat (v mod 2 ^ 64)))))),
      StringSize = (\<lambda>s. int_wrap (int (length (varint (length s)) + length s))),
      BytesSize = (\<lambda>s. int_wrap (int (length (varint (length s)) + length s))),
      NoUnknown = [],
      UnknownEmpty = (\<lambda>u. u = []),
      AddVarint = (\<lambda>n v u. u @ varint (8 * n + WIRETYPE_VARINT) @ varint (nat (v mod 2 ^ 64))),
      UnknownMerge = (\<lambda>u v. u @ v),
      SerializeUnknownFields = (\<lambda>u. u),
      ComputeUnknownFieldsSize = (\<lambda>u. int_wrap (int (length u)))\<rparr>"

lemma read_block_block: "read_block (varint (length s) @ s @ rest) = (True, s, rest)"
  by (simp add: read_block_def read_varint_varint)

lemma read_word_word: "read_word old (le_bytes64 x @ rest) = (True, x, rest)"
  by (simp add: read_word_def le_word_le_bytes64)

lemma proto_wire_laws: "wire_laws proto_wire"
proof -
  have "tag_laws proto_wire" by (auto simp: tag_laws_def proto_wire_def split: option.splits if_splits)
  moreover have "value_laws proto_wire"
    by (simp add: value_laws_def proto_wire_def read_varint_varint signed32_enum [simplified] read_block_block read_word_word)
  moreover have "size_laws proto_wire"
  proof -
    have "length (varint (nat (v mod 2 ^ 64))) \<le> Suc 9" for v :: int
    proof (rule length_varint)
      have "v mod 2 ^ 64 < 2 ^ 64" by simp
      then show "nat (v mod 2 ^ 64) < 128 ^ Suc 9" by (simp add: nat_less_iff)
    qed
    moreover have "length (varint n) \<le> Suc 4" if "n < 2 ^ 31" for n using that by (intro length_varint) simp
    ultimately show ?thesis
      by (auto simp: size_laws_def sized_def proto_wire_def wire_types length_varint_small int_wrap_small)
  qed
  moreover have "unknown_laws proto_wire" by (simp add: unknown_laws_def proto_wire_def)
  moreover have "reading_laws proto_wire"
    by (auto simp: reading_laws_def proto_wire_def read_word_def read_block_def skip_value_def Let_def
        dest!: read_varint_shorter split: option.splits if_splits)
  ultimately show ?thesis by (simp add: wire_laws_def)
qed

section \<open>Property\<close>

text \<open>
  C11. \<open>RpcMessage\<close> on the wire. What was serialized, one message or several one after the other, up to the
  number of bytes that libprotobuf reads from a stream, is parsed into a cleared message as one message in
  which later fields replace earlier ones, whatever \<open>ExpectTag\<close> and \<open>ExpectAtEnd\<close> answer. For a message whose
  serialized length fits an \<open>int\<close>, \<open>ByteSize\<close> is that length, without overflow on the way, and the array
  variant stores exactly these bytes in an array of that size. On any input the parser returns.
\<close>

theorem rpc_message_round_trip:
  assumes "wire_laws w" and "\<forall>m\<in>set ms. msg_valid w m" and "int (length (concat (map (SerializeWithCachedSizes w) ms))) \<le> TotalBytesLimit w"
  shows "\<exists>m'. MergePartialFromCodedStream w (concat (map (SerializeWithCachedSizes w) ms)) (Clear w m0) = Some (Inr (True, m')) \<and>
      msg_fields m' = foldl (++) Map.empty (map msg_fields ms) \<and>
    (length (SerializeWithCachedSizes w m0) < 2 ^ 31 \<longrightarrow> fst (ByteSize w m0) = int (length (SerializeWithCachedSizes w m0)) \<and>
      (int (length mem) = fst (ByteSize w m0) \<longrightarrow>
        SerializeWithCachedSizesToArray w m0 (mem, 0) = Inr (SerializeWithCachedSizes w m0, length mem))) \<and>
    (\<exists>ok m''. MergePartialFromCodedStream w inp m0 = Some (Inr (ok, m'')))"
proof -
  have laws: "tag_laws w" "size_laws w" "reading_laws w" using assms(1) by (simp_all add: wire_laws_def)
  obtain m' where m': "merge_all w ms (Clear w m0) = Inr m'"
    "parse_loop w None (concat (map (SerializeWithCachedSizes w) ms)) (Clear w m0) = Some (Inr (True, m'))"
    using parse_all [OF assms] by blast
  have "msg_fields m' = foldl (++) Map.empty (map msg_fields ms)"
    using fields_merge_all [OF m'(1)] by (simp add: fields_Clear)
  moreover have "SerializeWithCachedSizesToArray w m0 (mem, 0) = Inr (SerializeWithCachedSizes w m0, length mem)"
    if "length mem = length (SerializeWithCachedSizes w m0)"
    using that to_array_serialize [of 0 w m0 mem] by (simp add: written_def)
  moreover have "\<exists>ok m''. parse_loop w None inp m0 = Some (Inr (ok, m''))" using parse_total [OF laws(1,3)] by blast
  ultimately show ?thesis using m'(2) ByteSize_exact [OF laws(2), of m0] by (simp add: MergePartialFromCodedStream_def)
qed

text \<open>A request, as a client sends it, and a raw message object.\<close>

definition raw_message :: "byte list rpc_message" where
  "raw_message = \<lparr>m_unknown = [], m_id = 0, m_service = None, m_method = None, m_type = 0, m_error = 0,
     m_request = None, m_response = None, m_cached_size = 0, m_has = 0\<rparr>"

definition sample_request :: "byte list rpc_message" where
  "sample_request = raw_message\<lparr>m_type := REQUEST, m_id := 7, m_service := Some [101], m_method := Some [102],
     m_request := Some [1, 0, 2], m_has := 0x1f\<rparr>"

lemma sample_request_valid: "msg_valid proto_wire sample_request"
  by (simp add: msg_valid_def sample_request_def raw_message_def REQUEST_def RpcMessageType_IsValid_def RpcError_IsValid_def proto_wire_def)

lemma proto_wire_limit: "TotalBytesLimit proto_wire = 64 * 2 ^ 20"
  by (simp add: proto_wire_def)

lemma sample_request_length: "length (SerializeWithCachedSizes proto_wire sample_request) \<le> 64 * 2 ^ 20"
  by (simp add: SerializeWithCachedSizes_def presence has_bit_def sample_request_def raw_message_def string_ptr.simps
      proto_wire_def length_varint_small wire_types REQUEST_def get_string_def)

lemma sample_request_fields:
  "msg_fields sample_request 2 = Some (Fixed 7)" "msg_fields sample_request 5 = Some (Text [1, 0, 2])"
  "msg_fields sample_request 6 = None"
  by (simp_all add: msg_fields_def presence has_bit_def sample_request_def raw_message_def string_ptr.simps)

theorem rpc_message_round_trip_witness:
  "\<exists>m'. MergePartialFromCodedStream proto_wire (SerializeWithCachedSizes proto_wire sample_request) (Clear proto_wire raw_message) =
      Some (Inr (True, m')) \<and> msg_fields m' 2 = Some (Fixed 7) \<and> msg_fields m' 5 = Some (Text [1, 0, 2]) \<and> msg_fields m' 6 = None"
  using rpc_message_round_trip [OF proto_wire_laws, of "[sample_request]" raw_message "[]" "[]"] sample_request_valid sample_request_length
  by (auto simp: sample_request_fields proto_wire_limit)

end
