(* ===== verification/Rpc.thy ===== *)
theory Rpc
  imports Rpc_Message Server_Lifecycle
begin

text \<open>
  \<open>app/atp_rpc_channel.cpp\<close> and \<open>app/atp_rpc_server.cpp\<close>: the server side of remote calls. A message that
  arrives on a connection is parsed as an \<open>RpcMessage\<close>, the service and the method it names are looked
  up, the service is called, and its response goes back over the connection.

  libprotobuf's drivers around the generated parser and serializer are the record \<open>protobuf\<close>; a
  service is the record \<open>service\<close>: its descriptor, the prototypes of its methods and \<open>CallMethod\<close>,
  which runs the closure before it returns or keeps it for later. A pointer to a service is \<^const>\<open>None\<close>
  when it is null.
\<close>

section \<open>libprotobuf and services\<close>

record 'u protobuf =
  pb_wire :: "'u wire"
  ParseFromArray :: "byte list \<Rightarrow> 'u rpc_message \<Rightarrow> bool \<times> 'u rpc_message"
  SerializeToString :: "'u rpc_message \<Rightarrow> byte list"

datatype 'q completion = Done 'q | Later

record 'q service =
  full_name :: "byte list"
  FindMethodByName :: "byte list \<Rightarrow> nat option"
  ParseRequest :: "nat \<Rightarrow> byte list \<Rightarrow> 'q option"
  CallMethod :: "nat \<Rightarrow> 'q \<Rightarrow> 'q completion"
  SerializeAsString :: "'q \<Rightarrow> byte list"

text \<open>
  As documented: \<open>ParseFromArray\<close> clears the message and merges what the generated parser reads;
  \<open>SerializeToString\<close> stores what the generated serializer writes.
\<close>

definition protobuf_laws :: "'u protobuf \<Rightarrow> bool" where
  "protobuf_laws p \<longleftrightarrow> wire_laws (pb_wire p) \<and>
     (\<forall>bs m ok m'. MergePartialFromCodedStream (pb_wire p) bs (Clear (pb_wire p) m) = Some (Inr (ok, m')) \<longrightarrow>
        snd (ParseFromArray p bs m) = m') \<and>
     (\<forall>m. SerializeToString p m = SerializeWithCachedSizes (pb_wire p) m)"

section \<open>RpcChannel\<close>

datatype RpcServerError = RPC_SERVER_ERROR_BASE | RPC_SERVER_SUCCESS | RPC_SERVER_NO_SERVICE | RPC_SERVER_NO_METHOD

fun rpc_error_code :: "RpcServerError \<Rightarrow> int" where
  "rpc_error_code RPC_SERVER_ERROR_BASE = - 700"
| "rpc_error_code RPC_SERVER_SUCCESS = 0"
| "rpc_error_code RPC_SERVER_NO_SERVICE = - 701"
| "rpc_error_code RPC_SERVER_NO_METHOD = - 702"

text \<open>\<open>rc_outstandings\<close> holds pairs of a response and a closure, both owned.\<close>

record 'q rpc_channel =
  rc_services :: "byte list \<rightharpoonup> 'q service option"
  rc_id :: "64 word"
  rc_outstandings :: "(int \<times> 'q \<times> nat) list"

definition RpcChannel :: "'q rpc_channel \<Rightarrow> 'q rpc_channel" where
  "RpcChannel raw = raw\<lparr>rc_outstandings := []\<rparr>"

text \<open>What the destructor deletes.\<close>

definition RpcChannel_destroy :: "'q rpc_channel \<Rightarrow> ('q \<times> nat) list" where
  "RpcChannel_destroy ch = map snd (rc_outstandings ch)"

definition setRpcServices :: "(byte list \<rightharpoonup> 'q service option) \<Rightarrow> 'q rpc_channel \<Rightarrow> 'q rpc_channel" where
  "setRpcServices services ch = ch\<lparr>rc_services := services\<rparr>"

definition setRpcMessageId :: "64 word \<Rightarrow> 'q rpc_channel \<Rightarrow> 'q rpc_channel" where
  "setRpcMessageId i ch = ch\<lparr>rc_id := i\<rparr>"

text \<open>
  The answers of the system that \<open>Connection::send\<close> asks for: libevent, the allocator, and result and
  \<open>errno\<close> of \<open>::send\<close>.
\<close>

record send_env =
  se_event :: event_env
  se_alloc :: "nat \<Rightarrow> bool"
  se_result :: int
  se_errno :: errno

text \<open>
  The closure that the service runs. \<open>ch\<close> is the channel it was made by, \<^const>\<open>None\<close> when the channel is
  gone; the response frame is a local \<open>std::string\<close>.
\<close>

definition doneCallback ::
  "'u protobuf \<Rightarrow> 'u rpc_message \<Rightarrow> send_env \<Rightarrow> 'q rpc_channel option \<Rightarrow> byte list \<Rightarrow> conn \<Rightarrow> (bool \<times> conn) result" where
  "doneCallback p raw env ch body c =
     bnd (set_type RESPONSE (RpcMessage (pb_wire p) raw)) (\<lambda>m.
       case ch of
         None \<Rightarrow> Inl UseAfterFree
       | Some ch1 \<Rightarrow>
           let m1 = set_string Response body (set_id (rc_id ch1) m);
               buff = SerializeToString p m1
           in conn_send (se_event env) (se_alloc env) (se_result env) (se_errno env)
                (Some \<lparr>obj = buff @ [0], off = 0, len = length buff\<rparr>) c)"

text \<open>
  \<open>onRpcRequest\<close> with its local \<open>error\<close>, the channel and the connection afterwards, and whether the service
  has kept the closure.
\<close>

definition onRpcRequest ::
  "'u protobuf \<Rightarrow> 'u rpc_message \<Rightarrow> send_env \<Rightarrow> 'u rpc_message \<Rightarrow> 'q rpc_channel \<Rightarrow> conn \<Rightarrow>
   (RpcServerError \<times> 'q rpc_channel \<times> conn \<times> bool) result" where
  "onRpcRequest p raw env message ch c =
     (case rc_services ch (get_string Service message) of
        None \<Rightarrow> Inr (RPC_SERVER_NO_SERVICE, ch, c, False)
      | Some service \<Rightarrow>
          (case service of
             None \<Rightarrow> Inl AssertFail
           | Some sv \<Rightarrow>
               (case FindMethodByName sv (get_string Method message) of
                  None \<Rightarrow> Inr (RPC_SERVER_NO_METHOD, ch, c, False)
                | Some mt \<Rightarrow>
                    (case ParseRequest sv mt (get_string Request message) of
                       None \<Rightarrow> Inr (RPC_SERVER_SUCCESS, ch, c, False)
                     | Some request \<Rightarrow>
                         let ch1 = setRpcMessageId (m_id message) ch in
                         (case CallMethod sv mt request of
                            Later \<Rightarrow> Inr (RPC_SERVER_SUCCESS, ch1, c, True)
                          | Done response \<Rightarrow>
                              bnd (doneCallback p raw env (Some ch1) (SerializeAsString sv response) c) (\<lambda>(queued, c1).
                                Inr (RPC_SERVER_SUCCESS, ch1, c1, False)))))))"

definition onRpcResponse :: "'q rpc_channel \<Rightarrow> conn \<Rightarrow> 'q rpc_channel \<times> conn" where
  "onRpcResponse ch c = (ch, c)"

definition onRpcMessage ::
  "'u protobuf \<Rightarrow> 'u rpc_message \<Rightarrow> send_env \<Rightarrow> 'u rpc_message \<Rightarrow> 'q rpc_channel \<Rightarrow> conn \<Rightarrow> ('q rpc_channel \<times> conn \<times> bool) result" where
  "onRpcMessage p raw env message ch c =
     (if m_type message = REQUEST
      then bnd (onRpcRequest p raw env message ch c) (\<lambda>(error, ch1, c1, kept). Inr (ch1, c1, kept))
      else if m_type message = RESPONSE then (let (ch1, c1) = onRpcResponse ch c in Inr (ch1, c1, False))
      else Inr (ch, c, False))"

text \<open>\<open>CallMethod\<close>, the client side of a call, has an empty body.\<close>

definition channel_CallMethod :: "'q rpc_channel \<Rightarrow> conn \<Rightarrow> 'q rpc_channel \<times> conn" where
  "channel_CallMethod ch c = (ch, c)"

text \<open>
  \<open>onMessage\<close> on the read buffer of the connection. The first log line prints the data as a C string;
  the result of \<open>ParseFromArray\<close> is ignored.
\<close>

definition channel_onMessage ::
  "'u protobuf \<Rightarrow> 'u rpc_message \<Rightarrow> send_env \<Rightarrow> 'q rpc_channel \<Rightarrow> conn \<Rightarrow> ('q rpc_channel \<times> conn \<times> bool) result" where
  "channel_onMessage p raw env ch c =
     bnd (consume 65535 (cn_read c)) (\<lambda>(ss, rb).
       let c1 = c\<lparr>cn_read := rb\<rparr> in
       if slice_empty ss then Inr (ch, c1, False)
       else bnd (strlen (slice_data ss)) (\<lambda>_.
            bnd (toString ss) (\<lambda>bytes.
              let message = snd (ParseFromArray p bytes (RpcMessage (pb_wire p) raw))
              in onRpcMessage p raw env message ch c1)))"

section \<open>RpcServer\<close>

record 'q rpc_server =
  rs_server :: server
  rs_addr :: string
  rs_port :: nat
  rs_services :: "byte list \<rightharpoonup> 'q service option"

definition RpcServer ::
  "int \<Rightarrow> nat \<Rightarrow> nat \<Rightarrow> sock \<Rightarrow> string \<Rightarrow> string \<Rightarrow> nat \<Rightarrow> 'q rpc_server result" where
  "RpcServer efd tid nprocs s0 uuid ip port =
     bnd (Server efd tid nprocs s0 uuid ''RpcServer'' ip port (int (getSystemCPUProcessers nprocs))) (\<lambda>sv.
       Inr \<lparr>rs_server = server_setMessageCallback True (server_setConnectionCallback True sv),
            rs_addr = ip, rs_port = port, rs_services = Map.empty\<rparr>)"

definition registerService :: "'q service option \<Rightarrow> 'q rpc_server \<Rightarrow> 'q rpc_server result" where
  "registerService service rs =
     (case service of
        None \<Rightarrow> Inl NullDeref
      | Some sv \<Rightarrow>
          Inr (if rs_services rs (full_name sv) = None
               then rs\<lparr>rs_services := (rs_services rs)(full_name sv \<mapsto> service)\<rparr> else rs))"

text \<open>
  One channel per message, destroyed at the end: the second result is the closure that a service has
  kept, with its channel.
\<close>

definition rpc_onMessage ::
  "'u protobuf \<Rightarrow> 'u rpc_message \<Rightarrow> send_env \<Rightarrow> 'q rpc_channel \<Rightarrow> 'q rpc_server \<Rightarrow> conn \<Rightarrow> (conn \<times> 'q rpc_channel option option) result" where
  "rpc_onMessage p raw env chraw rs c =
     (let channel = setRpcServices (rs_services rs) (RpcChannel chraw) in
      bnd (channel_onMessage p raw env channel c) (\<lambda>(ch1, c1, kept). Inr (c1, if kept then Some None else None)))"

definition rpc_start ::
  "listen_env \<Rightarrow> (nat \<Rightarrow> spawn_env) \<Rightarrow> event_env \<Rightarrow> nat \<Rightarrow> 'q rpc_server \<Rightarrow> 'q rpc_server result" where
  "rpc_start lenv spawn env tid rs =
     bnd (server_start lenv spawn env tid (rs_server rs)) (\<lambda>sv. Inr (rs\<lparr>rs_server := sv\<rparr>))"

section \<open>What arrives\<close>

lemma consume_all:
  assumes "buf_wf b" and "length (content b) \<le> n"
  shows "\<exists>b'. consume n b = Inr (Slice_ptr (data b) (length (content b)), b') \<and> buf_wf b' \<and> content b' = []"
proof -
  obtain b' where b': "remove (length (content b)) b = Inr b'" "buf_wf b'" "content b' = []"
    using remove_ok [OF assms(1), of "length (content b)"] by auto
  then show ?thesis using assms unread_content [OF assms(1)]
    by (cases "n = length (content b)") (auto simp: consume_def)
qed

lemma slice_of_content:
  assumes "buf_wf b"
  shows "toString (Slice_ptr (data b) (length (content b))) = Inr (content b)"
proof -
  have "length (content b) \<le> length (data b)" "take (length (content b)) (data b) = content b"
    using assms by (auto simp: data_def content_def buf_wf_def)
  then show ?thesis by (simp add: toString_def Slice_ptr_def mem_read_def)
qed

text \<open>The whole of \<open>onMessage\<close> up to the dispatch.\<close>

lemma onMessage_dispatch:
  assumes "buf_wf (cn_read c)" and "content (cn_read c) \<noteq> []" and "length (content (cn_read c)) \<le> 65535"
  shows "\<exists>b'. buf_wf b' \<and> content b' = [] \<and> channel_onMessage p raw env ch c =
    (if 0 \<in> set (data (cn_read c))
     then onRpcMessage p raw env (snd (ParseFromArray p (content (cn_read c)) (RpcMessage (pb_wire p) raw))) ch (c\<lparr>cn_read := b'\<rparr>)
     else Inl OutOfBounds)"
proof -
  obtain b' where "consume 65535 (cn_read c) = Inr (Slice_ptr (data (cn_read c)) (length (content (cn_read c))), b')"
    "buf_wf b'" "content b' = []"
    using consume_all [OF assms(1,3)] by blast
  then show ?thesis using assms(2) slice_of_content [OF assms(1)]
    by (auto simp: channel_onMessage_def slice_empty_def Slice_ptr_def strlen_def Let_def)
qed

lemma fields_values:
  "msg_fields m 1 = Some (Number v) \<Longrightarrow> m_type m = v" "msg_fields m 2 = Some (Fixed i) \<Longrightarrow> m_id m = i"
  "msg_fields m 3 = Some (Text s) \<Longrightarrow> get_string Service m = s" "msg_fields m 4 = Some (Text s) \<Longrightarrow> get_string Method m = s"
  "msg_fields m 5 = Some (Text s) \<Longrightarrow> get_string Request m = s"
  by (auto simp: msg_fields_def split: if_splits)

text \<open>A request with all its fields.\<close>

definition complete_request :: "'u rpc_message \<Rightarrow> bool" where
  "complete_request m \<longleftrightarrow> has_type m \<and> m_type m = REQUEST \<and> has_id m \<and> has_string Service m \<and> has_string Method m \<and>
     has_string Request m"

lemma foldl_map_add_last: "ms \<noteq> [] \<Longrightarrow> f (last ms) k = Some v \<Longrightarrow> foldl (++) M (map f ms) k = Some v"
  by (induction ms arbitrary: M rule: rev_induct) auto

text \<open>Requests that arrive together are parsed as one; the last decides.\<close>

lemma parse_requests:
  fixes p :: "'u protobuf" and m0 :: "'u rpc_message"
  assumes "protobuf_laws p" and "ms \<noteq> []" and "\<forall>m\<in>set ms. msg_valid (pb_wire p) m" and "complete_request (last ms)"
    and "length (concat (map (SerializeWithCachedSizes (pb_wire p)) ms)) \<le> 64 * 2 ^ 20"
  defines "m \<equiv> snd (ParseFromArray p (concat (map (SerializeWithCachedSizes (pb_wire p)) ms)) m0)"
  shows "m_type m = REQUEST" "m_id m = m_id (last ms)" "get_string Service m = get_string Service (last ms)"
    "get_string Method m = get_string Method (last ms)" "get_string Request m = get_string Request (last ms)"
proof -
  let ?w = "pb_wire p"
  have w: "wire_laws ?w" using assms(1) by (simp add: protobuf_laws_def)
  obtain m' where m': "merge_all ?w ms (Clear ?w m0) = Inr m'"
    "parse_loop ?w None (concat (map (SerializeWithCachedSizes ?w) ms)) (Clear ?w m0) = Some (Inr (True, m'))"
    using parse_all [OF w assms(3)] within_limit [OF w assms(5)] by blast
  have "m = m'" using assms(1) m'(2) by (auto simp: protobuf_laws_def MergePartialFromCodedStream_def m_def)
  then have f: "msg_fields m = foldl (++) Map.empty (map msg_fields ms)"
    using fields_merge_all [OF m'(1)] by (simp add: fields_Clear)
  have last: "msg_fields (last ms) 1 = Some (Number REQUEST)" "msg_fields (last ms) 2 = Some (Fixed (m_id (last ms)))"
    "msg_fields (last ms) 3 = Some (Text (get_string Service (last ms)))"
    "msg_fields (last ms) 4 = Some (Text (get_string Method (last ms)))"
    "msg_fields (last ms) 5 = Some (Text (get_string Request (last ms)))"
    using assms(4) by (simp_all add: complete_request_def msg_fields_def)
  note whole = foldl_map_add_last [OF assms(2), where f = msg_fields and M = Map.empty, folded f]
  show "m_type m = REQUEST" "m_id m = m_id (last ms)" "get_string Service m = get_string Service (last ms)"
    "get_string Method m = get_string Method (last ms)" "get_string Request m = get_string Request (last ms)"
    by (rule fields_values [OF whole], rule last)+
qed

section \<open>What is answered\<close>

definition rpc_reply :: "'u wire \<Rightarrow> 'u rpc_message \<Rightarrow> 64 word \<Rightarrow> byte list \<Rightarrow> 'u rpc_message" where
  "rpc_reply w raw i body = set_string Response body (set_id i ((set_has 1 (RpcMessage w raw))\<lparr>m_type := RESPONSE\<rparr>))"

lemma reply_fields:
  "msg_fields (rpc_reply w raw i body) = [1 \<mapsto> Number RESPONSE, 2 \<mapsto> Fixed i, 6 \<mapsto> Text body]"
proof -
  have "msg_fields (RpcMessage w raw) = Map.empty"
    by (rule fields_none) (simp add: RpcMessage_def SharedCtor_def has_bit_def)
  moreover have "set_type RESPONSE (RpcMessage w raw) = Inr ((set_has 1 (RpcMessage w raw))\<lparr>m_type := RESPONSE\<rparr>)"
    by (simp add: set_type_def RpcMessageType_IsValid_def RESPONSE_def)
  ultimately have "msg_fields ((set_has 1 (RpcMessage w raw))\<lparr>m_type := RESPONSE\<rparr>) = [1 \<mapsto> Number RESPONSE]"
    using fields_set_number(1) [of RESPONSE "RpcMessage w raw"] by metis
  then show ?thesis by (simp add: rpc_reply_def fields_set_string fields_set_id)
qed

lemma reply_not_empty:
  assumes "size_laws w"
  shows "SerializeWithCachedSizes w (rpc_reply w raw i body) \<noteq> []"
proof -
  have "has_type (rpc_reply w raw i body)"
    by (simp add: rpc_reply_def has_type_def set_string_eq set_id_def set_has_id_def)
  moreover have "WriteEnum w 1 v \<noteq> []" for v using assms by (simp add: size_laws_def)
  ultimately show ?thesis by (simp add: SerializeWithCachedSizes_def)
qed

lemma send_now_read:
  "conn_send_now env ok sr e m c = Inr c' \<Longrightarrow> 0 \<le> sr \<Longrightarrow> cn_read c' = cn_read c"
  by (auto simp: conn_send_now_def bnd_simps Let_def split: if_splits)

lemma done_sends:
  assumes p: "protobuf_laws p" and c: "conn_ok c" and env: "good_env (se_event env)"
    and frame_def: "frame = SerializeWithCachedSizes (pb_wire p) (rpc_reply (pb_wire p) raw (rc_id ch) body)"
    and sr: "0 \<le> se_result env" "se_result env \<le> int (length frame)"
    and room: "\<forall>n\<le>length frame. room (se_alloc env) n (cn_write c)"
  shows "\<exists>q c'. doneCallback p raw env (Some ch) body c = Inr (q, c') \<and> conn_ok c' \<and>
    cn_sent c' @ content (cn_write c') = cn_sent c @ content (cn_write c) @ frame \<and> cn_read c' = cn_read c"
proof -
  let ?m = "\<lparr>obj = frame @ [0], off = 0, len = length frame\<rparr>"
  have "size_laws (pb_wire p)" using p by (simp add: protobuf_laws_def wire_laws_def)
  then have ne: "frame \<noteq> []" unfolding frame_def by (rule reply_not_empty)
  then have m: "message_ok ?m" "payload ?m = frame" by (simp_all add: message_ok_def payload_def)
  obtain c' where c': "conn_send_now (se_event env) (se_alloc env) (se_result env) (se_errno env) ?m c = Inr c'" "conn_ok c'"
    "cn_sent c' @ content (cn_write c') = cn_sent c @ content (cn_write c) @ frame"
    using send_now_ok [OF c env m(1), of "se_result env" "se_alloc env" "se_errno env"] sr room m(2) by auto
  have "set_type RESPONSE (RpcMessage (pb_wire p) raw) = Inr ((set_has 1 (RpcMessage (pb_wire p) raw))\<lparr>m_type := RESPONSE\<rparr>)"
    by (simp add: set_type_def RpcMessageType_IsValid_def RESPONSE_def)
  then have "doneCallback p raw env (Some ch) body c = conn_send (se_event env) (se_alloc env) (se_result env) (se_errno env) (Some ?m) c"
    using p by (simp add: doneCallback_def protobuf_laws_def Let_def rpc_reply_def [symmetric] frame_def)
  moreover have "conn_send (se_event env) (se_alloc env) (se_result env) (se_errno env) (Some ?m) c = Inr (False, c')"
    using c'(1) ne env by (simp add: conn_send_def good_env_def)
  moreover have "cn_read c' = cn_read c" by (rule send_now_read [OF c'(1) sr(1)])
  ultimately show ?thesis using c'(2,3) by auto
qed

text \<open>A read that holds requests.\<close>

lemma requests_answered:
  assumes "protobuf_laws p" and "ms \<noteq> []" and "\<forall>m\<in>set ms. msg_valid (pb_wire p) m" and "complete_request (last ms)"
    and "buf_wf (cn_read c)" and "content (cn_read c) = concat (map (SerializeWithCachedSizes (pb_wire p)) ms)"
    and "content (cn_read c) \<noteq> []" and "length (content (cn_read c)) \<le> 65535" and "conn_ok c" and "good_env (se_event env)"
    and "rs_services rs (get_string Service (last ms)) = Some (Some sv)"
    and "FindMethodByName sv (get_string Method (last ms)) = Some mt"
    and "ParseRequest sv mt (get_string Request (last ms)) = Some q" and "CallMethod sv mt q = Done r"
    and "frame = SerializeWithCachedSizes (pb_wire p) reply"
    and "reply = rpc_reply (pb_wire p) raw (m_id (last ms)) (SerializeAsString sv r)"
    and "0 \<le> se_result env" and "se_result env \<le> int (length frame)" and "\<forall>n\<le>length frame. room (se_alloc env) n (cn_write c)"
  shows "msg_fields reply = [1 \<mapsto> Number RESPONSE, 2 \<mapsto> Fixed (m_id (last ms)), 6 \<mapsto> Text (SerializeAsString sv r)] \<and>
    (if 0 \<in> set (data (cn_read c))
     then \<exists>c'. rpc_onMessage p raw env chraw rs c = Inr (c', None) \<and> conn_ok c' \<and> content (cn_read c') = [] \<and>
       cn_sent c' @ content (cn_write c') = cn_sent c @ content (cn_write c) @ frame
     else rpc_onMessage p raw env chraw rs c = Inl OutOfBounds)"
proof -
  define m where "m = snd (ParseFromArray p (content (cn_read c)) (RpcMessage (pb_wire p) raw))"
  have "length (concat (map (SerializeWithCachedSizes (pb_wire p)) ms)) \<le> 64 * 2 ^ 20" using assms(6,8) by simp
  note req = parse_requests [OF assms(1-4) this, of "RpcMessage (pb_wire p) raw", folded assms(6), folded m_def]
  define ch where "ch = setRpcServices (rs_services rs) (RpcChannel chraw)"
  obtain b' where b': "content b' = []" "channel_onMessage p raw env ch c =
      (if 0 \<in> set (data (cn_read c)) then onRpcMessage p raw env m ch (c\<lparr>cn_read := b'\<rparr>) else Inl OutOfBounds)"
    using onMessage_dispatch [OF assms(5,7,8), of p raw env ch] unfolding m_def by blast
  have c1: "conn_ok (c\<lparr>cn_read := b'\<rparr>)" using assms(9) by (simp add: conn_ok_def)
  define ch1 where "ch1 = setRpcMessageId (m_id m) ch"
  have "frame = SerializeWithCachedSizes (pb_wire p) (rpc_reply (pb_wire p) raw (rc_id ch1) (SerializeAsString sv r))"
    using assms(15,16) req(2) by (simp add: ch1_def setRpcMessageId_def)
  from done_sends [OF assms(1) c1 assms(10) this assms(17,18)] assms(19)
  obtain q' c' where c': "doneCallback p raw env (Some ch1) (SerializeAsString sv r) (c\<lparr>cn_read := b'\<rparr>) = Inr (q', c')"
    "conn_ok c'" "cn_sent c' @ content (cn_write c') = cn_sent c @ content (cn_write c) @ frame" "cn_read c' = b'"
    by auto
  have "rc_services ch = rs_services rs" by (simp add: ch_def setRpcServices_def)
  then have "onRpcMessage p raw env m ch (c\<lparr>cn_read := b'\<rparr>) = Inr (ch1, c', False)"
    using req assms(11-14) c'(1) ch1_def by (simp add: onRpcMessage_def onRpcRequest_def Let_def)
  then show ?thesis using b' c'(2-4) reply_fields assms(16)
    by (simp add: rpc_onMessage_def ch_def [symmetric])
qed

section \<open>Properties\<close>

text \<open>
  C10. Requests on a connection. When the read buffer holds serialized requests, one or several that
  arrived together, of at most 65535 bytes in all, the service named by the last of them answers at
  once and a direct write does not fail, the server sends
  exactly one reply, which carries the identifier of the last request and the response of the
  service; earlier requests of the same read are not answered. The reply follows what was already
  submitted on the connection, and the read buffer is empty. If no NUL byte follows in the buffer's
  array, printing the data reads past its end.
\<close>

theorem rpc_one_reply_per_read:
  assumes "protobuf_laws p" and "ms \<noteq> []" and "\<forall>m\<in>set ms. msg_valid (pb_wire p) m" and "complete_request (last ms)"
    and "buf_wf (cn_read c)" and "content (cn_read c) = concat (map (SerializeWithCachedSizes (pb_wire p)) ms)"
    and "content (cn_read c) \<noteq> []" and "length (content (cn_read c)) \<le> 65535" and "conn_ok c" and "good_env (se_event env)"
    and "rs_services rs (get_string Service (last ms)) = Some (Some sv)"
    and "FindMethodByName sv (get_string Method (last ms)) = Some mt"
    and "ParseRequest sv mt (get_string Request (last ms)) = Some q" and "CallMethod sv mt q = Done r"
    and "frame = SerializeWithCachedSizes (pb_wire p) reply"
    and "reply = rpc_reply (pb_wire p) raw (m_id (last ms)) (SerializeAsString sv r)"
    and "0 \<le> se_result env" and "se_result env \<le> int (length frame)" and "\<forall>n\<le>length frame. room (se_alloc env) n (cn_write c)"
  shows "msg_fields reply = [1 \<mapsto> Number RESPONSE, 2 \<mapsto> Fixed (m_id (last ms)), 6 \<mapsto> Text (SerializeAsString sv r)] \<and>
    (if 0 \<in> set (data (cn_read c))
     then \<exists>c'. rpc_onMessage p raw env chraw rs c = Inr (c', None) \<and> conn_ok c' \<and> content (cn_read c') = [] \<and>
       cn_sent c' @ content (cn_write c') = cn_sent c @ content (cn_write c) @ frame
     else rpc_onMessage p raw env chraw rs c = Inl OutOfBounds)"
  by (rule requests_answered [OF assms])

text \<open>An echo service, and a connection on which the sample request has arrived.\<close>

definition sample_protobuf :: "byte list protobuf" where
  "sample_protobuf =
     \<lparr>pb_wire = proto_wire,
      ParseFromArray = (\<lambda>bs m. case MergePartialFromCodedStream proto_wire bs (Clear proto_wire m) of
                          Some (Inr r) \<Rightarrow> r | _ \<Rightarrow> (False, m)),
      SerializeToString = SerializeWithCachedSizes proto_wire\<rparr>"

definition sample_service :: "byte list service" where
  "sample_service = \<lparr>full_name = [101], FindMethodByName = (\<lambda>n. if n = [102] then Some 0 else None),
     ParseRequest = (\<lambda>_ bs. Some bs), CallMethod = (\<lambda>_ q. Done q), SerializeAsString = (\<lambda>r. r)\<rparr>"

definition request_bytes :: "byte list" where
  "request_bytes = [8, 1, 17, 7, 0, 0, 0, 0, 0, 0, 0, 26, 1, 101, 34, 1, 102, 42, 3, 1, 0, 2]"

definition rpc_conn :: conn where
  "rpc_conn = sample_conn\<lparr>cn_read := \<lparr>buff = replicate 8 0 @ request_bytes @ [0], caps = 31, read_index = 8,
     write_index = 30, reserved_prepend_size = 8\<rparr>\<rparr>"

definition sample_send_env :: send_env where
  "sample_send_env = \<lparr>se_event = sample_env, se_alloc = (\<lambda>_. True), se_result = 0, se_errno = EINTR\<rparr>"

lemma sample_protobuf_laws: "protobuf_laws sample_protobuf"
  using proto_wire_laws by (simp add: protobuf_laws_def sample_protobuf_def)

lemma sample_request_bytes: "SerializeWithCachedSizes proto_wire sample_request = request_bytes"
  by code_simp

lemma rpc_conn_facts:
  "buf_wf (cn_read rpc_conn)" "content (cn_read rpc_conn) = request_bytes" "conn_ok rpc_conn" "0 \<in> set (data (cn_read rpc_conn))"
  "cn_sent rpc_conn = []" "content (cn_write rpc_conn) = []"
proof -
  show "buf_wf (cn_read rpc_conn)" by (simp add: rpc_conn_def buf_wf_def size_mod_def request_bytes_def)
  show "content (cn_read rpc_conn) = request_bytes" by (simp add: rpc_conn_def content_def request_bytes_def)
  show "conn_ok rpc_conn" using sample_conn_facts(1) by (simp add: rpc_conn_def conn_ok_def)
  show "0 \<in> set (data (cn_read rpc_conn))" by (simp add: rpc_conn_def data_def)
  show "cn_sent rpc_conn = []" "content (cn_write rpc_conn) = []" using sample_conn_facts(2,3) by (simp_all add: rpc_conn_def)
qed

definition sample_rpc_server :: "byte list rpc_server" where
  "sample_rpc_server = \<lparr>rs_server = sample_server, rs_addr = [], rs_port = 80, rs_services = [[101] \<mapsto> Some sample_service]\<rparr>"

definition sample_rpc_channel :: "byte list rpc_channel" where
  "sample_rpc_channel = \<lparr>rc_services = Map.empty, rc_id = 0, rc_outstandings = []\<rparr>"

lemma sample_reply_bytes:
  "SerializeWithCachedSizes proto_wire (rpc_reply proto_wire raw_message 7 [1, 0, 2]) =
     [8, 2, 17, 7, 0, 0, 0, 0, 0, 0, 0, 50, 3, 1, 0, 2]"
  by code_simp

lemma sample_request_strings:
  "complete_request sample_request" "get_string Service sample_request = [101]" "get_string Method sample_request = [102]"
  "get_string Request sample_request = [1, 0, 2]" "m_id sample_request = 7"
  by (simp_all add: complete_request_def presence has_bit_def sample_request_def raw_message_def string_ptr.simps)

theorem rpc_one_reply_per_read_witness:
  "\<exists>c'. rpc_onMessage sample_protobuf raw_message sample_send_env sample_rpc_channel sample_rpc_server rpc_conn = Inr (c', None) \<and>
     cn_sent c' @ content (cn_write c') = [8, 2, 17, 7, 0, 0, 0, 0, 0, 0, 0, 50, 3, 1, 0, 2]"
proof -
  have w: "pb_wire sample_protobuf = proto_wire" by (simp add: sample_protobuf_def)
  have sv: "rs_services sample_rpc_server [101] = Some (Some sample_service)"
    "FindMethodByName sample_service [102] = Some 0" "ParseRequest sample_service 0 [1, 0, 2] = Some [1, 0, 2]"
    "CallMethod sample_service 0 [1, 0, 2] = Done [1, 0, 2]" "SerializeAsString sample_service [1, 0, 2] = [1, 0, 2]"
    by (simp_all add: sample_rpc_server_def sample_service_def)
  have env: "good_env (se_event sample_send_env)" "se_result sample_send_env = 0" "se_alloc sample_send_env = (\<lambda>_. True)"
    using sample_channel_sync(2) by (simp_all add: sample_send_env_def)
  have room: "room (\<lambda>_. True) n (cn_write rpc_conn)" if "n \<le> 16" for n
    using that by (simp add: rpc_conn_def sample_conn_def room_def size_mod_def)
  have "if 0 \<in> set (data (cn_read rpc_conn))
     then \<exists>c'. rpc_onMessage sample_protobuf raw_message sample_send_env sample_rpc_channel sample_rpc_server rpc_conn = Inr (c', None) \<and>
       conn_ok c' \<and> content (cn_read c') = [] \<and> cn_sent c' @ content (cn_write c') = cn_sent rpc_conn @ content (cn_write rpc_conn) @
         [8, 2, 17, 7, 0, 0, 0, 0, 0, 0, 0, 50, 3, 1, 0, 2]
     else rpc_onMessage sample_protobuf raw_message sample_send_env sample_rpc_channel sample_rpc_server rpc_conn = Inl OutOfBounds"
    by (rule rpc_one_reply_per_read [where ms = "[sample_request]" and sv = sample_service and mt = 0 and q = "[1, 0, 2]"
          and r = "[1, 0, 2]" and reply = "rpc_reply proto_wire raw_message 7 [1, 0, 2]", OF sample_protobuf_laws, THEN conjunct2])
      (simp_all add: w sv env room sample_request_valid sample_request_bytes sample_reply_bytes sample_request_strings rpc_conn_facts,
       simp_all add: request_bytes_def)
  then show ?thesis using rpc_conn_facts(4-6) by auto
qed

text \<open>
  C22. What is not answered. For whatever bytes arrive, up to 65535 and with a NUL byte in the rest of the
  buffer's array: a message that is not a request, a service or a
  method that does not exist and a request that cannot be parsed consume the data and send nothing,
  not even an error. When a service keeps the closure to run it later, the channel that made the
  closure is gone by then, and running it reads the freed channel.
\<close>

theorem rpc_errors_are_silent:
  assumes "buf_wf (cn_read c)" and "content (cn_read c) \<noteq> []" and "length (content (cn_read c)) \<le> 65535"
    and "0 \<in> set (data (cn_read c))"
    and "m = snd (ParseFromArray p (content (cn_read c)) (RpcMessage (pb_wire p) raw))"
  shows "\<exists>b'. content b' = [] \<and>
    (m_type m \<noteq> REQUEST \<or> rs_services rs (get_string Service m) = None \<or>
     (\<exists>sv. rs_services rs (get_string Service m) = Some (Some sv) \<and>
        (FindMethodByName sv (get_string Method m) = None \<or>
         (\<exists>mt. FindMethodByName sv (get_string Method m) = Some mt \<and> ParseRequest sv mt (get_string Request m) = None)))
     \<longrightarrow> rpc_onMessage p raw env chraw rs c = Inr (c\<lparr>cn_read := b'\<rparr>, None)) \<and>
    (\<forall>sv mt q. m_type m = REQUEST \<and> rs_services rs (get_string Service m) = Some (Some sv) \<and>
       FindMethodByName sv (get_string Method m) = Some mt \<and> ParseRequest sv mt (get_string Request m) = Some q \<and>
       CallMethod sv mt q = Later \<longrightarrow>
       (\<exists>ch. rpc_onMessage p raw env chraw rs c = Inr (c\<lparr>cn_read := b'\<rparr>, Some ch) \<and>
          doneCallback p raw env ch (SerializeAsString sv q') c' = Inl UseAfterFree))"
proof -
  define ch where "ch = setRpcServices (rs_services rs) (RpcChannel chraw)"
  obtain b' where b': "content b' = []" "channel_onMessage p raw env ch c = onRpcMessage p raw env m ch (c\<lparr>cn_read := b'\<rparr>)"
    using onMessage_dispatch [OF assms(1-3), of p raw env ch] assms(4,5) by auto
  have on: "rpc_onMessage p raw env chraw rs c =
      bnd (onRpcMessage p raw env m ch (c\<lparr>cn_read := b'\<rparr>)) (\<lambda>(ch1, c1, kept). Inr (c1, if kept then Some None else None))"
    using b'(2) by (simp add: rpc_onMessage_def ch_def [symmetric])
  have s: "rc_services ch = rs_services rs" by (simp add: ch_def setRpcServices_def)
  have "rpc_onMessage p raw env chraw rs c = Inr (c\<lparr>cn_read := b'\<rparr>, None)" if "m_type m \<noteq> REQUEST"
    using on that by (simp add: onRpcMessage_def onRpcResponse_def)
  moreover have "set_type RESPONSE (RpcMessage (pb_wire p) raw) = Inr ((set_has 1 (RpcMessage (pb_wire p) raw))\<lparr>m_type := RESPONSE\<rparr>)"
    by (simp add: set_type_def RpcMessageType_IsValid_def RESPONSE_def)
  then have "doneCallback p raw env (None :: 'b rpc_channel option) body c' = Inl UseAfterFree" for body
    by (simp add: doneCallback_def)
  ultimately show ?thesis using b'(1) on s
    by (intro exI [of _ b']) (auto simp: onRpcMessage_def onRpcRequest_def Let_def)
qed

text \<open>The sample request to a server without services.\<close>

theorem rpc_errors_are_silent_witness:
  "\<exists>b'. content b' = [] \<and> rpc_onMessage sample_protobuf raw_message sample_send_env sample_rpc_channel
     (sample_rpc_server\<lparr>rs_services := Map.empty\<rparr>) rpc_conn = Inr (rpc_conn\<lparr>cn_read := b'\<rparr>, None)"
  using rpc_errors_are_silent [of rpc_conn, OF rpc_conn_facts(1) _ _ rpc_conn_facts(4) refl, of sample_protobuf raw_message
      "sample_rpc_server\<lparr>rs_services := Map.empty\<rparr>" sample_send_env sample_rpc_channel] rpc_conn_facts(2)
  by (auto simp: request_bytes_def)

end
