(* ===== verification/Echo_Service.thy ===== *)
theory Echo_Service
  imports Rpc
begin

text \<open>
  The echo service: its messages (\<open>echo_server.pb.h\<close>, \<open>echo_server.pb.cc\<close>), the implementation that the
  example server registers (\<open>examples/atp_rpc_server_benchmark.cpp\<close>) and the call that the example
  client makes (\<open>examples/atp_rpc_client.cpp\<close>). \<open>EchoRequest\<close> and \<open>EchoResponse\<close> have one string field each
  and the same text; both are the record \<open>echo_message\<close>. libprotobuf enters as in \<open>Rpc_Message\<close>.
\<close>

section \<open>EchoRequest and EchoResponse\<close>

record 'u echo_message =
  e_unknown :: 'u
  e_message :: "byte list option"
  e_cached_size :: int
  e_has :: "32 word"

definition has_message :: "'u echo_message \<Rightarrow> bool" where
  "has_message m \<longleftrightarrow> e_has m AND 0x01 \<noteq> 0"

definition set_has_message :: "'u echo_message \<Rightarrow> 'u echo_message" where
  "set_has_message m = m\<lparr>e_has := e_has m OR 0x01\<rparr>"

definition clear_has_message :: "'u echo_message \<Rightarrow> 'u echo_message" where
  "clear_has_message m = m\<lparr>e_has := e_has m AND NOT 0x01\<rparr>"

definition clear_message :: "'u echo_message \<Rightarrow> 'u echo_message" where
  "clear_message m = clear_has_message (case e_message m of None \<Rightarrow> m | Some _ \<Rightarrow> m\<lparr>e_message := Some []\<rparr>)"

definition message :: "'u echo_message \<Rightarrow> byte list" where
  "message m = (case e_message m of None \<Rightarrow> [] | Some s \<Rightarrow> s)"

definition mutable_message :: "'u echo_message \<Rightarrow> 'u echo_message" where
  "mutable_message m =
     (let m1 = set_has_message m in case e_message m1 of None \<Rightarrow> m1\<lparr>e_message := Some []\<rparr> | Some _ \<Rightarrow> m1)"

definition set_message :: "byte list \<Rightarrow> 'u echo_message \<Rightarrow> 'u echo_message" where
  "set_message value m =
     (let m1 = set_has_message m;
          m2 = (case e_message m1 of None \<Rightarrow> m1\<lparr>e_message := Some []\<rparr> | Some _ \<Rightarrow> m1)
      in m2\<lparr>e_message := Some value\<rparr>)"

definition set_message_cstr :: "byte list \<Rightarrow> 'u echo_message \<Rightarrow> 'u echo_message result" where
  "set_message_cstr p m = bnd (strlen p) (\<lambda>n. Inr (set_message (take n p) m))"

definition set_message_mem :: "byte list \<Rightarrow> nat \<Rightarrow> 'u echo_message \<Rightarrow> 'u echo_message result" where
  "set_message_mem p n m = bnd (mem_read p 0 n) (\<lambda>v. Inr (set_message v m))"

definition release_message :: "'u echo_message \<Rightarrow> byte list option \<times> 'u echo_message" where
  "release_message m =
     (let m1 = clear_has_message m in case e_message m1 of None \<Rightarrow> (None, m1) | Some s \<Rightarrow> (Some s, m1\<lparr>e_message := None\<rparr>))"

text \<open>The second result is the string deleted.\<close>

definition set_allocated_message :: "byte list option \<Rightarrow> 'u echo_message \<Rightarrow> 'u echo_message \<times> byte list option" where
  "set_allocated_message p m =
     (case p of Some s \<Rightarrow> (set_has_message m)\<lparr>e_message := Some s\<rparr> | None \<Rightarrow> (clear_has_message m)\<lparr>e_message := None\<rparr>, e_message m)"


definition echo_SharedDtor :: "'u echo_message \<Rightarrow> byte list option" where
  "echo_SharedDtor m = e_message m"

definition echo_Clear :: "'u wire \<Rightarrow> 'u echo_message \<Rightarrow> 'u echo_message" where
  "echo_Clear w m =
     (let m1 = (if e_has m AND 0xff \<noteq> 0 \<and> has_message m
                then (case e_message m of None \<Rightarrow> m | Some _ \<Rightarrow> m\<lparr>e_message := Some []\<rparr>) else m)
      in m1\<lparr>e_has := 0, e_unknown := NoUnknown w\<rparr>)"

definition echo_MergeFrom :: "'u wire \<Rightarrow> 'u echo_message \<Rightarrow> 'u echo_message \<Rightarrow> 'u echo_message" where
  "echo_MergeFrom w from m =
     (let m1 = (if e_has from AND 0xff \<noteq> 0 \<and> has_message from then set_message (message from) m else m)
      in m1\<lparr>e_unknown := UnknownMerge w (e_unknown m1) (e_unknown from)\<rparr>)"

definition echo_CopyFrom :: "'u wire \<Rightarrow> 'u echo_message \<Rightarrow> 'u echo_message \<Rightarrow> 'u echo_message" where
  "echo_CopyFrom w from m = echo_MergeFrom w from (echo_Clear w m)"

definition echo_IsInitialized :: "'u echo_message \<Rightarrow> bool" where
  "echo_IsInitialized m \<longleftrightarrow> e_has m AND 0x01 = 0x01"

definition echo_Swap :: "'u echo_message \<Rightarrow> 'u echo_message \<Rightarrow> 'u echo_message \<times> 'u echo_message" where
  "echo_Swap m other =
     (m\<lparr>e_message := e_message other, e_has := e_has other, e_unknown := e_unknown other, e_cached_size := e_cached_size other\<rparr>,
      other\<lparr>e_message := e_message m, e_has := e_has m, e_unknown := e_unknown m, e_cached_size := e_cached_size m\<rparr>)"

definition echo_Serialize :: "'u wire \<Rightarrow> 'u echo_message \<Rightarrow> byte list" where
  "echo_Serialize w m =
     (if has_message m then WriteString w 1 (message m) else []) @
     (if \<not> UnknownEmpty w (e_unknown m) then SerializeUnknownFields w (e_unknown m) else [])"

definition echo_SerializeToArray :: "'u wire \<Rightarrow> 'u echo_message \<Rightarrow> byte list \<times> nat \<Rightarrow> (byte list \<times> nat) result" where
  "echo_SerializeToArray w m t =
     bnd (to_array (has_message m) (WriteString w 1 (message m)) t) (\<lambda>t.
     to_array (\<not> UnknownEmpty w (e_unknown m)) (SerializeUnknownFields w (e_unknown m)) t)"

definition echo_ByteSize :: "'u wire \<Rightarrow> 'u echo_message \<Rightarrow> int \<times> 'u echo_message" where
  "echo_ByteSize w m =
     (let total_size = 0;
          total_size = (if e_has m AND 0xff \<noteq> 0 then add_size (has_message m) (StringSize w (message m)) total_size else total_size);
          total_size = (if \<not> UnknownEmpty w (e_unknown m)
            then int_wrap (total_size + ComputeUnknownFieldsSize w (e_unknown m)) else total_size)
      in (total_size, m\<lparr>e_cached_size := total_size\<rparr>))"

text \<open>Not returning is \<^const>\<open>None\<close>.\<close>

partial_function (option) echo_parse :: "'u wire \<Rightarrow> byte list \<Rightarrow> 'u echo_message \<Rightarrow> (bool \<times> 'u echo_message) option" where
  "echo_parse w inp m =
     (let (tag, inp1) = ReadTag w inp; ty = GetTagWireType w tag in
      if tag = 0 then Some (True, m)
      else if GetTagFieldNumber w tag = 1 \<and> ty = WIRETYPE_LENGTH_DELIMITED then
        (let (ok, s, inp2) = ReadString w inp1; m1 = (mutable_message m)\<lparr>e_message := Some s\<rparr> in
         if \<not> ok then Some (False, m1)
         else if ExpectAtEnd w inp2 then Some (True, m1) else echo_parse w inp2 m1)
      else if ty = WIRETYPE_END_GROUP then Some (True, m)
      else (let (ok, u, inp2) = SkipField w inp1 tag (e_unknown m); m1 = m\<lparr>e_unknown := u\<rparr> in
            if \<not> ok then Some (False, m1) else echo_parse w inp2 m1))"

section \<open>EchoService\<close>









section \<open>The client\<close>




section \<open>The messages\<close>

lemma set_message_facts [simp]:
  "e_message (set_message s m) = Some s" "e_has (set_message s m) = e_has m OR 1" "e_unknown (set_message s m) = e_unknown m"
  by (simp_all add: set_message_def set_has_message_def Let_def split: option.splits)

lemma or_one_and_one: "(x OR 1) AND 1 = (1 :: 32 word)"
  by (simp add: bit.conj_disj_distrib2)

lemma set_message_has [simp]: "has_message (set_message s m)" "echo_IsInitialized (set_message s m)" "message (set_message s m) = s"
  by (simp_all add: has_message_def echo_IsInitialized_def message_def or_one_and_one)




text \<open>The parser returns on every input.\<close>

lemma echo_parse_total:
  assumes "reading_laws w"
  shows "echo_parse w inp m \<noteq> None"
proof (induction "length inp" arbitrary: inp m rule: less_induct)
  case less
  obtain t r where t: "ReadTag w inp = (t, r)" by fastforce
  obtain ok s r1 where s: "ReadString w r = (ok, s, r1)" by (metis prod_cases3)
  obtain ok2 u r2 where u: "SkipField w r t (e_unknown m) = (ok2, u, r2)" by (metis prod_cases3)
  have "t \<noteq> 0 \<Longrightarrow> length r < length inp" using assms t by (simp add: reading_laws_def)
  moreover have "length r1 \<le> length r" using assms s by (simp add: reading_laws_def)
  moreover have "length r2 \<le> length r" using assms u by (simp add: reading_laws_def)
  ultimately have "t \<noteq> 0 \<Longrightarrow> length r1 < length inp \<and> length r2 < length inp" by simp
  then show ?case using t s u less by (subst echo_parse.simps) (simp add: Let_def del: not_None_eq)
qed

lemma echo_ByteSize_exact:
  assumes "size_laws w" and "length (echo_Serialize w m) < 2 ^ 31"
  shows "fst (echo_ByteSize w m) = int (length (echo_Serialize w m))"
proof -
  have bit: "e_has m AND 0xff \<noteq> 0" if "has_message m"
  proof
    assume z: "e_has m AND 0xff = 0"
    have "e_has m AND 1 = (e_has m AND 0xff) AND 1" by (simp add: and.assoc)
    then show False using that z by (simp add: has_message_def)
  qed
  have ser: "echo_Serialize w m = opt (has_message m) (WriteString w 1 (message m)) @
      opt (\<not> UnknownEmpty w (e_unknown m)) (SerializeUnknownFields w (e_unknown m))" by (simp add: echo_Serialize_def opt_def)
  have sz: "sized (WriteString w 1 s) (1 + StringSize w s)" "sized (SerializeUnknownFields w u) (ComputeUnknownFieldsSize w u)" for s u
    using assms(1) by (simp_all add: size_laws_def)
  have "add_size (has_message m) (StringSize w (message m)) 0 = int (length (opt (has_message m) (WriteString w 1 (message m))))"
    using add_size_exact [OF sz(1), of 0 "has_message m"] assms(2) ser by simp
  then show ?thesis using bit sz(2) [of "e_unknown m"] assms(2) ser
    by (cases "has_message m") (auto simp: echo_ByteSize_def opt_def sized_def int_wrap_small Let_def)
qed



section \<open>The envelopes\<close>
























end
