(* ===== verification/Thread_Storage.thy ===== *)
theory Thread_Storage
  imports Atp_Prelude Step_System
begin

text \<open>
  \<open>app/atp_thread_storage.hpp\<close>: a variable with one heap block per thread, behind a pthread key that is
  made on first use. The state has the static \<open>struct threadstorage\<close> (\<open>ts_key\<close>, \<open>ts_once\<close>; \<open>ts_made\<close> says that its key could be made), what the
  pthread library keeps (\<open>keys\<close>, the keys made so far in the process, and \<open>slots\<close>, the value of a key in
  a thread) and the blocks of the C heap that belong to the variable. The answers of
  \<open>pthread_key_create\<close>, \<open>calloc\<close> and \<open>pthread_setspecific\<close> are arguments.
\<close>

record 'b storage =
  ts_key :: nat
  ts_once :: bool
  ts_made :: bool
  keys :: "nat set"
  slots :: "nat \<Rightarrow> nat \<rightharpoonup> nat"
  blocks :: "nat \<rightharpoonup> 'b"
  next_block :: nat

record tls_env =
  te_key :: "nat option"
  te_calloc :: bool
  te_set :: bool

section \<open>The pthread library\<close>

text \<open>A new key has no value in any thread.\<close>

definition pthread_key_create :: "nat option \<Rightarrow> ('b, 'z) storage_scheme \<Rightarrow> ('b, 'z) storage_scheme" where
  "pthread_key_create answer s =
     (case answer of
        None \<Rightarrow> s
      | Some k \<Rightarrow> s\<lparr>ts_key := k, ts_made := True, keys := insert k (keys s), slots := (\<lambda>t. (slots s t)(k := None))\<rparr>)"

definition pthread_getspecific :: "nat \<Rightarrow> ('b, 'z) storage_scheme \<Rightarrow> nat option" where
  "pthread_getspecific tid s = slots s tid (ts_key s)"

definition EINVAL_code :: int where "EINVAL_code = 22"

definition ENOMEM_code :: int where "ENOMEM_code = 12"

definition pthread_setspecific :: "bool \<Rightarrow> nat \<Rightarrow> nat option \<Rightarrow> ('b, 'z) storage_scheme \<Rightarrow> int \<times> ('b, 'z) storage_scheme" where
  "pthread_setspecific memory tid p s =
     (if ts_key s \<notin> keys s then (EINVAL_code, s)
      else if \<not> memory then (ENOMEM_code, s)
      else (0, s\<lparr>slots := (slots s)(tid := (slots s tid)(ts_key s := p))\<rparr>))"

section \<open>Operations\<close>

text \<open>The static initialiser; another part of the program may have made keys before.\<close>

definition threadstorage_static :: "('b, 'z) storage_scheme \<Rightarrow> ('b, 'z) storage_scheme" where
  "threadstorage_static s = s\<lparr>ts_key := 0, ts_once := False, ts_made := False\<rparr>"

text \<open>\<open>pthread_once\<close> with \<open>key_init\<close>, which ignores the result of \<open>pthread_key_create\<close>.\<close>

definition key_init :: "tls_env \<Rightarrow> ('b, 'z) storage_scheme \<Rightarrow> ('b, 'z) storage_scheme" where
  "key_init env s = (if ts_once s then s else (pthread_key_create (te_key env) s)\<lparr>ts_once := True\<rparr>)"

text \<open>
  \<open>init\<close> is \<open>custom_init\<close>, if there is one: it gets the address of the new block and says whether it
  failed. \<open>zero\<close> is the content of a block from \<open>calloc\<close>.
\<close>

definition threadstorage_get ::
  "'b \<Rightarrow> (nat \<Rightarrow> ('b, 'z) storage_scheme \<Rightarrow> bool \<times> ('b, 'z) storage_scheme) option \<Rightarrow> tls_env \<Rightarrow> nat \<Rightarrow>
   ('b, 'z) storage_scheme \<Rightarrow> nat option \<times> ('b, 'z) storage_scheme" where
  "threadstorage_get zero init env tid s =
     (let s1 = key_init env s in
      case pthread_getspecific tid s1 of
        Some buf \<Rightarrow> (Some buf, s1)
      | None \<Rightarrow>
          if \<not> te_calloc env then (None, s1)
          else let buf = next_block s1;
                   s2 = s1\<lparr>blocks := (blocks s1)(buf \<mapsto> zero), next_block := Suc buf\<rparr>;
                   (failed, s3) = (case init of None \<Rightarrow> (False, s2) | Some f \<Rightarrow> f buf s2)
               in if failed then (None, s3\<lparr>blocks := (blocks s3)(buf := None)\<rparr>)
                  else (Some buf, snd (pthread_setspecific (te_set env) tid (Some buf) s3)))"

definition threadstorage_get_ptr :: "tls_env \<Rightarrow> nat \<Rightarrow> ('b, 'z) storage_scheme \<Rightarrow> nat option \<times> ('b, 'z) storage_scheme" where
  "threadstorage_get_ptr env tid s = (let s1 = key_init env s in (pthread_getspecific tid s1, s1))"

definition threadstorage_set_ptr ::
  "tls_env \<Rightarrow> nat \<Rightarrow> nat option \<Rightarrow> ('b, 'z) storage_scheme \<Rightarrow> int \<times> ('b, 'z) storage_scheme" where
  "threadstorage_set_ptr env tid p s = pthread_setspecific (te_set env) tid p (key_init env s)"

text \<open>
  The end of a thread: the pthread library sets the values of the thread to null and calls the
  function given to \<open>pthread_key_create\<close> with the old one; \<open>cleanup\<close> is the rest of that function, after
  which the block is freed.
\<close>

definition thread_exit ::
  "(nat \<Rightarrow> ('b, 'z) storage_scheme \<Rightarrow> ('b, 'z) storage_scheme) \<Rightarrow> nat \<Rightarrow> ('b, 'z) storage_scheme \<Rightarrow> ('b, 'z) storage_scheme" where
  "thread_exit cleanup tid s =
     (let s1 = s\<lparr>slots := (slots s)(tid := Map.empty)\<rparr> in
      case (if ts_made s then pthread_getspecific tid s else None) of
        None \<Rightarrow> s1
      | Some buf \<Rightarrow> (let s2 = cleanup buf s1 in s2\<lparr>blocks := (blocks s2)(buf := None)\<rparr>))"

section \<open>One block per thread\<close>

text \<open>What \<open>custom_init\<close> (of a block that exists) and \<open>cleanup\<close> may change: the content of blocks, and state
  outside the storage.\<close>

definition frame :: "('b, 'z) storage_scheme \<Rightarrow> ('b, 'z) storage_scheme \<Rightarrow> bool" where
  "frame s s' \<longleftrightarrow> ts_key s' = ts_key s \<and> ts_once s' = ts_once s \<and> ts_made s' = ts_made s \<and> keys s' = keys s \<and>
     slots s' = slots s \<and> dom (blocks s') = dom (blocks s) \<and> next_block s' = next_block s"

definition init_frame :: "(nat \<Rightarrow> ('b, 'z) storage_scheme \<Rightarrow> bool \<times> ('b, 'z) storage_scheme) option \<Rightarrow> bool" where
  "init_frame init \<longleftrightarrow> (\<forall>f. init = Some f \<longrightarrow> (\<forall>buf s. blocks s buf \<noteq> None \<longrightarrow> frame s (snd (f buf s))))"

definition cleanup_frame :: "(nat \<Rightarrow> ('b, 'z) storage_scheme \<Rightarrow> ('b, 'z) storage_scheme) \<Rightarrow> bool" where
  "cleanup_frame cleanup \<longleftrightarrow> (\<forall>buf s. frame s (cleanup buf s))"

text \<open>The pthread library makes the key, if it is still to be made, and stores the value.\<close>

definition granted_tls :: "tls_env \<Rightarrow> ('b, 'z) storage_scheme \<Rightarrow> bool" where
  "granted_tls env s \<longleftrightarrow> te_set env \<and> (\<exists>k. te_key env = Some k \<and> k \<notin> keys s)"

inductive tls_step for zero init cleanup where
  get: "granted_tls env s \<Longrightarrow> tls_step zero init cleanup s (snd (threadstorage_get zero init env tid s))"
| exit: "tls_step zero init cleanup s (thread_exit cleanup tid s)"
| other: "\<not> ts_made s \<or> k \<noteq> ts_key s \<Longrightarrow>
    tls_step zero init cleanup s (s\<lparr>keys := insert k (keys s), slots := (slots s)(t := (slots s t)(k := p))\<rparr>)"

text \<open>Every block of the storage is the value of exactly one thread, and nothing else is.\<close>

definition owner :: "('b, 'z) storage_scheme \<Rightarrow> nat \<Rightarrow> nat option" where
  "owner s t = (if ts_made s then slots s t (ts_key s) else None)"

definition tls_inv :: "('b, 'z) storage_scheme \<Rightarrow> bool" where
  "tls_inv s \<longleftrightarrow> ts_made s = ts_once s \<and> (ts_made s \<longrightarrow> ts_key s \<in> keys s) \<and>
     (\<forall>b. blocks s b \<noteq> None \<longleftrightarrow> (\<exists>t. owner s t = Some b)) \<and>
     (\<forall>t t' b. owner s t = Some b \<and> owner s t' = Some b \<longrightarrow> t = t') \<and>
     (\<forall>t b. owner s t = Some b \<longrightarrow> b < next_block s)"

lemma tls_invD:
  assumes "tls_inv s"
  shows "ts_made s = ts_once s" and "ts_made s \<longrightarrow> ts_key s \<in> keys s" and "blocks s b \<noteq> None \<longleftrightarrow> (\<exists>t. owner s t = Some b)"
    and "owner s t = Some b \<Longrightarrow> owner s t' = Some b \<Longrightarrow> t = t'" and "owner s t = Some b \<Longrightarrow> b < next_block s"
  using assms unfolding tls_inv_def by blast+

lemma key_init_inv:
  assumes "tls_inv s" and "granted_tls env s"
  shows "tls_inv (key_init env s)" "ts_made (key_init env s)" "owner (key_init env s) = owner s" "blocks (key_init env s) = blocks s"
    "next_block (key_init env s) = next_block s"
proof -
  obtain k where k: "te_key env = Some k" "k \<notin> keys s" using assms(2) by (auto simp: granted_tls_def)
  have eq: "key_init env s = (if ts_once s then s else
      s\<lparr>ts_key := k, ts_made := True, keys := insert k (keys s), slots := (\<lambda>t. (slots s t)(k := None)), ts_once := True\<rparr>)"
    using k by (simp add: key_init_def pthread_key_create_def)
  show o: "owner (key_init env s) = owner s" "ts_made (key_init env s)" "blocks (key_init env s) = blocks s"
    "next_block (key_init env s) = next_block s"
    using assms(1) by (auto simp: eq owner_def tls_inv_def fun_eq_iff)
  show "tls_inv (key_init env s)" using assms(1) o unfolding tls_inv_def by (auto simp: eq)
qed

text \<open>A new block becomes the value of a thread that had none.\<close>

lemma tls_inv_give:
  assumes "tls_inv s" and "ts_made s" and "owner s tid = None" and "owner s' = (owner s)(tid \<mapsto> next_block s)"
    and "dom (blocks s') = insert (next_block s) (dom (blocks s))" and "next_block s' = Suc (next_block s)"
    and "ts_made s' = ts_made s" and "ts_once s' = ts_once s" and "ts_key s' \<in> keys s'"
  shows "tls_inv s'"
proof -
  have fresh: "owner s t \<noteq> Some (next_block s)" for t using assms(1) by (auto simp: tls_inv_def)
  have "blocks s' b \<noteq> None \<longleftrightarrow> (\<exists>t. owner s' t = Some b)" for b
  proof -
    have "blocks s' b \<noteq> None \<longleftrightarrow> b = next_block s \<or> blocks s b \<noteq> None" using assms(5) by (auto simp: dom_def set_eq_iff)
    also have "\<dots> \<longleftrightarrow> b = next_block s \<or> (\<exists>t. owner s t = Some b)" using assms(1) by (simp add: tls_inv_def)
    also have "\<dots> \<longleftrightarrow> (\<exists>t. owner s' t = Some b)" unfolding assms(4) using assms(3) by (auto simp: fun_upd_def) (metis option.distinct(1))
    finally show ?thesis .
  qed
  moreover have "t = t'" if "owner s' t = Some b" "owner s' t' = Some b" for t t' b
    using that assms(1) fresh unfolding assms(4) tls_inv_def by (auto split: if_splits)
  moreover have "b < next_block s'" if "owner s' t = Some b" for t b
    using that assms(1,6) unfolding assms(4) tls_inv_def by (auto split: if_splits intro: less_SucI)
  ultimately show ?thesis using assms(1,2,7-9) by (simp add: tls_inv_def)
qed

text \<open>The value of a thread, and its block, are taken away.\<close>

lemma tls_inv_take:
  assumes "tls_inv s" and "owner s' = (owner s)(tid := None)" and "dom (blocks s') = dom (blocks s) - set_option (owner s tid)"
    and "next_block s' = next_block s" and "ts_made s' = ts_made s" and "ts_once s' = ts_once s" and "ts_made s \<longrightarrow> ts_key s' \<in> keys s'"
  shows "tls_inv s'"
proof -
  have "blocks s' b \<noteq> None \<longleftrightarrow> (\<exists>t. owner s' t = Some b)" for b
  proof -
    have "blocks s' b \<noteq> None \<longleftrightarrow> blocks s b \<noteq> None \<and> owner s tid \<noteq> Some b" using assms(3) by (auto simp: dom_def set_eq_iff)
    also have "\<dots> \<longleftrightarrow> (\<exists>t. owner s t = Some b) \<and> owner s tid \<noteq> Some b" using assms(1) by (simp add: tls_inv_def)
    also have "\<dots> \<longleftrightarrow> (\<exists>t. owner s' t = Some b)" unfolding assms(2) using assms(1) by (auto simp: tls_inv_def)
    finally show ?thesis .
  qed
  then show ?thesis using assms(1,4-7) unfolding assms(2) tls_inv_def by (simp add: assms(2))
qed

text \<open>\<open>threadstorage_get\<close> by cases.\<close>

lemma get_cases:
  assumes "tls_inv s" and "granted_tls env s" and "init_frame init"
  obtains (present) b where "owner s tid = Some b" "threadstorage_get zero init env tid s = (Some b, key_init env s)"
  | (refused) s' where "owner s tid = None" "threadstorage_get zero init env tid s = (None, s')" "frame (key_init env s) (s'\<lparr>next_block := next_block s\<rparr>)"
      "next_block s \<le> next_block s'"
  | (given) s' where "owner s tid = None" "threadstorage_get zero init env tid s = (Some (next_block s), s')" "tls_inv s'" "ts_once s'"
      "owner s' = (owner s)(tid \<mapsto> next_block s)"
proof -
  define s1 where "s1 = key_init env s"
  note k = key_init_inv [OF assms(1,2), folded s1_def]
  have own: "pthread_getspecific t s1 = owner s t" for t using k(2,3) by (simp add: pthread_getspecific_def owner_def fun_eq_iff)
  show thesis
  proof (cases "owner s tid")
    case (Some b)
    then show ?thesis using present own by (simp add: threadstorage_get_def s1_def [symmetric])
  next
    case None
    show ?thesis
    proof (cases "te_calloc env")
      case False
      then show ?thesis using refused [OF None, of s1] None own k(5)
        by (simp add: threadstorage_get_def s1_def [symmetric] frame_def)
    next
      case True
      define buf where "buf = next_block s1"
      define s2 where "s2 = s1\<lparr>blocks := (blocks s1)(buf \<mapsto> zero), next_block := Suc buf\<rparr>"
      obtain failed s3 where s3: "(case init of None \<Rightarrow> (False, s2) | Some f \<Rightarrow> f buf s2) = (failed, s3)" by fastforce
      have fr: "frame s2 s3"
      proof (cases init)
        case None
        then show ?thesis using s3 by (simp add: frame_def)
      next
        case (Some f)
        then have "s3 = snd (f buf s2)" using s3 by simp
        moreover have "blocks s2 buf \<noteq> None" by (simp add: s2_def)
        ultimately show ?thesis using assms(3) Some by (simp add: init_frame_def)
      qed
      have fresh: "blocks s1 buf = None" using k(1) unfolding tls_inv_def buf_def by (metis less_irrefl)
      have get: "threadstorage_get zero init env tid s =
          (if failed then (None, s3\<lparr>blocks := (blocks s3)(buf := None)\<rparr>)
           else (Some buf, snd (pthread_setspecific (te_set env) tid (Some buf) s3)))"
        using True None own s3 [unfolded s2_def buf_def] by (simp add: threadstorage_get_def s1_def [symmetric] buf_def Let_def)
      show ?thesis
      proof (cases failed)
        case True
        have "dom ((blocks s3)(buf := None)) = dom (blocks s1)" using fr fresh by (auto simp: frame_def s2_def)
        then show ?thesis using refused [OF None, of "s3\<lparr>blocks := (blocks s3)(buf := None)\<rparr>"] True get fr k(5)
          by (simp add: frame_def s2_def s1_def [symmetric] buf_def)
      next
        case False
        define s4 where "s4 = s3\<lparr>slots := (slots s3)(tid := (slots s3 tid)(ts_key s3 \<mapsto> buf))\<rparr>"
        have key: "ts_key s3 = ts_key s1" "keys s3 = keys s1" "ts_key s1 \<in> keys s1" "slots s3 = slots s1" "ts_made s3" "ts_once s3"
          using fr k(1,2) by (auto simp: frame_def s2_def tls_inv_def)
        have set: "snd (pthread_setspecific (te_set env) tid (Some buf) s3) = s4"
          using assms(2) key by (simp add: pthread_setspecific_def granted_tls_def s4_def)
        have o4: "owner s4 = (owner s1)(tid \<mapsto> buf)" using key k(2) by (auto simp: owner_def s4_def fun_eq_iff)
        have "tls_inv s4"
        proof (rule tls_inv_give [OF k(1,2), of tid])
          show "owner s1 tid = None" using None k(3) by simp
          show "owner s4 = (owner s1)(tid \<mapsto> next_block s1)" using o4 by (simp add: buf_def)
          show "dom (blocks s4) = insert (next_block s1) (dom (blocks s1))" "next_block s4 = Suc (next_block s1)"
            using fr by (simp_all add: s4_def frame_def s2_def buf_def)
          show "ts_made s4 = ts_made s1" "ts_once s4 = ts_once s1" "ts_key s4 \<in> keys s4"
            using fr key by (simp_all add: s4_def frame_def s2_def)
        qed
        then show ?thesis using given [OF None, of s4] get False set o4 k(3,5) key(6) by (simp add: buf_def s4_def)
      qed
    qed
  qed
qed

lemma owner_blocks [simp]: "owner (s\<lparr>blocks := x\<rparr>) = owner s"
  by (simp add: owner_def fun_eq_iff)

lemma frame_owner: "frame s s' \<Longrightarrow> owner s' = owner s"
  by (simp add: frame_def owner_def fun_eq_iff)

lemma tls_inv_frame:
  assumes "tls_inv s" and "frame s (s'\<lparr>next_block := next_block s\<rparr>)" and "next_block s \<le> next_block s'"
  shows "tls_inv s'"
proof -
  have o: "owner s' = owner s" using assms(2) by (simp add: frame_def owner_def fun_eq_iff)
  have d: "blocks s' b \<noteq> None \<longleftrightarrow> blocks s b \<noteq> None" for b using assms(2) by (auto simp: frame_def dom_def set_eq_iff)
  have "b < next_block s'" if "owner s t = Some b" for t b using tls_invD(5) [OF assms(1) that] assms(3) by simp
  then show ?thesis using assms(1,2) unfolding tls_inv_def o d by (simp add: frame_def)
qed

lemma get_keeps:
  assumes "tls_inv s" and "granted_tls env s" and "init_frame init"
  shows "tls_inv (snd (threadstorage_get zero init env tid s))"
  using assms
proof (cases rule: get_cases [of s env init tid zero])
  case (refused s')
  then show ?thesis using tls_inv_frame [OF key_init_inv(1) [OF assms(1,2)], of s'] key_init_inv(5) [OF assms(1,2)] by simp
qed (use key_init_inv(1) [OF assms(1,2)] in simp_all)

lemma thread_exit_owner:
  "thread_exit cleanup tid s =
     (let s1 = s\<lparr>slots := (slots s)(tid := Map.empty)\<rparr> in
      case owner s tid of None \<Rightarrow> s1 | Some buf \<Rightarrow> (let s2 = cleanup buf s1 in s2\<lparr>blocks := (blocks s2)(buf := None)\<rparr>))"
  by (simp add: thread_exit_def owner_def pthread_getspecific_def Let_def)

lemma exit_keeps:
  assumes "tls_inv s" and "cleanup_frame cleanup"
  shows "tls_inv (thread_exit cleanup tid s)"
proof -
  define s1 where "s1 = s\<lparr>slots := (slots s)(tid := Map.empty)\<rparr>"
  have o1: "owner s1 = (owner s)(tid := None)" by (auto simp: owner_def s1_def fun_eq_iff)
  show ?thesis
  proof (cases "owner s tid")
    case None
    then have "thread_exit cleanup tid s = s1" by (simp add: thread_exit_owner s1_def)
    then show ?thesis using tls_inv_take [OF assms(1) o1] None tls_invD(2) [OF assms(1)] by (simp add: s1_def)
  next
    case (Some b)
    have fr: "frame s1 (cleanup b s1)" using assms(2) by (simp add: cleanup_frame_def)
    then have o2: "owner (cleanup b s1) = (owner s)(tid := None)" using o1 frame_owner [OF fr] by simp
    have "thread_exit cleanup tid s = (cleanup b s1)\<lparr>blocks := (blocks (cleanup b s1))(b := None)\<rparr>"
      using Some by (simp add: thread_exit_owner s1_def Let_def)
    moreover have "owner ((cleanup b s1)\<lparr>blocks := (blocks (cleanup b s1))(b := None)\<rparr>) = (owner s)(tid := None)"
      using o2 by simp
    ultimately show ?thesis using fr Some tls_invD(2) [OF assms(1)]
      by (intro tls_inv_take [OF assms(1), of _ tid]) (simp_all add: frame_def s1_def)
  qed
qed

lemma other_keeps:
  assumes "tls_inv s" and "\<not> ts_made s \<or> k \<noteq> ts_key s"
  shows "tls_inv (s\<lparr>keys := insert k (keys s), slots := (slots s)(t := (slots s t)(k := p))\<rparr>)"
proof -
  have "owner (s\<lparr>keys := insert k (keys s), slots := (slots s)(t := (slots s t)(k := p))\<rparr>) = owner s"
    using assms(2) by (auto simp: owner_def fun_eq_iff)
  then show ?thesis using assms(1) by (simp add: tls_inv_def)
qed

interpretation tls_steps: step_invariant "tls_step zero init cleanup" "\<lambda>s. init_frame init \<and> cleanup_frame cleanup \<and> tls_inv s" for zero init cleanup
  by unfold_locales (auto elim!: tls_step.cases intro: get_keeps exit_keeps other_keeps)

section \<open>Property\<close>

text \<open>
  C24. The storage is private to a thread. In every order of accesses and ends of threads, also with
  other keys in use: a pointer that \<open>threadstorage_get\<close> returns is a live block that no other thread
  has, the same thread gets the same pointer again, the values of other threads do not change, and
  every live block is the value of some thread, so a failing \<open>custom_init\<close> leaks nothing.
\<close>

theorem thread_storage_private:
  assumes "init_frame init" and "cleanup_frame cleanup" and "blocks s0 = Map.empty"
    and "(tls_step zero init cleanup)\<^sup>*\<^sup>* (threadstorage_static s0) s" and "granted_tls env s"
    and "threadstorage_get zero init env tid s = (p, s')"
  shows "(\<forall>b. p = Some b \<longrightarrow> blocks s' b \<noteq> None \<and> (\<forall>t. pthread_getspecific t s' = Some b \<longleftrightarrow> t = tid) \<and>
      threadstorage_get zero init env' tid s' = (Some b, s')) \<and>
    (\<forall>t. t \<noteq> tid \<longrightarrow> owner s' t = owner s t) \<and> (\<forall>b. blocks s' b \<noteq> None \<longrightarrow> (\<exists>t. pthread_getspecific t s' = Some b))"
proof -
  have "tls_inv (threadstorage_static s0)" using assms(3) by (simp add: tls_inv_def threadstorage_static_def owner_def)
  then have inv: "tls_inv s" using tls_steps.steps_keep [OF assms(4)] assms(1,2) by blast
  have inv': "tls_inv s'" using get_keeps [OF inv assms(5,1), of zero tid] assms(6) by simp
  note k = key_init_inv [OF inv assms(5)]
  have once: "ts_once s' \<and> (\<forall>b. p = Some b \<longrightarrow> owner s' tid = Some b) \<and> (\<forall>t. t \<noteq> tid \<longrightarrow> owner s' t = owner s t)"
    using inv assms(5,1)
  proof (cases rule: get_cases [of s env init tid zero])
    case (present b)
    then show ?thesis using assms(6) k(3) tls_invD(1) [OF k(1)] k(2) by auto
  next
    case (refused t)
    then have "owner s' = owner (key_init env s)" "ts_once s' = ts_once (key_init env s)" "p = None"
      using assms(6) by (simp_all add: frame_def owner_def fun_eq_iff)
    then show ?thesis using k(2,3) tls_invD(1) [OF k(1)] by simp
  next
    case (given t)
    then show ?thesis using assms(6) by auto
  qed
  have own: "pthread_getspecific t s' = owner s' t" for t
    using once tls_invD(1) [OF inv'] by (simp add: pthread_getspecific_def owner_def)
  have "threadstorage_get zero init env' tid s' = (Some b, s')" if "owner s' tid = Some b" for b
    using that once own by (simp add: threadstorage_get_def key_init_def)
  then show ?thesis using once tls_invD(3,4) [OF inv'] unfolding own by blast
qed

text \<open>Two threads use a storage without \<open>custom_init\<close>.\<close>

definition plain_storage :: "nat storage" where
  "plain_storage = \<lparr>ts_key = 0, ts_once = False, ts_made = False, keys = {}, slots = (\<lambda>_ _. None), blocks = Map.empty, next_block = 0\<rparr>"

definition sample_tls_env :: "nat \<Rightarrow> tls_env" where
  "sample_tls_env k = \<lparr>te_key = Some k, te_calloc = True, te_set = True\<rparr>"

theorem thread_storage_private_witness:
  "\<exists>s1 s2. threadstorage_get 0 None (sample_tls_env 5) 1 (threadstorage_static plain_storage) = (Some 0, s1) \<and>
     threadstorage_get 0 None (sample_tls_env 6) 2 s1 = (Some 1, s2) \<and> pthread_getspecific 1 s2 = Some 0 \<and>
     threadstorage_get 0 None (sample_tls_env 7) 2 s2 = (Some 1, s2)"
proof -
  let ?init = "None :: (nat \<Rightarrow> nat storage \<Rightarrow> bool \<times> nat storage) option" and ?cleanup = "\<lambda>(_ :: nat) (s :: nat storage). s"
  define s1 where "s1 = snd (threadstorage_get 0 ?init (sample_tls_env 5) 1 (threadstorage_static plain_storage))"
  have g1: "threadstorage_get 0 ?init (sample_tls_env 5) 1 (threadstorage_static plain_storage) = (Some 0, s1)"
    by (simp add: s1_def threadstorage_get_def key_init_def threadstorage_static_def plain_storage_def sample_tls_env_def
        pthread_key_create_def pthread_getspecific_def Let_def)
  have s1: "ts_once s1" "ts_key s1 = 5" "keys s1 = {5}" "slots s1 2 5 = None" "next_block s1 = 1" "slots s1 1 5 = Some 0"
    by (simp_all add: s1_def threadstorage_get_def key_init_def threadstorage_static_def plain_storage_def sample_tls_env_def
        pthread_key_create_def pthread_getspecific_def pthread_setspecific_def Let_def)
  obtain s2 where g2: "threadstorage_get 0 ?init (sample_tls_env 6) 2 s1 = (Some 1, s2)" and o2: "pthread_getspecific 1 s2 = Some 0"
    using s1 by (simp add: threadstorage_get_def key_init_def sample_tls_env_def pthread_getspecific_def pthread_setspecific_def Let_def)
  have "granted_tls (sample_tls_env 5) (threadstorage_static plain_storage)"
    by (simp add: granted_tls_def sample_tls_env_def threadstorage_static_def plain_storage_def)
  then have "tls_step 0 ?init ?cleanup (threadstorage_static plain_storage) s1" using tls_step.get g1 by (metis snd_conv)
  then have r: "(tls_step 0 ?init ?cleanup)\<^sup>*\<^sup>* (threadstorage_static plain_storage) s1" by simp
  have f: "init_frame ?init" "cleanup_frame ?cleanup" by (simp_all add: init_frame_def cleanup_frame_def frame_def)
  have "blocks plain_storage = Map.empty" by (simp add: plain_storage_def)
  moreover have "granted_tls (sample_tls_env 6) s1" using s1(3) by (simp add: granted_tls_def sample_tls_env_def)
  ultimately have "threadstorage_get 0 ?init (sample_tls_env 7) 2 s2 = (Some 1, s2)"
    using thread_storage_private [OF f _ r _ g2, of "sample_tls_env 7"] by simp
  then show ?thesis using g1 g2 o2 by blast
qed

end
