(* ===== verification/Curl_Engine.thy ===== *)
theory Curl_Engine
  imports Thread_Storage
begin

text \<open>
  \<open>app/atp_curl_engine.cpp\<close>: HTTP requests over libcurl. An instance has a response buffer; the libcurl
  handle behind it is the thread's, kept in a \<open>threadstorage\<close> and shared by all instances of the thread.
  A block of the storage is a variable of type \<open>CURL*\<close>.

  libcurl is its handles, each a table of the options set: \<open>curl_easy_perform\<close> passes the pieces of the
  response, an argument, to the function set as \<open>CURLOPT_WRITEFUNCTION\<close> with the pointer set as
  \<open>CURLOPT_WRITEDATA\<close>, and returns a code, also an argument. The only engine of the file,
  \<open>post_engine_impl\<close>, is called through its table of functions.
\<close>

section \<open>libcurl\<close>

datatype curl_option = CURLOPT_NOSIGNAL | CURLOPT_TIMEOUT | CURLOPT_CONNECTTIMEOUT | CURLOPT_USERAGENT
  | CURLOPT_WRITEFUNCTION | CURLOPT_WRITEDATA | CURLOPT_SSL_VERIFYPEER | CURLOPT_HTTPHEADER | CURLOPT_URL
  | CURLOPT_POSTFIELDS | CURLOPT_POSTFIELDSIZE | CURLOPT_POSTREDIR

datatype option_value = Long int | Str string | Ptr nat | On_message

record curl_instance =
  ci_curl :: nat
  ci_buff :: "byte list option"
  ci_buff_size :: nat
  ci_cursor :: nat

record curl_state = "nat option storage" +
  easies :: "nat \<rightharpoonup> (curl_option \<rightharpoonup> option_value)"
  next_easy :: nat
  instances :: "nat \<rightharpoonup> curl_instance"
  next_instance :: nat

text \<open>The answers of pthread, of \<open>curl_easy_init\<close>, and of \<open>calloc\<close> for the instance and its buffer.\<close>

record curl_env =
  ce_tls :: tls_env
  ce_easy :: bool
  ce_instance :: bool
  ce_buff :: bool

definition put_option :: "nat \<Rightarrow> curl_option \<Rightarrow> option_value \<Rightarrow> curl_state \<Rightarrow> curl_state" where
  "put_option h opt v s = s\<lparr>easies := (easies s)(h := map_option (\<lambda>m. m(opt \<mapsto> v)) (easies s h))\<rparr>"

text \<open>A null handle is refused by libcurl with an error code that the code ignores.\<close>

definition curl_easy_setopt :: "nat option \<Rightarrow> curl_option \<Rightarrow> option_value \<Rightarrow> curl_state \<Rightarrow> curl_state result" where
  "curl_easy_setopt p opt v s =
     (case p of
        None \<Rightarrow> Inr s
      | Some h \<Rightarrow> if easies s h = None then Inl UseAfterFree else Inr (put_option h opt v s))"

section \<open>The handle of a thread\<close>

definition HTTP_USERAGENT :: string where
  "HTTP_USERAGENT = ''CURL_ENGINE(1.0)''"

definition DEFAULT_BUFFER_SIZE :: nat where
  "DEFAULT_BUFFER_SIZE = 1024 * 8"

definition curl_tls_init :: "curl_env \<Rightarrow> nat \<Rightarrow> curl_state \<Rightarrow> bool \<times> curl_state" where
  "curl_tls_init env cell s =
     (if \<not> ce_easy env then (True, s\<lparr>blocks := (blocks s)(cell \<mapsto> None)\<rparr>)
      else let h = next_easy s;
               s1 = s\<lparr>blocks := (blocks s)(cell \<mapsto> Some h), easies := (easies s)(h \<mapsto> Map.empty), next_easy := Suc h\<rparr>
           in (False, put_option h CURLOPT_USERAGENT (Str HTTP_USERAGENT) (put_option h CURLOPT_CONNECTTIMEOUT (Long 5)
                 (put_option h CURLOPT_TIMEOUT (Long 30) (put_option h CURLOPT_NOSIGNAL (Long 1) s1)))))"

text \<open>\<open>curl_easy_cleanup\<close>; the block itself is freed with the thread.\<close>

definition curl_tls_cleanup :: "nat \<Rightarrow> curl_state \<Rightarrow> curl_state" where
  "curl_tls_cleanup cell s =
     (case blocks s cell of Some (Some h) \<Rightarrow> s\<lparr>easies := (easies s)(h := None)\<rparr> | _ \<Rightarrow> s)"

definition curl_thread_exit :: "nat \<Rightarrow> curl_state \<Rightarrow> curl_state" where
  "curl_thread_exit tid s = thread_exit curl_tls_cleanup tid s"

section \<open>The engine\<close>

definition get_instance :: "nat \<Rightarrow> curl_state \<Rightarrow> curl_instance result" where
  "get_instance i s = (case instances s i of None \<Rightarrow> Inl UseAfterFree | Some ins \<Rightarrow> Inr ins)"

definition set_instance :: "nat \<Rightarrow> curl_instance \<Rightarrow> curl_state \<Rightarrow> curl_state" where
  "set_instance i ins s = s\<lparr>instances := (instances s)(i \<mapsto> ins)\<rparr>"

text \<open>\<open>*instance->curl\<close>.\<close>

definition instance_handle :: "nat \<Rightarrow> curl_state \<Rightarrow> nat option result" where
  "instance_handle i s =
     bnd (get_instance i s) (\<lambda>ins. case blocks s (ci_curl ins) of None \<Rightarrow> Inl UseAfterFree | Some h \<Rightarrow> Inr h)"

definition on_message :: "nat \<Rightarrow> byte list \<Rightarrow> curl_state \<Rightarrow> curl_state result" where
  "on_message i piece s =
     bnd (get_instance i s) (\<lambda>ins.
       case ci_buff ins of
         None \<Rightarrow> Inl NullDeref
       | Some b \<Rightarrow> bnd (mem_write b (ci_cursor ins) piece) (\<lambda>b1.
           Inr (set_instance i (ins\<lparr>ci_buff := Some b1, ci_cursor := ci_cursor ins + length piece\<rparr>) s)))"

text \<open>What \<open>curl_easy_perform\<close> does with the pieces; without a function set they go to standard output.\<close>

fun deliver :: "(curl_option \<rightharpoonup> option_value) \<Rightarrow> byte list list \<Rightarrow> curl_state \<Rightarrow> curl_state result" where
  "deliver opts [] s = Inr s"
| "deliver opts (p # ps) s =
     (case (opts CURLOPT_WRITEFUNCTION, opts CURLOPT_WRITEDATA) of
        (Some On_message, Some (Ptr i)) \<Rightarrow> bnd (on_message i p s) (deliver opts ps)
      | _ \<Rightarrow> deliver opts ps s)"

definition curl_easy_perform :: "byte list list \<Rightarrow> nat option \<Rightarrow> curl_state \<Rightarrow> curl_state result" where
  "curl_easy_perform pieces p s =
     (case p of
        None \<Rightarrow> Inr s
      | Some h \<Rightarrow> (case easies s h of None \<Rightarrow> Inl UseAfterFree | Some opts \<Rightarrow> deliver opts pieces s))"

definition core_init :: "curl_env \<Rightarrow> nat \<Rightarrow> nat \<Rightarrow> curl_state \<Rightarrow> (int \<times> curl_state) result" where
  "core_init env tid i s =
     (let (p, s1) = threadstorage_get None (Some (curl_tls_init env)) (ce_tls env) tid s in
      case p of
        None \<Rightarrow> Inr (- 1, s1)
      | Some cell \<Rightarrow>
          bnd (get_instance i s1) (\<lambda>ins.
            let s2 = set_instance i (ins\<lparr>ci_curl := cell\<rparr>) s1 in
            bnd (instance_handle i s2) (\<lambda>h.
            bnd (curl_easy_setopt h CURLOPT_WRITEFUNCTION On_message s2) (\<lambda>s3.
            bnd (curl_easy_setopt h CURLOPT_WRITEDATA (Ptr i) s3) (\<lambda>s4.
              Inr (0, set_instance i (ins\<lparr>ci_curl := cell, ci_cursor := 0,
                    ci_buff := (if ce_buff env then Some (replicate DEFAULT_BUFFER_SIZE 0) else None),
                    ci_buff_size := DEFAULT_BUFFER_SIZE\<rparr>) s4))))))"

definition core_perform :: "byte list list \<Rightarrow> int \<Rightarrow> nat \<Rightarrow> curl_state \<Rightarrow> (int \<times> int \<times> curl_state) result" where
  "core_perform pieces rc i s =
     bnd (get_instance i s) (\<lambda>ins.
       let s1 = set_instance i (ins\<lparr>ci_cursor := 0\<rparr>) s in
       bnd (instance_handle i s1) (\<lambda>h.
       bnd (curl_easy_perform pieces h s1) (\<lambda>s2.
         Inr (if rc \<noteq> 0 then - 1 else 0, rc, s2))))"

definition core_setopt :: "curl_option \<Rightarrow> option_value \<Rightarrow> nat \<Rightarrow> curl_state \<Rightarrow> curl_state result" where
  "core_setopt opt v i s = bnd (instance_handle i s) (\<lambda>h. curl_easy_setopt h opt v s)"

definition core_set_ssl_verifypeer :: "nat \<Rightarrow> int \<Rightarrow> curl_state \<Rightarrow> curl_state result" where
  "core_set_ssl_verifypeer i verifypeer s = core_setopt CURLOPT_SSL_VERIFYPEER (Long verifypeer) i s"

definition core_set_headers :: "nat \<Rightarrow> nat \<Rightarrow> curl_state \<Rightarrow> curl_state result" where
  "core_set_headers i headers s = core_setopt CURLOPT_HTTPHEADER (Ptr headers) i s"

definition core_set_url :: "nat \<Rightarrow> string \<Rightarrow> curl_state \<Rightarrow> curl_state result" where
  "core_set_url i url s = core_setopt CURLOPT_URL (Str url) i s"

definition CURL_REDIR_POST_ALL :: int where "CURL_REDIR_POST_ALL = 7"

definition core_set_data :: "nat \<Rightarrow> nat \<Rightarrow> int \<Rightarrow> curl_state \<Rightarrow> curl_state result" where
  "core_set_data i data sz s =
     bnd (core_setopt CURLOPT_POSTFIELDS (Ptr data) i s) (\<lambda>s1.
     bnd (core_setopt CURLOPT_POSTFIELDSIZE (Long sz) i s1) (\<lambda>s2.
       core_setopt CURLOPT_POSTREDIR (Long CURL_REDIR_POST_ALL) i s2))"

text \<open>\<open>data\<close> is the object behind the caller's pointer.\<close>

definition core_get_data :: "nat \<Rightarrow> byte list \<Rightarrow> int \<Rightarrow> curl_state \<Rightarrow> byte list result" where
  "core_get_data i data sz s =
     bnd (get_instance i s) (\<lambda>ins.
       if sz < int (ci_cursor ins) then Inr data
       else bnd (mem_write data 0 (replicate (nat sz) 0)) (\<lambda>data1.
         case ci_buff ins of
           None \<Rightarrow> if ci_cursor ins = 0 then Inr data1 else Inl NullDeref
         | Some b \<Rightarrow> bnd (mem_read b 0 (ci_cursor ins)) (\<lambda>bs. mem_write data1 0 bs)))"

definition core_destroy :: "nat \<Rightarrow> curl_state \<Rightarrow> curl_state result" where
  "core_destroy i s = bnd (get_instance i s) (\<lambda>ins. Inr (s\<lparr>instances := (instances s)(i := None)\<rparr>))"

section \<open>The interface\<close>

definition curl_instance_new :: "curl_env \<Rightarrow> nat \<Rightarrow> curl_state \<Rightarrow> (nat option \<times> curl_state) result" where
  "curl_instance_new env tid s =
     (if \<not> ce_instance env then Inr (None, s)
      else let i = next_instance s;
               s1 = s\<lparr>instances := (instances s)(i \<mapsto> \<lparr>ci_curl = 0, ci_buff = None, ci_buff_size = 0, ci_cursor = 0\<rparr>),
                      next_instance := Suc i\<rparr>
           in bnd (core_init env tid i s1) (\<lambda>(r, s2).
                if r \<noteq> 0 then Inr (None, s2\<lparr>instances := (instances s2)(i := None)\<rparr>) else Inr (Some i, s2)))"

text \<open>Every other function finds the engine in the instance and calls its member.\<close>

definition through_engine :: "nat \<Rightarrow> curl_state \<Rightarrow> (curl_state \<Rightarrow> 'r result) \<Rightarrow> 'r result" where
  "through_engine i s f = bnd (get_instance i s) (\<lambda>_. f s)"

definition curl_instance_perform :: "byte list list \<Rightarrow> int \<Rightarrow> nat \<Rightarrow> curl_state \<Rightarrow> (int \<times> int \<times> curl_state) result" where
  "curl_instance_perform pieces rc i s = through_engine i s (core_perform pieces rc i)"

definition curl_instance_set_ssl_verifypeer :: "nat \<Rightarrow> int \<Rightarrow> curl_state \<Rightarrow> curl_state result" where
  "curl_instance_set_ssl_verifypeer i verifypeer s = through_engine i s (core_set_ssl_verifypeer i verifypeer)"

definition curl_instance_set_headers :: "nat \<Rightarrow> nat \<Rightarrow> curl_state \<Rightarrow> curl_state result" where
  "curl_instance_set_headers i headers s = through_engine i s (core_set_headers i headers)"

definition curl_instance_set_request_url :: "nat \<Rightarrow> string \<Rightarrow> curl_state \<Rightarrow> curl_state result" where
  "curl_instance_set_request_url i url s = through_engine i s (core_set_url i url)"

definition curl_instance_set_post_data :: "nat \<Rightarrow> nat \<Rightarrow> int \<Rightarrow> curl_state \<Rightarrow> curl_state result" where
  "curl_instance_set_post_data i data sz s = through_engine i s (core_set_data i data sz)"

definition curl_instance_get_post_data :: "nat \<Rightarrow> byte list \<Rightarrow> int \<Rightarrow> curl_state \<Rightarrow> byte list result" where
  "curl_instance_get_post_data i data sz s = through_engine i s (core_get_data i data sz)"

definition curl_instance_destroy :: "nat \<Rightarrow> curl_state \<Rightarrow> curl_state result" where
  "curl_instance_destroy i s = through_engine i s (core_destroy i)"

section \<open>Handles\<close>

text \<open>Every block of the storage has a live handle of its own.\<close>

definition handles_ok :: "(nat \<rightharpoonup> nat option) \<Rightarrow> (nat \<rightharpoonup> 'o) \<Rightarrow> nat \<Rightarrow> bool" where
  "handles_ok B E n \<longleftrightarrow> (\<forall>c h. B c = Some h \<longrightarrow> (\<exists>x<n. h = Some x \<and> E x \<noteq> None)) \<and>
     (\<forall>c c' x. B c = Some (Some x) \<and> B c' = Some (Some x) \<longrightarrow> c = c')"

definition curl_inv :: "curl_state \<Rightarrow> bool" where
  "curl_inv s \<longleftrightarrow> tls_inv s \<and> handles_ok (blocks s) (easies s) (next_easy s) \<and> (\<forall>i. next_instance s \<le> i \<longrightarrow> instances s i = None)"

lemma handles_new: "handles_ok B E n \<Longrightarrow> handles_ok (B(c \<mapsto> Some n)) (E(n \<mapsto> m)) (Suc n)"
  unfolding handles_ok_def by (auto simp: less_Suc_eq split: if_splits) (metis less_irrefl option.inject)+

lemma handles_change: "handles_ok B E n \<Longrightarrow> dom E \<subseteq> dom E' \<Longrightarrow> handles_ok B E' n"
  unfolding handles_ok_def by (blast intro: domI dest: domD)

lemma handles_gone:
  assumes "handles_ok B E n" and "B c = Some (Some h)"
  shows "handles_ok (B(c := None)) (E(h := None)) n"
  using assms unfolding handles_ok_def by (auto split: if_splits) metis

lemma handles_drop: "handles_ok B E n \<Longrightarrow> handles_ok (B(c := None)) E n"
  unfolding handles_ok_def by (auto split: if_splits)

lemma init_frame_curl: "init_frame (Some (curl_tls_init env))"
  by (auto simp: init_frame_def frame_def curl_tls_init_def put_option_def Let_def)

lemma cleanup_frame_curl: "cleanup_frame curl_tls_cleanup"
  by (auto simp: cleanup_frame_def frame_def curl_tls_cleanup_def split: option.splits)

lemma key_init_curl [simp]:
  "easies (key_init env s) = easies s" "next_easy (key_init env s) = next_easy s" "instances (key_init env s) = instances s"
  "next_instance (key_init env s) = next_instance s"
  by (simp_all add: key_init_def pthread_key_create_def split: option.splits)

lemma set_specific_curl [simp]:
  "easies (snd (pthread_setspecific m t p s)) = easies s" "next_easy (snd (pthread_setspecific m t p s)) = next_easy s"
  "instances (snd (pthread_setspecific m t p s)) = instances s" "next_instance (snd (pthread_setspecific m t p s)) = next_instance s"
  "blocks (snd (pthread_setspecific m t p s)) = blocks s"
  by (simp_all add: pthread_setspecific_def)

definition default_options :: "curl_option \<rightharpoonup> option_value" where
  "default_options = [CURLOPT_NOSIGNAL \<mapsto> Long 1, CURLOPT_TIMEOUT \<mapsto> Long 30, CURLOPT_CONNECTTIMEOUT \<mapsto> Long 5,
     CURLOPT_USERAGENT \<mapsto> Str HTTP_USERAGENT]"

text \<open>The first access of a thread makes its handle.\<close>

lemma curl_get_new:
  assumes "tls_inv s" and "granted_tls (ce_tls env) s" and "owner s tid = None" and "te_calloc (ce_tls env)"
  shows "\<exists>p s'. threadstorage_get None (Some (curl_tls_init env)) (ce_tls env) tid s = (p, s') \<and>
    instances s' = instances s \<and> next_instance s' = next_instance s \<and>
    (if ce_easy env
     then p = Some (next_block s) \<and> owner s' = (owner s)(tid \<mapsto> next_block s) \<and> blocks s' = (blocks s)(next_block s \<mapsto> Some (next_easy s)) \<and>
       next_easy s' = Suc (next_easy s) \<and> easies s' = (easies s)(next_easy s \<mapsto> default_options)
     else p = None \<and> blocks s' = (blocks s)(next_block s := None) \<and> easies s' = easies s \<and> next_easy s' = next_easy s)"
proof -
  note k = key_init_inv [OF assms(1,2)]
  have n: "pthread_getspecific tid (key_init (ce_tls env) s) = None"
    using k(2,3) assms(3) unfolding pthread_getspecific_def by (metis owner_def)
  obtain p s' where g: "threadstorage_get None (Some (curl_tls_init env)) (ce_tls env) tid s = (p, s')" by fastforce
  have "ce_easy env \<Longrightarrow> owner s' = (owner s)(tid \<mapsto> next_block s)"
    using assms(1,2) init_frame_curl [of env]
  proof (cases rule: get_cases [of s "ce_tls env" "Some (curl_tls_init env)" tid None])
    case (refused t)
    assume "ce_easy env"
    then show ?thesis using refused(2) n assms(4) by (simp add: threadstorage_get_def curl_tls_init_def Let_def)
  qed (use assms(3) g in auto)
  moreover have "s' = snd (threadstorage_get None (Some (curl_tls_init env)) (ce_tls env) tid s)"
    "p = fst (threadstorage_get None (Some (curl_tls_init env)) (ce_tls env) tid s)" using g by simp_all
  ultimately show ?thesis using g n assms(4) k(4,5)
    by (simp add: threadstorage_get_def curl_tls_init_def put_option_def default_options_def Let_def)
qed

lemma tls_inv_curl [simp]:
  "tls_inv (s\<lparr>easies := e\<rparr>) = tls_inv s" "tls_inv (s\<lparr>instances := x\<rparr>) = tls_inv s" "tls_inv (s\<lparr>next_instance := n\<rparr>) = tls_inv s"
  by (simp_all add: tls_inv_def owner_def)

lemma owner_curl [simp]:
  "owner (s\<lparr>instances := x\<rparr>) = owner s" "owner (s\<lparr>instances := x, next_instance := n\<rparr>) = owner s" "owner (s\<lparr>easies := e\<rparr>) = owner s"
  by (simp_all add: owner_def fun_eq_iff)

lemma handles_live: "handles_ok B E n \<Longrightarrow> B c = Some h \<Longrightarrow> \<exists>x. h = Some x \<and> E x \<noteq> None"
  unfolding handles_ok_def by blast

lemma curl_get_keeps:
  assumes "curl_inv s" and "granted_tls (ce_tls env) s"
  shows "curl_inv (snd (threadstorage_get None (Some (curl_tls_init env)) (ce_tls env) tid s))"
proof -
  have t: "tls_inv s" and h: "handles_ok (blocks s) (easies s) (next_easy s)" and n: "\<forall>i. next_instance s \<le> i \<longrightarrow> instances s i = None"
    using assms(1) by (simp_all add: curl_inv_def)
  note k = key_init_inv [OF t assms(2)]
  have t': "tls_inv (snd (threadstorage_get None (Some (curl_tls_init env)) (ce_tls env) tid s))"
    by (rule get_keeps [OF t assms(2) init_frame_curl])
  have init: "curl_inv (key_init (ce_tls env) s)" using k h n by (simp add: curl_inv_def)
  show ?thesis
  proof (cases "owner s tid = None \<and> te_calloc (ce_tls env)")
    case True
    then obtain p s' where "threadstorage_get None (Some (curl_tls_init env)) (ce_tls env) tid s = (p, s')"
      "instances s' = instances s" "next_instance s' = next_instance s"
      "if ce_easy env then blocks s' = (blocks s)(next_block s \<mapsto> Some (next_easy s)) \<and> next_easy s' = Suc (next_easy s) \<and>
           easies s' = (easies s)(next_easy s \<mapsto> default_options)
         else blocks s' = (blocks s)(next_block s := None) \<and> easies s' = easies s \<and> next_easy s' = next_easy s"
      using curl_get_new [OF t assms(2), of tid] by (auto split: if_splits)
    then show ?thesis using t' n handles_new [OF h] handles_drop [OF h] by (auto simp: curl_inv_def split: if_splits)
  next
    case False
    have "pthread_getspecific tid (key_init (ce_tls env) s) = owner s tid"
      using k(2,3) unfolding pthread_getspecific_def by (metis owner_def)
    then have "snd (threadstorage_get None (Some (curl_tls_init env)) (ce_tls env) tid s) = key_init (ce_tls env) s"
      using False by (auto simp: threadstorage_get_def Let_def split: option.splits)
    then show ?thesis using init by simp
  qed
qed

lemma exit_keeps_curl:
  assumes "curl_inv s"
  shows "curl_inv (curl_thread_exit tid s)"
proof -
  have t: "tls_inv s" and h: "handles_ok (blocks s) (easies s) (next_easy s)" and n: "\<forall>i. next_instance s \<le> i \<longrightarrow> instances s i = None"
    using assms by (simp_all add: curl_inv_def)
  have t': "tls_inv (curl_thread_exit tid s)" unfolding curl_thread_exit_def by (rule exit_keeps [OF t cleanup_frame_curl])
  show ?thesis
  proof (cases "owner s tid")
    case None
    then show ?thesis using t' h n by (simp add: curl_inv_def curl_thread_exit_def thread_exit_owner)
  next
    case (Some c)
    then obtain x where x: "blocks s c = Some (Some x)" using tls_invD(3) [OF t, of c] handles_live [OF h] by blast
    then show ?thesis using t' handles_gone [OF h x] n Some
      by (simp add: curl_inv_def curl_thread_exit_def thread_exit_owner curl_tls_cleanup_def)
  qed
qed

lemma setopt_keeps: "curl_easy_setopt p opt v s = Inr s' \<Longrightarrow> curl_inv s \<Longrightarrow> curl_inv s'"
proof -
  assume a: "curl_easy_setopt p opt v s = Inr s'" and inv: "curl_inv s"
  show "curl_inv s'"
  proof (cases p)
    case (Some h)
    then have s': "s' = put_option h opt v s" using a by (simp add: curl_easy_setopt_def split: if_splits)
    have "handles_ok (blocks s) (easies s') (next_easy s)"
      by (rule handles_change [of _ "easies s"]) (use inv in \<open>auto simp: s' put_option_def curl_inv_def split: if_splits\<close>)
    then show ?thesis using inv by (simp add: curl_inv_def s' put_option_def)
  qed (use a inv in \<open>simp add: curl_easy_setopt_def\<close>)
qed

lemma set_instance_keeps: "instances s i \<noteq> None \<Longrightarrow> curl_inv s \<Longrightarrow> curl_inv (set_instance i ins s)"
  by (auto simp: set_instance_def curl_inv_def)

lemma on_message_keeps: "on_message i p s = Inr s' \<Longrightarrow> curl_inv s \<Longrightarrow> curl_inv s'"
  by (auto simp: on_message_def get_instance_def bnd_simps split: option.splits intro: set_instance_keeps)

lemma deliver_keeps: "deliver opts ps s = Inr s' \<Longrightarrow> curl_inv s \<Longrightarrow> curl_inv s'"
  by (induction opts ps s rule: deliver.induct)
    (auto simp: bnd_simps split: option.splits option_value.splits dest: on_message_keeps)

lemma granted_curl [simp]:
  "granted_tls e (s\<lparr>instances := x, next_instance := n\<rparr>) = granted_tls e s"
  by (simp add: granted_tls_def)

lemma setopt_instances: "curl_easy_setopt p opt v s = Inr s' \<Longrightarrow> instances s' = instances s"
  by (auto simp: curl_easy_setopt_def put_option_def split: option.splits if_splits)

lemma core_init_keeps:
  assumes "core_init env tid i s = Inr (r, s')" and "curl_inv s" and "granted_tls (ce_tls env) s"
  shows "curl_inv s'"
proof -
  obtain p s1 where g: "threadstorage_get None (Some (curl_tls_init env)) (ce_tls env) tid s = (p, s1)" by fastforce
  then have i1: "curl_inv s1" using curl_get_keeps [OF assms(2,3), of tid] by simp
  show ?thesis
  proof (cases p)
    case None
    then show ?thesis using assms(1) g i1 by (simp add: core_init_def)
  next
    case (Some cell)
    then obtain ins h s3 s4 where ins: "get_instance i s1 = Inr ins"
      and s3: "curl_easy_setopt h CURLOPT_WRITEFUNCTION On_message (set_instance i (ins\<lparr>ci_curl := cell\<rparr>) s1) = Inr s3"
      and s4: "curl_easy_setopt h CURLOPT_WRITEDATA (Ptr i) s3 = Inr s4"
      and s': "s' = set_instance i (ins\<lparr>ci_curl := cell, ci_cursor := 0,
          ci_buff := (if ce_buff env then Some (replicate DEFAULT_BUFFER_SIZE 0) else None), ci_buff_size := DEFAULT_BUFFER_SIZE\<rparr>) s4"
      using assms(1) g by (auto simp: core_init_def bnd_simps Let_def)
    have live: "instances s1 i \<noteq> None" using ins by (auto simp: get_instance_def split: option.splits)
    have "curl_inv s4"
      by (rule setopt_keeps [OF s4], rule setopt_keeps [OF s3], rule set_instance_keeps [OF live i1])
    moreover have "instances s4 i \<noteq> None" using setopt_instances [OF s3] setopt_instances [OF s4] by (simp add: set_instance_def)
    ultimately show ?thesis unfolding s' by (intro set_instance_keeps)
  qed
qed

lemma new_keeps:
  assumes "curl_instance_new env tid s = Inr (p, s')" and "curl_inv s" and "granted_tls (ce_tls env) s"
  shows "curl_inv s'"
proof (cases "ce_instance env")
  case False
  then show ?thesis using assms by (simp add: curl_instance_new_def)
next
  case True
  define s1 where "s1 = s\<lparr>instances := (instances s)(next_instance s \<mapsto> \<lparr>ci_curl = 0, ci_buff = None, ci_buff_size = 0, ci_cursor = 0\<rparr>),
     next_instance := Suc (next_instance s)\<rparr>"
  have i1: "curl_inv s1" using assms(2) by (simp add: curl_inv_def s1_def)
  have g1: "granted_tls (ce_tls env) s1" using assms(3) by (simp add: s1_def)
  obtain r s2 where s2: "core_init env tid (next_instance s) s1 = Inr (r, s2)"
    and s': "s' = s2 \<or> s' = s2\<lparr>instances := (instances s2)(next_instance s := None)\<rparr>"
    using assms(1) True by (auto simp: curl_instance_new_def s1_def bnd_simps Let_def split: if_splits)
  show ?thesis using core_init_keeps [OF s2 i1 g1] s' by (auto simp: curl_inv_def)
qed

lemma perform_keeps:
  assumes "core_perform pieces rc i s = Inr (r, e, s')" and "curl_inv s"
  shows "curl_inv s'"
proof -
  obtain ins h where ins: "get_instance i s = Inr ins" and p: "curl_easy_perform pieces h (set_instance i (ins\<lparr>ci_cursor := 0\<rparr>) s) = Inr s'"
    using assms(1) by (auto simp: core_perform_def bnd_simps Let_def)
  have "instances s i \<noteq> None" using ins by (auto simp: get_instance_def split: option.splits)
  then have "curl_inv (set_instance i (ins\<lparr>ci_cursor := 0\<rparr>) s)" using assms(2) by (rule set_instance_keeps)
  then show ?thesis using p deliver_keeps by (auto simp: curl_easy_perform_def split: option.splits)
qed

lemma core_setopt_keeps: "core_setopt opt v i s = Inr s' \<Longrightarrow> curl_inv s \<Longrightarrow> curl_inv s'"
  by (auto simp: core_setopt_def bnd_simps intro: setopt_keeps)

inductive curl_step :: "curl_state \<Rightarrow> curl_state \<Rightarrow> bool" where
  "granted_tls (ce_tls env) s \<Longrightarrow> curl_instance_new env tid s = Inr (p, s') \<Longrightarrow> curl_step s s'"
| "curl_instance_perform pieces rc i s = Inr (r, e, s') \<Longrightarrow> curl_step s s'"
| "curl_instance_set_ssl_verifypeer i v s = Inr s' \<Longrightarrow> curl_step s s'"
| "curl_instance_set_headers i p s = Inr s' \<Longrightarrow> curl_step s s'"
| "curl_instance_set_request_url i url s = Inr s' \<Longrightarrow> curl_step s s'"
| "curl_instance_set_post_data i d n s = Inr s' \<Longrightarrow> curl_step s s'"
| "curl_instance_destroy i s = Inr s' \<Longrightarrow> curl_step s s'"
| "curl_step s (curl_thread_exit tid s)"

lemmas interface_defs = curl_instance_perform_def curl_instance_set_ssl_verifypeer_def curl_instance_set_headers_def
  curl_instance_set_request_url_def curl_instance_set_post_data_def curl_instance_get_post_data_def
  curl_instance_destroy_def through_engine_def core_set_ssl_verifypeer_def core_set_headers_def core_set_url_def core_set_data_def

interpretation curl_steps: step_invariant curl_step curl_inv
proof unfold_locales
  fix s t assume "curl_step s t" and inv: "curl_inv s"
  then show "curl_inv t"
  proof cases
    case 1
    then show ?thesis using new_keeps inv by blast
  next
    case 2
    then show ?thesis using perform_keeps inv by (auto simp: interface_defs bnd_simps)
  next
    case 7
    then show ?thesis using inv by (auto simp: interface_defs core_destroy_def bnd_simps curl_inv_def)
  next
    case 8
    then show ?thesis using exit_keeps_curl [OF inv] by simp
  qed (use inv in \<open>auto simp: interface_defs bnd_simps dest!: core_setopt_keeps\<close>)
qed

section \<open>Where a response goes\<close>

text \<open>\<open>serves s h i\<close>: handle \<open>h\<close> passes what it receives to instance \<open>i\<close>.\<close>

definition serves :: "curl_state \<Rightarrow> nat \<Rightarrow> nat \<Rightarrow> bool" where
  "serves s h i \<longleftrightarrow> (\<exists>opts. easies s h = Some opts \<and> opts CURLOPT_WRITEFUNCTION = Some On_message \<and> opts CURLOPT_WRITEDATA = Some (Ptr i))"

definition new_instance :: "nat \<Rightarrow> curl_env \<Rightarrow> curl_instance" where
  "new_instance cell env = \<lparr>ci_curl = cell, ci_buff = (if ce_buff env then Some (replicate DEFAULT_BUFFER_SIZE 0) else None),
     ci_buff_size = DEFAULT_BUFFER_SIZE, ci_cursor = 0\<rparr>"

lemma get_instances:
  assumes "tls_inv s" and "granted_tls (ce_tls env) s" and "threadstorage_get None (Some (curl_tls_init env)) (ce_tls env) tid s = (p, s')"
  shows "instances s' = instances s \<and> (\<forall>c. owner s tid = Some c \<longrightarrow> p = Some c) \<and> (\<forall>c. p = Some c \<longrightarrow> owner s' tid = Some c)"
proof (cases "owner s tid = None \<and> te_calloc (ce_tls env)")
  case True
  then show ?thesis using curl_get_new [OF assms(1,2), of tid] assms(3) by (auto split: if_splits)
next
  case False
  note k = key_init_inv [OF assms(1,2)]
  have "pthread_getspecific tid (key_init (ce_tls env) s) = owner s tid"
    using k(2,3) unfolding pthread_getspecific_def by (metis owner_def)
  then show ?thesis using False assms(3) k(3) by (auto simp: threadstorage_get_def Let_def split: option.splits)
qed

text \<open>A new instance has the block of its thread, and the handle there now serves it.\<close>

lemma new_result:
  assumes "curl_instance_new env tid s = Inr (Some i, s')" and "curl_inv s" and "granted_tls (ce_tls env) s"
  shows "\<exists>cell h. instances s' = (instances s)(i \<mapsto> new_instance cell env) \<and> instances s i = None \<and>
    blocks s' cell = Some (Some h) \<and> serves s' h i \<and> (\<forall>c. owner s tid = Some c \<longrightarrow> cell = c) \<and> owner s' tid = Some cell"
proof -
  let ?blank = "\<lparr>ci_curl = 0, ci_buff = None, ci_buff_size = 0, ci_cursor = 0\<rparr>"
  define s1 where "s1 = s\<lparr>instances := (instances s)(i \<mapsto> ?blank), next_instance := Suc i\<rparr>"
  have ce: "ce_instance env" using assms(1) by (auto simp: curl_instance_new_def split: if_splits)
  then have i: "i = next_instance s" using assms(1) by (auto simp: curl_instance_new_def bnd_eq_Inr Let_def split: if_splits)
  then have core: "core_init env tid i s1 = Inr (0, s')"
    using assms(1) ce by (auto simp: curl_instance_new_def s1_def bnd_simps Let_def split: if_splits)
  have fresh: "instances s i = None" using assms(2) i by (simp add: curl_inv_def)
  have i1: "curl_inv s1" "granted_tls (ce_tls env) s1" using assms(2,3) i by (simp_all add: curl_inv_def s1_def)
  then have t1: "tls_inv s1" by (simp add: curl_inv_def)
  obtain p s2 where g: "threadstorage_get None (Some (curl_tls_init env)) (ce_tls env) tid s1 = (p, s2)" by fastforce
  have i2: "curl_inv s2" using curl_get_keeps [OF i1, of tid] g by simp
  have ins2: "instances s2 i = Some ?blank" "instances s2 = (instances s)(i \<mapsto> ?blank)"
    using get_instances [OF t1 i1(2) g] by (simp_all add: s1_def)
  obtain cell where cell: "p = Some cell" using core g by (cases p) (auto simp: core_init_def)
  have own: "cell = c" if "owner s tid = Some c" for c
    using that get_instances [OF t1 i1(2) g] cell by (simp add: s1_def)
  have own2: "owner s2 tid = Some cell" using get_instances [OF t1 i1(2) g] cell by simp
  have "blocks s2 cell \<noteq> None"
    using core g cell ins2 by (auto simp: core_init_def get_instance_def set_instance_def instance_handle_def bnd_simps Let_def split: option.splits)
  then obtain h opts where h: "blocks s2 cell = Some (Some h)" "easies s2 h = Some opts"
    using i2 handles_live unfolding curl_inv_def by (metis not_None_eq)
  have "s' = set_instance i (new_instance cell env) (put_option h CURLOPT_WRITEDATA (Ptr i) (put_option h CURLOPT_WRITEFUNCTION On_message
      (set_instance i (?blank\<lparr>ci_curl := cell\<rparr>) s2)))"
    using core g cell ins2 h
    by (simp add: core_init_def get_instance_def set_instance_def instance_handle_def curl_easy_setopt_def put_option_def new_instance_def Let_def)
  then show ?thesis using fresh ins2(2) h own own2
    by (intro exI [of _ cell] exI [of _ h]) (simp add: set_instance_def put_option_def serves_def)
qed

text \<open>All pieces together, or a write past the end of the buffer.\<close>

lemma deliver_all:
  assumes "opts CURLOPT_WRITEFUNCTION = Some On_message" and "opts CURLOPT_WRITEDATA = Some (Ptr i)"
  shows "instances s i = Some ins \<Longrightarrow> ci_buff ins = Some b \<Longrightarrow> ci_cursor ins \<le> length b \<Longrightarrow>
    deliver opts ps s =
      (if ci_cursor ins + length (concat ps) \<le> length b
       then Inr (set_instance i (ins\<lparr>ci_buff := Some (take (ci_cursor ins) b @ concat ps @ drop (ci_cursor ins + length (concat ps)) b),
              ci_cursor := ci_cursor ins + length (concat ps)\<rparr>) s)
       else Inl OutOfBounds)"
proof (induction ps arbitrary: s ins b)
  case Nil
  have "s\<lparr>instances := (instances s)(i \<mapsto> ins)\<rparr> = s" using Nil(1) by (simp add: fun_upd_idem)
  moreover have "ins\<lparr>ci_buff := Some b, ci_cursor := ci_cursor ins\<rparr> = ins" using Nil(2) by (cases ins) simp
  ultimately show ?case using Nil(3) by (simp add: set_instance_def)
next
  case (Cons p ps)
  show ?case
  proof (cases "ci_cursor ins + length p \<le> length b")
    case True
    define b1 where "b1 = take (ci_cursor ins) b @ p @ drop (ci_cursor ins + length p) b"
    define ins1 where "ins1 = ins\<lparr>ci_buff := Some b1, ci_cursor := ci_cursor ins + length p\<rparr>"
    have b1: "length b1 = length b" using True by (simp add: b1_def)
    have m: "on_message i p s = Inr (set_instance i ins1 s)"
      using Cons.prems True by (simp add: on_message_def get_instance_def mem_write_def b1_def ins1_def)
    have "deliver opts ps (set_instance i ins1 s) =
        (if ci_cursor ins1 + length (concat ps) \<le> length b1
         then Inr (set_instance i (ins1\<lparr>ci_buff := Some (take (ci_cursor ins1) b1 @ concat ps @ drop (ci_cursor ins1 + length (concat ps)) b1),
              ci_cursor := ci_cursor ins1 + length (concat ps)\<rparr>) (set_instance i ins1 s))
         else Inl OutOfBounds)"
      by (rule Cons.IH) (use True b1 in \<open>simp_all add: set_instance_def ins1_def\<close>)
    then show ?thesis using assms m b1 True
      by (simp add: ins1_def b1_def set_instance_def ac_simps)
  next
    case False
    then have "on_message i p s = Inl OutOfBounds"
      using Cons.prems by (simp add: on_message_def get_instance_def mem_write_def)
    then show ?thesis using assms False by simp
  qed
qed

section \<open>Requests\<close>

text \<open>An instance whose handle serves it and whose buffer is whole, and what a program does with it.\<close>

definition ready :: "nat \<Rightarrow> curl_state \<Rightarrow> bool" where
  "ready i s \<longleftrightarrow> (\<exists>ins b h. instances s i = Some ins \<and> ci_buff ins = Some b \<and> length b = DEFAULT_BUFFER_SIZE \<and>
     ci_cursor ins \<le> length b \<and> blocks s (ci_curl ins) = Some (Some h) \<and> serves s h i)"

inductive curl_use for i where
  "curl_instance_perform pieces rc i s = Inr (r, e, s') \<Longrightarrow> curl_use i s s'"
| "curl_instance_set_ssl_verifypeer i v s = Inr s' \<Longrightarrow> curl_use i s s'"
| "curl_instance_set_headers i p s = Inr s' \<Longrightarrow> curl_use i s s'"
| "curl_instance_set_request_url i url s = Inr s' \<Longrightarrow> curl_use i s s'"
| "curl_instance_set_post_data i d n s = Inr s' \<Longrightarrow> curl_use i s s'"

text \<open>A request on \<open>j\<close> whose handle serves \<open>i\<close>.\<close>

lemma perform_served:
  assumes "instances s j = Some insj" and "blocks s (ci_curl insj) = Some (Some h)" and "serves s h i"
    and "instances (set_instance j (insj\<lparr>ci_cursor := 0\<rparr>) s) i = Some ins" and "ci_buff ins = Some b" and "ci_cursor ins \<le> length b"
  shows "curl_instance_perform ps rc j s =
    (if ci_cursor ins + length (concat ps) \<le> length b
     then Inr (if rc \<noteq> 0 then - 1 else 0, rc,
       set_instance i (ins\<lparr>ci_buff := Some (take (ci_cursor ins) b @ concat ps @ drop (ci_cursor ins + length (concat ps)) b),
              ci_cursor := ci_cursor ins + length (concat ps)\<rparr>) (set_instance j (insj\<lparr>ci_cursor := 0\<rparr>) s))
     else Inl OutOfBounds)"
proof -
  obtain opts where o: "easies s h = Some opts" "opts CURLOPT_WRITEFUNCTION = Some On_message" "opts CURLOPT_WRITEDATA = Some (Ptr i)"
    using assms(3) unfolding serves_def by blast
  show ?thesis using assms(1,2) o(1) deliver_all [OF o(2,3) assms(4-6), of ps]
    by (simp add: curl_instance_perform_def through_engine_def get_instance_def core_perform_def instance_handle_def
        curl_easy_perform_def set_instance_def)
qed

lemma perform_ready:
  assumes "ready i s"
  shows "if length (concat ps) \<le> DEFAULT_BUFFER_SIZE
    then \<exists>s' ins b. curl_instance_perform ps rc i s = Inr (if rc \<noteq> 0 then - 1 else 0, rc, s') \<and> ready i s' \<and>
      instances s' i = Some ins \<and> ci_buff ins = Some (concat ps @ b) \<and> ci_cursor ins = length (concat ps)
    else curl_instance_perform ps rc i s = Inl OutOfBounds"
proof -
  obtain ins b h where r: "instances s i = Some ins" "ci_buff ins = Some b" "length b = DEFAULT_BUFFER_SIZE" "ci_cursor ins \<le> length b"
    "blocks s (ci_curl ins) = Some (Some h)" "serves s h i" using assms unfolding ready_def by blast
  have p: "instances (set_instance i (ins\<lparr>ci_cursor := 0\<rparr>) s) i = Some (ins\<lparr>ci_cursor := 0\<rparr>)"
    "ci_buff (ins\<lparr>ci_cursor := 0\<rparr>) = Some b" "ci_cursor (ins\<lparr>ci_cursor := 0\<rparr>) \<le> length b"
    using r by (simp_all add: set_instance_def)
  show ?thesis using perform_served [OF r(1,5,6) p, of ps rc] r by (simp add: set_instance_def ready_def serves_def)
qed

lemma setopt_ready:
  assumes "ready i s" and "opt \<noteq> CURLOPT_WRITEFUNCTION" and "opt \<noteq> CURLOPT_WRITEDATA" and "core_setopt opt v i s = Inr s'"
  shows "ready i s'"
proof -
  obtain ins b h where r: "instances s i = Some ins" "ci_buff ins = Some b" "length b = DEFAULT_BUFFER_SIZE" "ci_cursor ins \<le> length b"
    "blocks s (ci_curl ins) = Some (Some h)" "serves s h i" using assms(1) unfolding ready_def by blast
  then have "s' = put_option h opt v s" using assms(4)
    by (auto simp: core_setopt_def instance_handle_def get_instance_def curl_easy_setopt_def split: if_splits)
  then show ?thesis using r assms(2,3) by (auto simp: ready_def put_option_def serves_def)
qed

interpretation curl_uses: step_invariant "curl_use i" "ready i" for i
proof unfold_locales
  fix s t assume "curl_use i s t" and r: "ready i s"
  then show "ready i t"
  proof cases
    case (1 pieces rc a e)
    then show ?thesis using perform_ready [OF r, of pieces rc] by (auto split: if_splits)
  qed (use r in \<open>auto simp: interface_defs bnd_simps elim: setopt_ready [rotated 3] dest: setopt_ready [rotated 3]\<close>)
qed

lemma new_ready:
  assumes "curl_instance_new env tid s = Inr (Some i, s')" and "curl_inv s" and "granted_tls (ce_tls env) s" and "ce_buff env"
  shows "ready i s'"
  using new_result [OF assms(1-3)] assms(4) by (auto simp: ready_def new_instance_def)

lemma get_data_read:
  assumes "instances s i = Some ins" and "ci_buff ins = Some (bs @ rest)" and "ci_cursor ins = length bs"
  shows "curl_instance_get_post_data i data (int (length data)) s =
    Inr (if length bs \<le> length data then bs @ replicate (length data - length bs) 0 else data)"
  using assms by (simp add: curl_instance_get_post_data_def through_engine_def get_instance_def core_get_data_def mem_write_def mem_read_def)

definition curl_start :: curl_state where
  "curl_start = \<lparr>ts_key = 0, ts_once = False, ts_made = False, keys = {}, slots = (\<lambda>_ _. None), blocks = Map.empty, next_block = 0,
     easies = Map.empty, next_easy = 0, instances = Map.empty, next_instance = 0\<rparr>"

lemma curl_start_inv: "curl_inv curl_start"
  by (simp add: curl_inv_def curl_start_def tls_inv_def owner_def handles_ok_def)

text \<open>C23. In every reachable state of the curl engine, a new instance with a buffer answers requests as follows,
  whatever was requested and set through it before: a response of at most 8192 bytes, in any pieces, is read back
  by \<open>curl_instance_get_post_data\<close> exactly, zero padded, or not at all when the caller's buffer is too short,
  and earlier responses leave nothing; a longer response is written past the end of the buffer.\<close>

theorem curl_response:
  assumes "curl_step\<^sup>*\<^sup>* curl_start s" and "granted_tls (ce_tls env) s" and "curl_instance_new env tid s = Inr (Some i, s1)"
    and "ce_buff env" and "(curl_use i)\<^sup>*\<^sup>* s1 s2"
  shows "if length (concat ps) \<le> DEFAULT_BUFFER_SIZE
    then \<exists>s3. curl_instance_perform ps rc i s2 = Inr (if rc \<noteq> 0 then - 1 else 0, rc, s3) \<and>
      (\<forall>data. curl_instance_get_post_data i data (int (length data)) s3 =
        Inr (if length (concat ps) \<le> length data then concat ps @ replicate (length data - length (concat ps)) 0 else data))
    else curl_instance_perform ps rc i s2 = Inl OutOfBounds"
proof -
  have "ready i s1" by (rule new_ready [OF assms(3) curl_steps.steps_keep [OF assms(1) curl_start_inv] assms(2,4)])
  then have "ready i s2" by (rule curl_uses.steps_keep [OF assms(5)])
  then show ?thesis using perform_ready [of i s2 ps rc] get_data_read by (auto split: if_splits)
qed

definition sample_curl_env :: curl_env where
  "sample_curl_env = \<lparr>ce_tls = sample_tls_env 5, ce_easy = True, ce_instance = True, ce_buff = True\<rparr>"

lemmas curl_run = sample_curl_env_def sample_tls_env_def curl_start_def curl_instance_new_def core_init_def threadstorage_get_def key_init_def
  pthread_key_create_def pthread_getspecific_def pthread_setspecific_def curl_tls_init_def put_option_def get_instance_def
  set_instance_def instance_handle_def curl_easy_setopt_def Let_def

lemma sample_new: "\<exists>s1. curl_instance_new sample_curl_env 1 curl_start = Inr (Some 0, s1) \<and> keys s1 = {5} \<and> ts_once s1 \<and> ts_key s1 = 5 \<and>
    slots s1 1 5 = Some 0 \<and> next_instance s1 = 1 \<and> blocks s1 0 = Some (Some 0) \<and> easies s1 0 \<noteq> None"
  by (simp add: curl_run)

lemma sample_granted: "granted_tls (ce_tls sample_curl_env) curl_start"
  by (simp add: granted_tls_def sample_curl_env_def sample_tls_env_def curl_start_def)

theorem curl_response_witness:
  "\<exists>s1 s3. curl_instance_new sample_curl_env 1 curl_start = Inr (Some 0, s1) \<and>
     curl_instance_perform [[72, 84], [], [84, 80]] 0 0 s1 = Inr (0, 0, s3) \<and>
     curl_instance_get_post_data 0 [1, 1, 1, 1, 1, 1] 6 s3 = Inr [72, 84, 84, 80, 0, 0]"
proof -
  obtain s1 where n: "curl_instance_new sample_curl_env 1 curl_start = Inr (Some 0, s1)" using sample_new by blast
  have b: "ce_buff sample_curl_env" by (simp add: sample_curl_env_def)
  show ?thesis
    using n curl_response [OF rtranclp.rtrancl_refl sample_granted n b rtranclp.rtrancl_refl, of "[[72, 84], [], [84, 80]]" 0]
    by (auto simp: DEFAULT_BUFFER_SIZE_def dest: spec [of _ "[1, 1, 1, 1, 1, 1]"])
qed

text \<open>C39. Two instances made by one thread share the libcurl handle, and it serves the later one only: a request
  through the earlier instance succeeds, leaves that instance without data and puts the response into the later
  one; once the later one is destroyed, a request through the earlier one writes to freed memory.\<close>

theorem curl_shared_handle:
  assumes "curl_step\<^sup>*\<^sup>* curl_start s" and "granted_tls (ce_tls env) s" and "curl_instance_new env tid s = Inr (Some j, s1)"
    and "granted_tls (ce_tls env') s1" and "curl_instance_new env' tid s1 = Inr (Some i, s2)"
    and "ce_buff env" and "ce_buff env'" and "length (concat ps) \<le> DEFAULT_BUFFER_SIZE"
  shows "(\<exists>s3. curl_instance_perform ps rc j s2 = Inr (if rc \<noteq> 0 then - 1 else 0, rc, s3) \<and>
      (\<forall>data. curl_instance_get_post_data j data (int (length data)) s3 = Inr (replicate (length data) 0)) \<and>
      (\<forall>data. curl_instance_get_post_data i data (int (length data)) s3 =
        Inr (if length (concat ps) \<le> length data then concat ps @ replicate (length data - length (concat ps)) 0 else data))) \<and>
    (\<exists>s4. curl_instance_destroy i s2 = Inr s4 \<and> (ps \<noteq> [] \<longrightarrow> curl_instance_perform ps rc j s4 = Inl UseAfterFree))"
proof -
  have inv: "curl_inv s" by (rule curl_steps.steps_keep [OF assms(1) curl_start_inv])
  have inv1: "curl_inv s1" by (rule curl_steps.step_keeps [OF curl_step.intros(1) [OF assms(2,3)] inv])
  obtain cell where n1: "instances s1 j = Some (new_instance cell env)" "owner s1 tid = Some cell"
    using new_result [OF assms(3) inv assms(2)] by auto
  obtain h where n2: "instances s2 = (instances s1)(i \<mapsto> new_instance cell env')" "instances s1 i = None"
      "blocks s2 cell = Some (Some h)" "serves s2 h i"
    using new_result [OF assms(5) inv1 assms(4)] n1(2) by auto
  have ij: "i \<noteq> j" using n1 n2(2) by auto
  let ?z = "replicate DEFAULT_BUFFER_SIZE 0 :: byte list"
  have j: "instances s2 j = Some (new_instance cell env)" "blocks s2 (ci_curl (new_instance cell env)) = Some (Some h)"
    using n1 n2 ij by (simp_all add: new_instance_def)
  have i: "instances (set_instance j ((new_instance cell env)\<lparr>ci_cursor := 0\<rparr>) s2) i = Some (new_instance cell env')"
    "ci_buff (new_instance cell env') = Some ?z" "ci_cursor (new_instance cell env') \<le> length ?z"
    using n2 ij assms(7) by (simp_all add: new_instance_def set_instance_def)
  obtain s3 insj insi where p: "curl_instance_perform ps rc j s2 = Inr (if rc \<noteq> 0 then - 1 else 0, rc, s3)"
    "instances s3 j = Some insj" "ci_buff insj = Some ([] @ ?z)" "ci_cursor insj = length ([] :: byte list)" "instances s3 i = Some insi"
    "ci_buff insi = Some (concat ps @ drop (length (concat ps)) ?z)" "ci_cursor insi = length (concat ps)"
    using perform_served [OF j n2(4) i, of ps rc] assms(6,8) ij by (simp add: set_instance_def new_instance_def)
  have "curl_instance_destroy i s2 = Inr (s2\<lparr>instances := (instances s2)(i := None)\<rparr>)"
    using n2(1) by (simp add: curl_instance_destroy_def through_engine_def get_instance_def core_destroy_def)
  moreover have "ps \<noteq> [] \<Longrightarrow> curl_instance_perform ps rc j (s2\<lparr>instances := (instances s2)(i := None)\<rparr>) = Inl UseAfterFree"
    using j n2(4) ij by (cases ps) (auto simp: curl_instance_perform_def through_engine_def get_instance_def core_perform_def
        instance_handle_def curl_easy_perform_def set_instance_def serves_def on_message_def)
  ultimately show ?thesis using p(1) get_data_read [OF p(2-4)] get_data_read [OF p(5-7)] by auto
qed

theorem curl_shared_handle_witness:
  "\<exists>s1 s2 s3. curl_instance_new sample_curl_env 1 curl_start = Inr (Some 0, s1) \<and>
     curl_instance_new (sample_curl_env\<lparr>ce_tls := sample_tls_env 6\<rparr>) 1 s1 = Inr (Some 1, s2) \<and>
     curl_instance_perform [[79, 75]] 0 0 s2 = Inr (0, 0, s3) \<and>
     curl_instance_get_post_data 0 [9, 9, 9] 3 s3 = Inr [0, 0, 0] \<and> curl_instance_get_post_data 1 [9, 9, 9] 3 s3 = Inr [79, 75, 0]"
proof -
  let ?env = "sample_curl_env\<lparr>ce_tls := sample_tls_env 6\<rparr>"
  obtain s1 where n: "curl_instance_new sample_curl_env 1 curl_start = Inr (Some 0, s1)" and k: "keys s1 = {5}" "ts_once s1" "ts_key s1 = 5"
    "slots s1 1 5 = Some 0" "next_instance s1 = 1" "blocks s1 0 = Some (Some 0)" "easies s1 0 \<noteq> None" using sample_new by blast
  have g: "granted_tls (ce_tls ?env) s1" using k by (simp add: granted_tls_def sample_curl_env_def sample_tls_env_def)
  obtain s2 where n2: "curl_instance_new ?env 1 s1 = Inr (Some 1, s2)"
    using k by (auto simp: sample_curl_env_def sample_tls_env_def curl_instance_new_def core_init_def threadstorage_get_def key_init_def
        pthread_getspecific_def put_option_def get_instance_def set_instance_def instance_handle_def curl_easy_setopt_def Let_def)
  have b: "ce_buff sample_curl_env" "ce_buff ?env" "length (concat [[79, 75 :: byte]]) \<le> DEFAULT_BUFFER_SIZE"
    by (simp_all add: sample_curl_env_def DEFAULT_BUFFER_SIZE_def)
  obtain s3 where "curl_instance_perform [[79, 75]] 0 0 s2 = Inr (0, 0, s3)"
    and d: "\<forall>data. curl_instance_get_post_data 0 data (int (length data)) s3 = Inr (replicate (length data) 0)"
      "\<forall>data. curl_instance_get_post_data 1 data (int (length data)) s3 =
        Inr (if length (concat [[79, 75 :: byte]]) \<le> length data
          then concat [[79, 75]] @ replicate (length data - length (concat [[79, 75 :: byte]])) 0 else data)"
    using curl_shared_handle [OF rtranclp.rtrancl_refl sample_granted n g n2 b, of 0] by auto
  moreover have "curl_instance_get_post_data 0 [9, 9, 9] 3 s3 = Inr [0, 0, 0]" "curl_instance_get_post_data 1 [9, 9, 9] 3 s3 = Inr [79, 75, 0]"
    using spec [OF d(1), of "[9, 9, 9]"] spec [OF d(2), of "[9, 9, 9]"] by simp_all
  ultimately show ?thesis using n n2 by blast
qed

end
