(* ===== verification/Rsa_Crypto.thy ===== *)
theory Rsa_Crypto
  imports Base64
begin

text \<open>
  \<open>app/atp_rsa_crypto.hpp\<close>: encryption with the key of a PEM file, decryption of a text that was
  encrypted in pieces, and the public key of a certificate. OpenSSL's key operations are arguments
  (\<open>openssl\<close>); the files, the open streams and the OpenSSL objects that are not yet freed are the
  state (\<open>rsa_world\<close>). \<open>'k\<close> is the type of RSA keys.
\<close>

section \<open>Files and OpenSSL\<close>

text \<open>What \<open>X509_get_pubkey\<close> finds in a certificate; \<open>NoKey\<close> is its null pointer.\<close>

datatype 'k pkey = RsaKey 'k | OtherKey | NoKey

datatype 'k pem_file = PublicKey 'k | PrivateKey 'k | Certificate "'k pkey" | OtherFile

record 'k rsa_world =
  files :: "string \<rightharpoonup> 'k pem_file"
  writable :: "string \<Rightarrow> bool"
  open_files :: nat
  file_limit :: nat
  rsa_objects :: nat
  pkey_objects :: nat
  x509_objects :: nat

record 'k openssl =
  RSA_size :: "'k \<Rightarrow> nat"
  RSA_public_encrypt :: "int \<Rightarrow> 'k \<Rightarrow> byte list \<Rightarrow> byte list option"
  RSA_private_decrypt :: "int \<Rightarrow> 'k \<Rightarrow> byte list \<Rightarrow> byte list option"

definition fopen_read :: "string \<Rightarrow> 'k rsa_world \<Rightarrow> ('k pem_file \<times> 'k rsa_world) option" where
  "fopen_read path w =
     (case files w path of
        Some f \<Rightarrow> if open_files w < file_limit w then Some (f, w\<lparr>open_files := open_files w + 1\<rparr>) else None
      | None \<Rightarrow> None)"

definition fopen_write :: "string \<Rightarrow> 'k rsa_world \<Rightarrow> 'k rsa_world option" where
  "fopen_write path w =
     (if writable w path \<and> open_files w < file_limit w
      then Some (w\<lparr>files := (files w)(path \<mapsto> OtherFile), open_files := open_files w + 1\<rparr>) else None)"

definition fclose :: "'k rsa_world \<Rightarrow> 'k rsa_world" where
  "fclose w = w\<lparr>open_files := open_files w - 1\<rparr>"

definition new_rsa :: "'k rsa_world \<Rightarrow> 'k rsa_world" where
  "new_rsa w = w\<lparr>rsa_objects := rsa_objects w + 1\<rparr>"

definition RSA_free :: "'k rsa_world \<Rightarrow> 'k rsa_world" where
  "RSA_free w = w\<lparr>rsa_objects := rsa_objects w - 1\<rparr>"

fun PEM_read_RSA_PUBKEY :: "'k pem_file \<Rightarrow> 'k option" where
  "PEM_read_RSA_PUBKEY (PublicKey k) = Some k"
| "PEM_read_RSA_PUBKEY _ = None"

fun PEM_read_RSAPrivateKey :: "'k pem_file \<Rightarrow> 'k option" where
  "PEM_read_RSAPrivateKey (PrivateKey k) = Some k"
| "PEM_read_RSAPrivateKey _ = None"

fun PEM_read_X509 :: "'k pem_file \<Rightarrow> 'k pkey option" where
  "PEM_read_X509 (Certificate p) = Some p"
| "PEM_read_X509 _ = None"

definition RSA_PKCS1_PADDING :: int where "RSA_PKCS1_PADDING = 1"

definition RSA_NO_PADDING :: int where "RSA_NO_PADDING = 3"

definition padding_arg :: "int \<Rightarrow> int" where
  "padding_arg padding = (if padding = 0 then RSA_NO_PADDING else padding)"

section \<open>RSACrypto\<close>

definition RSA_ERROR_BASE :: int where "RSA_ERROR_BASE = - 200"
definition RSA_SET_PUBLIC_KEY_ERROR :: int where "RSA_SET_PUBLIC_KEY_ERROR = RSA_ERROR_BASE - 1"
definition RSA_SET_PRIVATE_KEY_ERROR :: int where "RSA_SET_PRIVATE_KEY_ERROR = RSA_ERROR_BASE - 2"
definition RSA_CHECK_FILE_EXIST_ERROR :: int where "RSA_CHECK_FILE_EXIST_ERROR = RSA_ERROR_BASE - 3"
definition RSA_READ_PUBLIC_KEY_ERROR :: int where "RSA_READ_PUBLIC_KEY_ERROR = RSA_ERROR_BASE - 4"
definition RSA_READ_PRIVATE_KEY_ERROR :: int where "RSA_READ_PRIVATE_KEY_ERROR = RSA_ERROR_BASE - 5"
definition RSA_ENCRYPT_ERROR :: int where "RSA_ENCRYPT_ERROR = RSA_ERROR_BASE - 6"
definition RSA_DECRYPT_ERROR :: int where "RSA_DECRYPT_ERROR = RSA_ERROR_BASE - 7"
definition RSA_INVALID_ARGS :: int where "RSA_INVALID_ARGS = RSA_ERROR_BASE - 8"
definition RSA_ENCRYPT_DATA_TO_LARGE :: int where "RSA_ENCRYPT_DATA_TO_LARGE = RSA_ERROR_BASE - 9"
definition RSA_TRANSFORM_ARGS_ERROR :: int where "RSA_TRANSFORM_ARGS_ERROR = RSA_ERROR_BASE - 10"
definition RSA_TRANSFORM_CERT_ERROR :: int where "RSA_TRANSFORM_CERT_ERROR = RSA_ERROR_BASE - 11"
definition RSA_TRANSFORM_OPEN_ERROR :: int where "RSA_TRANSFORM_OPEN_ERROR = RSA_ERROR_BASE - 12"

lemmas rsa_codes = RSA_ERROR_BASE_def RSA_SET_PUBLIC_KEY_ERROR_def RSA_SET_PRIVATE_KEY_ERROR_def RSA_CHECK_FILE_EXIST_ERROR_def
  RSA_READ_PUBLIC_KEY_ERROR_def RSA_READ_PRIVATE_KEY_ERROR_def RSA_DECRYPT_ERROR_def RSA_ENCRYPT_DATA_TO_LARGE_def
  RSA_TRANSFORM_ARGS_ERROR_def RSA_TRANSFORM_CERT_ERROR_def RSA_TRANSFORM_OPEN_ERROR_def

record rsa_crypto =
  encrypt_result :: "byte list"
  decrypt_result :: "byte list"
  public_key_path :: string
  private_key_path :: string

definition RSACrypto :: "string \<Rightarrow> string \<Rightarrow> rsa_crypto" where
  "RSACrypto public_key private_key =
     \<lparr>encrypt_result = [], decrypt_result = [], public_key_path = public_key, private_key_path = private_key\<rparr>"

definition DECRYPT_MAX_SIZE :: nat where "DECRYPT_MAX_SIZE = 1024"

definition checkFileExist :: "string \<Rightarrow> 'k rsa_world \<Rightarrow> int \<times> 'k rsa_world" where
  "checkFileExist path w =
     (case fopen_read path w of None \<Rightarrow> (RSA_CHECK_FILE_EXIST_ERROR, w) | Some (_, w1) \<Rightarrow> (0, fclose w1))"

definition setPublicKeyPath :: "string \<Rightarrow> rsa_crypto \<Rightarrow> 'k rsa_world \<Rightarrow> int \<times> rsa_crypto \<times> 'k rsa_world" where
  "setPublicKeyPath public_key r w =
     (let (e, w1) = checkFileExist public_key w in
      if e \<noteq> 0 then (RSA_SET_PUBLIC_KEY_ERROR, r, w1) else (0, r\<lparr>public_key_path := public_key\<rparr>, w1))"

definition setPrivateKeyPath :: "string \<Rightarrow> rsa_crypto \<Rightarrow> 'k rsa_world \<Rightarrow> int \<times> rsa_crypto \<times> 'k rsa_world" where
  "setPrivateKeyPath private_key r w =
     (let (e, w1) = checkFileExist private_key w in
      if e \<noteq> 0 then (RSA_SET_PRIVATE_KEY_ERROR, r, w1) else (0, r\<lparr>private_key_path := private_key\<rparr>, w1))"

text \<open>
  The result of \<open>fopen\<close> is not tested, a null stream is used. \<open>content.c_str()\<close> is the object
  \<open>content @ [0]\<close>. OpenSSL writes at most the bytes it returns.
\<close>

definition encryptContent ::
  "'k openssl \<Rightarrow> byte list \<Rightarrow> int \<Rightarrow> rsa_crypto \<Rightarrow> 'k rsa_world \<Rightarrow> (int \<times> rsa_crypto \<times> 'k rsa_world) result" where
  "encryptContent ossl content padding r w =
     (case fopen_read (public_key_path r) w of
        None \<Rightarrow> Inl NullDeref
      | Some (f, w1) \<Rightarrow>
          (case PEM_read_RSA_PUBKEY f of
             None \<Rightarrow> Inr (RSA_READ_PUBLIC_KEY_ERROR, r, fclose w1)
           | Some rsa \<Rightarrow>
               let w2 = new_rsa w1; rsa_len = RSA_size ossl rsa in
               if rsa_len < length content then Inr (RSA_ENCRYPT_DATA_TO_LARGE, r, w2)
               else
                 bnd (mem_read (content @ [0]) 0 rsa_len) (\<lambda>bs.
                 bnd (mem_write (replicate (rsa_len + 1) 0) 0 bs) (\<lambda>chunk_buff.
                 bnd (strlen chunk_buff) (\<lambda>n.
                   case RSA_public_encrypt ossl (padding_arg padding) rsa (take n chunk_buff) of
                     None \<Rightarrow> Inr (- 1, r, w2)
                   | Some out \<Rightarrow>
                       bnd (mem_write (replicate rsa_len 0) 0 out) (\<lambda>chunk_encrypt_buff.
                         Inr (0, r\<lparr>encrypt_result := take (length out) chunk_encrypt_buff\<rparr>, w2)))))))"

text \<open>The loop over the pieces from piece \<open>i\<close> on, \<open>n\<close> of them; the flag says whether it reached its end.\<close>

fun decrypt_pieces ::
  "'k openssl \<Rightarrow> int \<Rightarrow> 'k \<Rightarrow> byte list \<Rightarrow> nat \<Rightarrow> nat \<Rightarrow> byte list \<Rightarrow> (bool \<times> byte list) result" where
  "decrypt_pieces ossl padding rsa content i 0 acc = Inr (True, acc)"
| "decrypt_pieces ossl padding rsa content i (Suc n) acc =
     (let rsa_len = RSA_size ossl rsa in
      bnd (mem_read (content @ [0]) (i * rsa_len) rsa_len) (\<lambda>bs.
      bnd (mem_write (replicate (256 + 1) 0) 0 bs) (\<lambda>chunk_buff.
      bnd (mem_read chunk_buff 0 rsa_len) (\<lambda>from.
        case RSA_private_decrypt ossl (padding_arg padding) rsa from of
          None \<Rightarrow> Inr (False, acc)
        | Some to \<Rightarrow>
            bnd (mem_write (replicate 256 0) 0 to) (\<lambda>chunk_decrypt_buff.
            bnd (mem_read chunk_decrypt_buff 0 (length to)) (\<lambda>bs'.
            bnd (mem_write (replicate 256 0) 0 bs') (\<lambda>tmp_buff.
            bnd (strlen tmp_buff) (\<lambda>m.
              decrypt_pieces ossl padding rsa content (i + 1) n (acc @ take m tmp_buff)))))))))"

text \<open>Division of a possibly negative \<open>int\<close> truncates towards zero.\<close>

definition total_len :: "int \<Rightarrow> int" where
  "total_len origlen = (if origlen < 0 then - (- origlen div 4) else origlen div 4) * 3 + 2"

definition content_chunk_size :: "int \<Rightarrow> int \<Rightarrow> int" where
  "content_chunk_size tlen rsa_len = (if tlen mod rsa_len = 0 then tlen div rsa_len else tlen div rsa_len + 1)"

definition decryptContent ::
  "'k openssl \<Rightarrow> byte list \<Rightarrow> int \<Rightarrow> int \<Rightarrow> rsa_crypto \<Rightarrow> 'k rsa_world \<Rightarrow> (int \<times> rsa_crypto \<times> 'k rsa_world) result" where
  "decryptContent ossl content origlen padding r w =
     (case fopen_read (private_key_path r) w of
        None \<Rightarrow> Inl NullDeref
      | Some (f, w1) \<Rightarrow>
          (case PEM_read_RSAPrivateKey f of
             None \<Rightarrow> Inr (RSA_READ_PRIVATE_KEY_ERROR, r, fclose w1)
           | Some rsa \<Rightarrow>
               let w2 = new_rsa w1; rsa_len = RSA_size ossl rsa; tlen = total_len origlen in
               if tlen > int rsa_len then
                 bnd (decrypt_pieces ossl padding rsa content 0 (nat (content_chunk_size tlen (int rsa_len) - 1)) (decrypt_result r))
                   (\<lambda>(fin, res). if fin then Inr (0, r\<lparr>decrypt_result := res\<rparr>, fclose (RSA_free w2))
                      else Inr (RSA_DECRYPT_ERROR, r\<lparr>decrypt_result := res\<rparr>, fclose w2))
               else
                 bnd (mem_read (content @ [0]) 0 rsa_len) (\<lambda>from.
                   case RSA_private_decrypt ossl (padding_arg padding) rsa from of
                     None \<Rightarrow> Inr (RSA_DECRYPT_ERROR, r, fclose w2)
                   | Some to \<Rightarrow>
                       bnd (mem_write (replicate DECRYPT_MAX_SIZE 0) 0 to) (\<lambda>decrypt_buff.
                       bnd (strlen decrypt_buff) (\<lambda>m.
                         Inr (0, r\<lparr>decrypt_result := take m decrypt_buff\<rparr>, fclose (RSA_free w2)))))))"

text \<open>
  \<open>X509_get_pubkey\<close> makes an object that is never freed. \<open>EVP_PKEY_get1_RSA\<close> dereferences its
  argument and returns null for a key of another kind; \<open>PEM_write_RSA_PUBKEY\<close> then writes nothing.
\<close>

definition getPublicKeyFromCertificate :: "string \<Rightarrow> string \<Rightarrow> 'k rsa_world \<Rightarrow> (int \<times> 'k rsa_world) result" where
  "getPublicKeyFromCertificate cert_path key_path w =
     (if cert_path = [] \<or> key_path = [] then Inr (RSA_TRANSFORM_ARGS_ERROR, w)
      else case fopen_read cert_path w of
        None \<Rightarrow> Inr (RSA_TRANSFORM_OPEN_ERROR, w)
      | Some (f, w1) \<Rightarrow>
          (case PEM_read_X509 f of
             None \<Rightarrow> Inr (RSA_TRANSFORM_CERT_ERROR, fclose w1)
           | Some NoKey \<Rightarrow> Inl NullDeref
           | Some evp_key \<Rightarrow>
               let w2 = w1\<lparr>x509_objects := x509_objects w1 + 1, pkey_objects := pkey_objects w1 + 1\<rparr>;
                   rsa = (case evp_key of RsaKey k \<Rightarrow> Some k | _ \<Rightarrow> None);
                   w3 = (if rsa = None then w2 else new_rsa w2);
                   release = (\<lambda>x. (if rsa = None then id else RSA_free) (x\<lparr>x509_objects := x509_objects x - 1\<rparr>))
               in case fopen_write key_path w3 of
                    None \<Rightarrow> Inr (RSA_TRANSFORM_OPEN_ERROR, release (fclose w3))
                  | Some w4 \<Rightarrow>
                      let w5 = (case rsa of Some k \<Rightarrow> w4\<lparr>files := (files w4)(key_path \<mapsto> PublicKey k)\<rparr> | None \<Rightarrow> w4)
                      in Inr (0, release (fclose (fclose w5)))))"

definition getRsaEncryptResult :: "rsa_crypto \<Rightarrow> byte list" where
  "getRsaEncryptResult r = encrypt_result r"

definition getRsaDecryptResult :: "rsa_crypto \<Rightarrow> byte list" where
  "getRsaDecryptResult r = decrypt_result r"

section \<open>Decryption\<close>

definition c_str :: "byte list \<Rightarrow> byte list" where
  "c_str bs = takeWhile (\<lambda>c. c \<noteq> 0) bs"

text \<open>A decrypted piece leaves a NUL in \<open>tmp_buff\<close>, which has 256 bytes.\<close>

definition terminated :: "byte list \<Rightarrow> bool" where
  "terminated p \<longleftrightarrow> length p < 256 \<or> length p = 256 \<and> 0 \<in> set p"

lemma strlen_padded:
  assumes "0 < k \<or> 0 \<in> set bs"
  shows "strlen (bs @ replicate k 0) = Inr (length (c_str bs))" and "take (length (c_str bs)) (bs @ replicate k 0) = c_str bs"
proof -
  show "strlen (bs @ replicate k 0) = Inr (length (c_str bs))"
    unfolding strlen_def c_str_def takeWhile_nonzero_zeros using assms by auto
  show "take (length (c_str bs)) (bs @ replicate k 0) = c_str bs"
    unfolding c_str_def by (metis append.assoc append_eq_conv_conj takeWhile_dropWhile_id)
qed

text \<open>One round.\<close>

lemma piece_step:
  assumes "content @ [0] = pre @ c @ post" and "length pre = i * RSA_size ossl rsa" and "length c = RSA_size ossl rsa"
    and "RSA_size ossl rsa \<le> 256"
  shows "RSA_private_decrypt ossl (padding_arg padding) rsa c = None \<Longrightarrow>
      decrypt_pieces ossl padding rsa content i (Suc n) acc = Inr (False, acc)"
    and "RSA_private_decrypt ossl (padding_arg padding) rsa c = Some p \<Longrightarrow>
      decrypt_pieces ossl padding rsa content i (Suc n) acc =
        (if terminated p then decrypt_pieces ossl padding rsa content (i + 1) n (acc @ c_str p) else Inl OutOfBounds)"
proof -
  have r: "mem_read (content @ [0]) (i * RSA_size ossl rsa) (RSA_size ossl rsa) = Inr c"
    unfolding assms(1) using assms(2,3) by (simp add: mem_read_def flip: assms(2))
  have w: "mem_write (replicate (256 + 1) 0) 0 c = Inr (c @ replicate (257 - length c) 0)" using assms(3,4) by (simp add: mem_write_def)
  have c: "mem_read (c @ replicate (257 - length c) 0) 0 (RSA_size ossl rsa) = Inr c" using assms(3) by (simp add: mem_read_def)
  show "RSA_private_decrypt ossl (padding_arg padding) rsa c = None \<Longrightarrow>
      decrypt_pieces ossl padding rsa content i (Suc n) acc = Inr (False, acc)"
    unfolding decrypt_pieces.simps Let_def r bnd_Inr w c by simp
  assume p: "RSA_private_decrypt ossl (padding_arg padding) rsa c = Some p"
  show "decrypt_pieces ossl padding rsa content i (Suc n) acc =
    (if terminated p then decrypt_pieces ossl padding rsa content (i + 1) n (acc @ c_str p) else Inl OutOfBounds)"
  proof (cases "length p \<le> 256")
    case True
    then have "mem_write (replicate 256 0) 0 p = Inr (p @ replicate (256 - length p) 0)" by (simp add: mem_write_def)
    moreover have "mem_read (p @ replicate (256 - length p) 0) 0 (length p) = Inr p" by (simp add: mem_read_def)
    moreover have "strlen (p @ replicate (256 - length p) 0) = Inl OutOfBounds" if "\<not> terminated p"
      using that True by (simp add: terminated_def strlen_def)
    moreover have "0 < 256 - length p \<or> 0 \<in> set p" if "terminated p" using that by (auto simp: terminated_def)
    ultimately show ?thesis
      unfolding decrypt_pieces.simps Let_def r bnd_Inr w c using p strlen_padded [of "256 - length p" p] by simp
  next
    case False
    then have "mem_write (replicate 256 0) 0 p = Inl OutOfBounds" by (simp add: mem_write_def)
    then show ?thesis using False p unfolding decrypt_pieces.simps Let_def r bnd_Inr w c by (simp add: terminated_def)
  qed
qed

definition decrypted :: "'k openssl \<Rightarrow> int \<Rightarrow> 'k \<Rightarrow> byte list \<Rightarrow> byte list \<Rightarrow> bool" where
  "decrypted ossl padding k c p \<longleftrightarrow> RSA_private_decrypt ossl (padding_arg padding) k c = Some p"

lemma pieces_run:
  assumes "list_all2 (decrypted ossl padding k) cs ps" and "\<forall>p \<in> set ps. terminated p"
    and "\<forall>c \<in> set cs. length c = RSA_size ossl k" and "RSA_size ossl k \<le> 256" and "content @ [0] = pre @ concat cs @ post" and "length pre = i * RSA_size ossl k"
  shows "decrypt_pieces ossl padding k content i (length cs + n) acc =
    decrypt_pieces ossl padding k content (i + length cs) n (acc @ concat (map c_str ps))"
  using assms
proof (induction arbitrary: pre i acc rule: list_all2_induct)
  case (Cons c cs p ps)
  have c: "length c = RSA_size ossl k" "RSA_size ossl k \<le> 256" "content @ [0] = pre @ c @ concat cs @ post" using Cons.prems by simp_all
  have "decrypt_pieces ossl padding k content (i + 1) (length cs + n) (acc @ c_str p) =
    decrypt_pieces ossl padding k content (i + 1 + length cs) n ((acc @ c_str p) @ concat (map c_str ps))"
    using Cons.prems by (intro Cons.IH [of "pre @ c"]) simp_all
  then show ?case using piece_step(2) [OF c(3) Cons.prems(5) c(1,2), of padding p "length cs + n" acc] Cons.hyps(1) Cons.prems(1)
    by (simp add: decrypted_def)
qed simp

text \<open>The number of rounds for a text whose Base64 form has the length given.\<close>

lemma chunk_count:
  assumes "4 < L" and "0 < k" and "t = 4 * ((k * L + 2) div 3)"
  shows "int L < total_len (int t) \<and> nat (content_chunk_size (total_len (int t)) (int L) - 1) = k"
proof -
  define e where "e = 3 * ((k * L + 2) div 3) - k * L"
  have e: "e \<le> 2" "3 * ((k * L + 2) div 3) = k * L + e" unfolding e_def by presburger+
  have "total_len (int t) = int (3 * ((k * L + 2) div 3) + 2)" using assms(3) by (simp add: total_len_def)
  then have tl: "total_len (int t) = int (k * L + (e + 2))" unfolding e(2) by simp
  have "x < L \<Longrightarrow> (k * L + x) div L = k \<and> (k * L + x) mod L = x" for x using assms(1) by simp
  then have "(k * L + (e + 2)) div L = k" "(k * L + (e + 2)) mod L = e + 2" using e(1) assms(1) by (metis add_mono le_less_trans nat_le_linear numeral_Bit0 order_refl)+
  then have "content_chunk_size (total_len (int t)) (int L) = int k + 1"
    unfolding content_chunk_size_def tl of_nat_mod [symmetric] of_nat_div [symmetric] by simp
  moreover have "L < k * L + (e + 2)" using assms(2) by (cases k) simp_all
  ultimately show ?thesis unfolding tl of_nat_less_iff by simp
qed

lemma length_pieces: "\<forall>c \<in> set cs. length c = L \<Longrightarrow> length (concat cs) = length cs * L"
  by (induction cs) auto

text \<open>C25. A text encrypted in pieces of the key's size and transported in Base64: \<open>decryptContent\<close>, given the pieces and
  the length of the Base64 text, treats exactly these pieces in order. With keys of up to 2048 bits it appends what each
  piece decrypts to, up to its first NUL, to the earlier result and releases all it opened. The first piece that OpenSSL refuses ends
  it with an error, what came before stays in the result and the key is not freed; the first piece that decrypts to 256 bytes
  without a NUL, which a key of 2048 bits without padding allows, makes it read past its buffer. With keys of more than 2056 bits
  it writes past its buffer.\<close>

theorem rsa_decrypt_pieces:
  assumes "files w (private_key_path r) = Some (PrivateKey k)" and "open_files w < file_limit w"
    and "\<forall>c \<in> set (cs @ ds). length c = RSA_size ossl k" and "4 < RSA_size ossl k" and "cs @ ds \<noteq> []"
    and "list_all2 (decrypted ossl padding k) cs ps" and "\<forall>p \<in> set ps. terminated p"
    and "ds = [] \<or> RSA_private_decrypt ossl (padding_arg padding) k (hd ds) = None \<or> (\<exists>p. decrypted ossl padding k (hd ds) p \<and> \<not> terminated p)"
    and "base64Encode (concat (cs @ ds)) (Some d) = Inr (True, Some b64)" and "length (concat (cs @ ds)) < 2 ^ 30"
  shows "(RSA_size ossl k \<le> 256 \<longrightarrow> decryptContent ossl (concat (cs @ ds)) (int (length b64)) padding r w =
      (if ds = [] then Inr (0, r\<lparr>decrypt_result := decrypt_result r @ concat (map c_str ps)\<rparr>, w)
       else if RSA_private_decrypt ossl (padding_arg padding) k (hd ds) = None
       then Inr (RSA_DECRYPT_ERROR, r\<lparr>decrypt_result := decrypt_result r @ concat (map c_str ps)\<rparr>, w\<lparr>rsa_objects := rsa_objects w + 1\<rparr>)
       else Inl OutOfBounds)) \<and>
    (257 < RSA_size ossl k \<longrightarrow> decryptContent ossl (concat (cs @ ds)) (int (length b64)) padding r w = Inl OutOfBounds)"
proof -
  let ?L = "RSA_size ossl k" and ?text = "concat (cs @ ds)"
  have len: "length ?text = length (cs @ ds) * ?L" by (rule length_pieces [OF assms(3)])
  then have ne: "?text \<noteq> []" using assms(4,5) by (metis length_0_conv length_greater_0_conv less_nat_zero_code mult_is_0 not_gr_zero)
  have "length b64 = 4 * ((length (cs @ ds) * ?L + 2) div 3)"
    using base64Encode_eq [OF ne assms(10), of d] assms(9) length_groups [of ?text 0] unfolding len by simp
  then have n: "int ?L < total_len (int (length b64))" "nat (content_chunk_size (total_len (int (length b64))) (int ?L) - 1) = length cs + length ds"
    using chunk_count [OF assms(4), of "length (cs @ ds)"] assms(5) by simp_all
  have run: "decryptContent ossl ?text (int (length b64)) padding r w =
      bnd (decrypt_pieces ossl padding k ?text 0 (length cs + length ds) (decrypt_result r))
        (\<lambda>(fin, res). Inr (if fin then 0 else RSA_DECRYPT_ERROR, r\<lparr>decrypt_result := res\<rparr>, if fin then w else w\<lparr>rsa_objects := rsa_objects w + 1\<rparr>))"
    unfolding decryptContent_def using assms(1,2) n
    by (simp add: fopen_read_def new_rsa_def fclose_def RSA_free_def Let_def if_distrib cong: if_cong)
  show ?thesis
  proof (cases "?L \<le> 256")
    case True
    have "decrypt_pieces ossl padding k ?text 0 (length cs + length ds) (decrypt_result r) =
        decrypt_pieces ossl padding k ?text (length cs) (length ds) (decrypt_result r @ concat (map c_str ps))"
      using pieces_run [of ossl padding k cs ps ?text "[]" "concat ds @ [0]" 0 "length ds"] assms(3,6,7) True by simp
    moreover have "decrypt_pieces ossl padding k ?text (length cs) (length ds) acc =
        (if ds = [] \<or> RSA_private_decrypt ossl (padding_arg padding) k (hd ds) = None then Inr (ds = [], acc) else Inl OutOfBounds)" for acc
    proof (cases ds)
      case (Cons c es)
      have "?text @ [0] = concat cs @ c @ concat es @ [0]" "length (concat cs) = length cs * ?L" "length c = ?L"
        using Cons assms(3) length_pieces [of cs ?L] by auto
      from piece_step [OF this True, of padding] show ?thesis using assms(8) Cons by (auto simp: decrypted_def)
    qed simp
    ultimately show ?thesis using True unfolding run by simp
  next
    case False
    have "\<exists>bs. mem_read (?text @ [0]) 0 ?L = Inr bs \<and> length bs = ?L"
      using len assms(5) by (cases "cs @ ds") (auto simp: mem_read_def)
    then have "257 < ?L \<Longrightarrow> decrypt_pieces ossl padding k ?text 0 (length cs + length ds) acc = Inl OutOfBounds" for acc
      using assms(5) by (cases "length cs + length ds") (auto simp: Let_def mem_write_def simp del: replicate.simps)
    then show ?thesis using False unfolding run by auto
  qed
qed

text \<open>An OpenSSL with keys of 128 bits: a piece starts with the number of its bytes and each byte is masked.\<close>

definition sample_openssl :: "byte openssl" where
  "sample_openssl = \<lparr>RSA_size = (\<lambda>_. 16),
     RSA_public_encrypt = (\<lambda>padding k m.
       if padding = RSA_NO_PADDING then (if length m = 16 then Some (map (\<lambda>b. b + k) m) else None)
       else if length m + 11 \<le> 16 then Some (map (\<lambda>b. b + k) (word_of_nat (length m) # m @ replicate (15 - length m) 0)) else None),
     RSA_private_decrypt = (\<lambda>padding k c.
       let d = map (\<lambda>b. b - k) c in
       if length c \<noteq> 16 then None
       else if padding = RSA_NO_PADDING then Some d
       else if unat (hd d) + 11 \<le> 16 then Some (take (unat (hd d)) (tl d)) else None)\<rparr>"

definition sample_world :: "byte rsa_world" where
  "sample_world = \<lparr>files = [''pub'' \<mapsto> PublicKey 7, ''priv'' \<mapsto> PrivateKey 7], writable = (\<lambda>_. True), open_files = 0, file_limit = 3,
     rsa_objects = 0, pkey_objects = 0, x509_objects = 0\<rparr>"

definition sample_pieces :: "byte list list" where
  "sample_pieces = map (\<lambda>m. map (\<lambda>b. b + 7) (word_of_nat (length m) # m @ replicate (15 - length m) 0)) [[72, 105, 33], [79, 75]]"

theorem rsa_decrypt_pieces_witness:
  "\<exists>b64. base64Encode (concat sample_pieces) (Some []) = Inr (True, Some b64) \<and>
     decryptContent sample_openssl (concat sample_pieces) (int (length b64)) RSA_PKCS1_PADDING (RSACrypto ''pub'' ''priv'') sample_world =
       Inr (0, (RSACrypto ''pub'' ''priv'')\<lparr>decrypt_result := [72, 105, 33, 79, 75]\<rparr>, sample_world)"
proof -
  let ?r = "RSACrypto ''pub'' ''priv''"
  obtain b64 where t: "base64Encode (concat (sample_pieces @ [])) (Some []) = Inr (True, Some b64)"
    using base64Encode_eq [of "concat sample_pieces" "[]"] by (simp add: sample_pieces_def)
  have f: "files sample_world (private_key_path ?r) = Some (PrivateKey 7)" "open_files sample_world < file_limit sample_world"
    by (simp_all add: sample_world_def RSACrypto_def)
  have p: "\<forall>c \<in> set (sample_pieces @ []). length c = RSA_size sample_openssl 7" "4 < RSA_size sample_openssl 7" "sample_pieces @ [] \<noteq> []"
    "length (concat (sample_pieces @ [])) < 2 ^ 30" by (simp_all add: sample_pieces_def sample_openssl_def)
  have d: "list_all2 (decrypted sample_openssl RSA_PKCS1_PADDING 7) sample_pieces [[72, 105, 33], [79, 75]]"
    by (simp add: decrypted_def sample_pieces_def sample_openssl_def padding_arg_def RSA_PKCS1_PADDING_def RSA_NO_PADDING_def)
  have "\<forall>p \<in> set [[72, 105, 33], [79, 75]]. terminated p" by (simp add: terminated_def)
  then show ?thesis using t rsa_decrypt_pieces [OF f p(1-3) d _ _ t p(4)]
    by (simp add: sample_openssl_def c_str_def RSACrypto_def)
qed

section \<open>Encryption\<close>

text \<open>What the manual of \<open>RSA_public_encrypt\<close> says.\<close>

definition encrypt_laws :: "'k openssl \<Rightarrow> bool" where
  "encrypt_laws ossl \<longleftrightarrow> (\<forall>p k m c. RSA_public_encrypt ossl p k m = Some c \<longrightarrow>
     length c = RSA_size ossl k \<and> (p = RSA_PKCS1_PADDING \<longrightarrow> length m + 11 \<le> RSA_size ossl k))"

text \<open>Calls of \<open>encryptContent\<close> in a row.\<close>

fun encrypt_all :: "'k openssl \<Rightarrow> int \<Rightarrow> byte list list \<Rightarrow> rsa_crypto \<Rightarrow> 'k rsa_world \<Rightarrow> (rsa_crypto \<times> 'k rsa_world) result" where
  "encrypt_all ossl padding [] r w = Inr (r, w)"
| "encrypt_all ossl padding (c # cs) r w = bnd (encryptContent ossl c padding r w) (\<lambda>(_, r1, w1). encrypt_all ossl padding cs r1 w1)"

definition leaked :: "'k rsa_world \<Rightarrow> 'k rsa_world" where
  "leaked w = w\<lparr>open_files := open_files w + 1, rsa_objects := rsa_objects w + 1\<rparr>"

lemma encrypt_eq:
  assumes "files w (public_key_path r) = Some (PublicKey k)" and "open_files w < file_limit w" and "encrypt_laws ossl"
  shows "encryptContent ossl content padding r w =
    (if RSA_size ossl k < length content then Inr (RSA_ENCRYPT_DATA_TO_LARGE, r, leaked w)
     else if length content + 1 < RSA_size ossl k then Inl OutOfBounds
     else case RSA_public_encrypt ossl (padding_arg padding) k (c_str content) of
       None \<Rightarrow> Inr (- 1, r, leaked w) | Some out \<Rightarrow> Inr (0, r\<lparr>encrypt_result := out\<rparr>, leaked w))"
proof -
  let ?L = "RSA_size ossl k"
  have rd: "mem_read (content @ [0]) 0 ?L = Inr (take ?L (content @ [0]))" if "?L \<le> length content + 1" using that by (simp add: mem_read_def)
  have wr: "mem_write (replicate (?L + 1) 0) 0 (take ?L (content @ [0])) = Inr (content @ replicate (?L + 1 - length content) 0)"
    if "length content \<le> ?L" "?L \<le> length content + 1"
  proof (cases "?L = length content")
    case False
    then have "?L = length content + 1" using that by simp
    then show ?thesis by (simp add: mem_write_def numeral_2_eq_2 flip: replicate_Suc)
  qed (simp add: mem_write_def flip: replicate_Suc)
  have out: "RSA_public_encrypt ossl p k m = Some c \<Longrightarrow> mem_write (replicate ?L 0) 0 c = Inr c \<and> length c = ?L" for p m c
    using assms(3) by (simp add: encrypt_laws_def mem_write_def)
  note s = strlen_padded [of "?L + 1 - length content" content]
  show ?thesis unfolding encryptContent_def using assms(1,2) rd wr out s
    by (auto simp: fopen_read_def new_rsa_def leaked_def Let_def mem_read_def split: option.splits)
qed

lemma encrypt_frame: "encryptContent ossl content padding r w = Inr (e, r', w') \<Longrightarrow>
    files w (public_key_path r) = Some (PublicKey k) \<Longrightarrow> open_files w < file_limit w \<and> open_files w' = open_files w + 1 \<and>
    file_limit w' = file_limit w \<and> files w' = files w \<and> public_key_path r' = public_key_path r"
  by (auto simp: encryptContent_def fopen_read_def new_rsa_def Let_def bnd_simps split: option.splits if_splits)

lemma encrypt_all_bounded:
  "encrypt_all ossl padding cs r w = Inr (r', w') \<Longrightarrow> files w (public_key_path r) = Some (PublicKey k) \<Longrightarrow> open_files w \<le> file_limit w \<Longrightarrow>
    open_files w + length cs \<le> file_limit w"
proof (induction cs arbitrary: r w)
  case (Cons c cs)
  then obtain e r1 w1 where e: "encryptContent ossl c padding r w = Inr (e, r1, w1)" "encrypt_all ossl padding cs r1 w1 = Inr (r', w')"
    by (auto simp: bnd_simps)
  then show ?case using Cons.IH [OF e(2)] Cons.prems(2) encrypt_frame [OF e(1) Cons.prems(2)] by simp
qed simp

text \<open>C40. \<open>encryptContent\<close> with a readable key refuses a text longer than the key and reads past the end of a text that is
  shorter than the key by more than one byte; of the others it encrypts what stands before the first NUL. With PKCS 1 padding
  it therefore never encrypts a text without NUL. Every call leaves the stream and the key open, so that a program cannot make
  more calls than it may open files: the next one dereferences a null stream.\<close>

theorem rsa_encrypt_outcomes:
  assumes "files w (public_key_path r) = Some (PublicKey k)" and "open_files w < file_limit w" and "encrypt_laws ossl"
  shows "encryptContent ossl content padding r w =
      (if RSA_size ossl k < length content then Inr (RSA_ENCRYPT_DATA_TO_LARGE, r, leaked w)
       else if length content + 1 < RSA_size ossl k then Inl OutOfBounds
       else case RSA_public_encrypt ossl (padding_arg padding) k (c_str content) of
         None \<Rightarrow> Inr (- 1, r, leaked w) | Some out \<Rightarrow> Inr (0, r\<lparr>encrypt_result := out\<rparr>, leaked w)) \<and>
    (0 \<notin> set content \<longrightarrow> encryptContent ossl content RSA_PKCS1_PADDING r w \<noteq> Inr (0, r', w')) \<and>
    (file_limit w - open_files w < length cs \<longrightarrow> (\<exists>e. encrypt_all ossl padding cs r w = Inl e))"
proof (intro conjI impI)
  assume "0 \<notin> set content"
  then have "c_str content = content" by (auto simp: c_str_def intro: takeWhile_eq_all_conv [THEN iffD2])
  then have "RSA_public_encrypt ossl RSA_PKCS1_PADDING k (c_str content) = None" if "RSA_size ossl k \<le> length content + 1"
    using assms(3) that unfolding encrypt_laws_def by (cases "RSA_public_encrypt ossl RSA_PKCS1_PADDING k content") fastforce+
  then show "encryptContent ossl content RSA_PKCS1_PADDING r w \<noteq> Inr (0, r', w')"
    unfolding encrypt_eq [OF assms] by (auto simp: padding_arg_def RSA_PKCS1_PADDING_def rsa_codes)
next
  assume "file_limit w - open_files w < length cs"
  then show "\<exists>e. encrypt_all ossl padding cs r w = Inl e"
    using encrypt_all_bounded [OF _ assms(1), of ossl padding cs] assms(2) by (cases "encrypt_all ossl padding cs r w") (fastforce)+
qed (rule encrypt_eq [OF assms])

theorem rsa_encrypt_outcomes_witness:
  "encrypt_laws sample_openssl \<and> encryptContent sample_openssl [1, 2, 3] 0 (RSACrypto ''pub'' ''priv'') sample_world = Inl OutOfBounds \<and>
   (\<exists>e. encrypt_all sample_openssl 0 (replicate 4 (replicate 16 1)) (RSACrypto ''pub'' ''priv'') sample_world = Inl e)"
proof -
  have l: "encrypt_laws sample_openssl"
    by (auto simp: encrypt_laws_def sample_openssl_def RSA_PKCS1_PADDING_def RSA_NO_PADDING_def split: if_splits)
  have f: "files sample_world (public_key_path (RSACrypto ''pub'' ''priv'')) = Some (PublicKey 7)" "open_files sample_world < file_limit sample_world"
    by (simp_all add: sample_world_def RSACrypto_def)
  have n: "file_limit sample_world - open_files sample_world < length (replicate 4 (replicate 16 1 :: byte list))" by (simp add: sample_world_def)
  have s: "RSA_size sample_openssl 7 = 16" by (simp add: sample_openssl_def)
  show ?thesis using l n s rsa_encrypt_outcomes [OF f l, of "[1, 2, 3]" 0 _ _ "replicate 4 (replicate 16 1)"] by simp
qed

section \<open>Certificates\<close>

text \<open>A certificate with an RSA key gives a file that \<open>encryptContent\<close> reads this key from; one with another key gives
  a file it cannot read, and no error. Either way the object of \<open>X509_get_pubkey\<close> stays.\<close>

lemma certificate_key:
  assumes "files w cert = Some (Certificate p)" and "p \<noteq> NoKey" and "cert \<noteq> []" and "pub \<noteq> []" and "writable w pub"
    and "open_files w + 1 < file_limit w"
  shows "\<exists>w1. getPublicKeyFromCertificate cert pub w = Inr (0, w1) \<and> open_files w1 = open_files w \<and> rsa_objects w1 = rsa_objects w \<and>
    x509_objects w1 = x509_objects w \<and> pkey_objects w1 = pkey_objects w + 1 \<and> file_limit w1 = file_limit w \<and>
    setPublicKeyPath pub r w1 = (0, r\<lparr>public_key_path := pub\<rparr>, w1) \<and>
    files w1 pub = Some (case p of RsaKey k \<Rightarrow> PublicKey k | _ \<Rightarrow> OtherFile)"
  using assms
  by (cases p) (auto simp: getPublicKeyFromCertificate_def fopen_read_def fopen_write_def fclose_def new_rsa_def RSA_free_def Let_def
      setPublicKeyPath_def checkFileExist_def)

end
