(* ===== verification/Https_Client.thy ===== *)
theory Https_Client
  imports Atp_Prelude
begin

text \<open>
  \<open>app/atp_event_https.cpp\<close>: one HTTPS POST per call of \<open>launchRequest\<close>, on an event base of its own.
  The answers of libevent and OpenSSL are arguments (\<open>https_env\<close>), among them the parsed URI and how the
  request finishes while the event base loops; the state is the sessions, the objects not yet freed and
  the requests handed to libevent. Texts are byte lists.
\<close>

section \<open>libevent and OpenSSL\<close>

text \<open>\<open>uri_port\<close> is -1 when the URI has none; the other parts are null pointers then.\<close>

record evhttp_uri =
  uri_host :: "byte list option"
  uri_port :: int
  uri_path :: "byte list option"
  uri_query :: "byte list option"

datatype DataType = TYPE_BINARY | TYPE_JSON | TYPE_PROTOBUF | TYPE_NULL

datatype http_method = EVHTTP_REQ_GET | EVHTTP_REQ_POST

text \<open>
  How a request ends: the callback never runs (\<open>evhttp_make_request\<close> failed), it runs with a null request
  (no connection, timeout), or with a response and its body. \<open>he_errors\<close> are the OpenSSL errors of the
  bufferevent.
\<close>

datatype finish = Not_run | No_request | Response int "byte list"

record https_env =
  evhttp_uri_parse :: "byte list \<Rightarrow> evhttp_uri option"
  he_base :: bool
  he_ssl_ctx :: bool
  he_bev :: bool
  he_request :: bool
  he_conn :: bool
  he_finish :: finish
  he_errors :: "nat list"
  he_garbage :: int

record https_request =
  req_host :: "byte list"
  req_port :: int
  req_method :: http_method
  req_target :: "byte list"
  req_headers :: "(byte list \<times> byte list) list"
  req_body :: "byte list"

record https_world =
  live_uris :: nat
  live_bases :: nat
  live_ctxs :: nat
  live_bevs :: nat
  live_conns :: nat
  live_sessions :: nat
  sent :: "https_request list"

section \<open>HttpsClient\<close>

definition HTTP_OK :: int where "HTTP_OK = 200"

record session =
  ssn_port :: int
  ssn_method :: "http_method option"
  ssn_status :: int
  ssn_uri :: "byte list"
  ssn_host :: "byte list"
  ssn_post_data :: "byte list"
  ssn_type :: DataType
  ssn_response :: "byte list"
  ssn_ssl_ctx :: bool
  ssn_base :: bool
  ssn_bev :: bool
  ssn_conn :: bool

text \<open>The constructor leaves \<open>status\<close>, \<open>method\<close> and \<open>ssl_ctx\<close> unassigned: \<open>garbage\<close> is what the memory held.\<close>

definition session_new :: "int \<Rightarrow> byte list \<Rightarrow> int \<Rightarrow> byte list \<Rightarrow> byte list \<Rightarrow> DataType \<Rightarrow> session" where
  "session_new garbage remote_host remote_port post_uri data data_type =
     \<lparr>ssn_port = remote_port, ssn_method = None, ssn_status = garbage, ssn_uri = post_uri, ssn_host = remote_host,
      ssn_post_data = data, ssn_type = data_type, ssn_response = [], ssn_ssl_ctx = False, ssn_base = False, ssn_bev = False, ssn_conn = False\<rparr>"

definition session_destroy :: "session \<Rightarrow> https_world \<Rightarrow> https_world" where
  "session_destroy s w = w\<lparr>live_ctxs := (if ssn_ssl_ctx s then live_ctxs w - 1 else live_ctxs w), live_sessions := live_sessions w - 1\<rparr>"

text \<open>The ASCII codes of a literal.\<close>

definition text_bytes :: "string \<Rightarrow> byte list" where
  "text_bytes s = map (\<lambda>c. word_of_nat (of_char c)) s"

text \<open>The loop over the OpenSSL errors; whether one was printed.\<close>

fun openssl_errors :: "nat list \<Rightarrow> bool \<Rightarrow> bool" where
  "openssl_errors [] printed_err = printed_err"
| "openssl_errors (oslerr # es) printed_err = (if oslerr = 0 then printed_err else openssl_errors es True)"

text \<open>The lines logged by \<open>requestFinished\<close>.\<close>

datatype https_log = Status_code int | Socket_error

definition requestFinished :: "finish \<Rightarrow> nat list \<Rightarrow> session \<Rightarrow> session \<times> https_log list" where
  "requestFinished f errors s =
     (let status_code = (case f of Response code _ \<Rightarrow> code | _ \<Rightarrow> 0);
          log1 = (if status_code \<noteq> HTTP_OK then [Status_code status_code] else []);
          s1 = s\<lparr>ssn_status := status_code\<rparr>;
          printed_err = openssl_errors errors False;
          log2 = (if \<not> printed_err \<and> ssn_status s1 \<noteq> HTTP_OK then [Socket_error] else []);
          s2 = (case f of Response _ body \<Rightarrow> s1\<lparr>ssn_response := takeWhile (\<lambda>c. c \<noteq> 0) (body @ [0])\<rparr> | _ \<Rightarrow> s1)
      in (s2, log1 @ log2))"

definition doPostRequest :: "https_env \<Rightarrow> session \<Rightarrow> https_world \<Rightarrow> (session \<times> https_world) result" where
  "doPostRequest env s w =
     (if \<not> ssn_base s then Inl NullDeref
      else if \<not> he_bev env then Inr (s, w)
      else if \<not> he_request env then Inl NullDeref
      else if \<not> he_conn env then Inl NullDeref
      else
        let headers = [(text_bytes ''Host'', ssn_host s), (text_bytes ''Connection'', text_bytes ''close'')] @
              (if ssn_type s = TYPE_JSON then [(text_bytes ''Content-Type'', text_bytes ''application/json;charset=UTF-8'')] else [])
        in Inr (s\<lparr>ssn_bev := True, ssn_conn := True\<rparr>,
             w\<lparr>live_bevs := live_bevs w + 1, live_conns := live_conns w + 1,
               sent := sent w @ [\<lparr>req_host = ssn_host s, req_port = ssn_port s, req_method = EVHTTP_REQ_POST, req_target = ssn_uri s,
                 req_headers = headers, req_body = ssn_post_data s\<rparr>]\<rparr>))"

text \<open>The connection owns its bufferevent.\<close>

definition evhttp_connection_free :: "session \<Rightarrow> https_world \<Rightarrow> https_world result" where
  "evhttp_connection_free s w =
     (if ssn_conn s then Inr (w\<lparr>live_conns := live_conns w - 1, live_bevs := live_bevs w - 1\<rparr>) else Inl NullDeref)"

definition event_base_free :: "session \<Rightarrow> https_world \<Rightarrow> https_world" where
  "event_base_free s w = (if ssn_base s then w\<lparr>live_bases := live_bases w - 1\<rparr> else w)"

text \<open>The part of \<open>launchRequest\<close> that needs the session.\<close>

definition run_session :: "https_env \<Rightarrow> session \<Rightarrow> https_world \<Rightarrow> (byte list \<times> https_world) result" where
  "run_session env s0 w0 =
     (let s1 = s0\<lparr>ssn_method := Some EVHTTP_REQ_POST, ssn_base := he_base env, ssn_ssl_ctx := he_ssl_ctx env\<rparr>;
          w1 = w0\<lparr>live_bases := live_bases w0 + (if he_base env then 1 else 0), live_ctxs := live_ctxs w0 + (if he_ssl_ctx env then 1 else 0)\<rparr>
      in if \<not> he_ssl_ctx env then Inr ([], session_destroy s1 (event_base_free s1 w1))
         else
           bnd (doPostRequest env s1 w1) (\<lambda>(s2, w2).
             let s3 = (if ssn_conn s2 \<and> he_finish env \<noteq> Not_run then fst (requestFinished (he_finish env) (he_errors env) s2) else s2);
                 result = (if ssn_status s3 \<noteq> HTTP_OK then [] else ssn_response s3)
             in bnd (evhttp_connection_free s3 w2) (\<lambda>w3.
                  Inr (result, session_destroy s3 (event_base_free s3 w3)))))"

definition launchRequest :: "https_env \<Rightarrow> byte list \<Rightarrow> byte list \<Rightarrow> DataType \<Rightarrow> https_world \<Rightarrow> (byte list \<times> https_world) result" where
  "launchRequest env uri data data_type w =
     (case evhttp_uri_parse env uri of
        None \<Rightarrow> Inr ([], w)
      | Some http_uri \<Rightarrow>
          let w1 = w\<lparr>live_uris := live_uris w + 1\<rparr>;
              port = (if uri_port http_uri = - 1 then 443 else uri_port http_uri)
          in case uri_path http_uri of
               None \<Rightarrow> Inr ([], w1)
             | Some path \<Rightarrow>
                 let target = (case uri_query http_uri of None \<Rightarrow> path | Some query \<Rightarrow> path @ text_bytes ''?'' @ query)
                 in case uri_host http_uri of
                      None \<Rightarrow> Inl NullDeref
                    | Some host \<Rightarrow>
                        run_session env (session_new (he_garbage env) host port target data data_type)
                          (w1\<lparr>live_sessions := live_sessions w1 + 1\<rparr>))"

section \<open>Requests\<close>

definition answer :: "finish \<Rightarrow> byte list" where
  "answer f = (case f of Response code body \<Rightarrow> if code = HTTP_OK then takeWhile (\<lambda>c. c \<noteq> 0) body else [] | _ \<Rightarrow> [])"

definition post_request :: "byte list \<Rightarrow> evhttp_uri \<Rightarrow> byte list \<Rightarrow> byte list \<Rightarrow> DataType \<Rightarrow> https_request" where
  "post_request host u path data data_type =
     \<lparr>req_host = host, req_port = (if uri_port u = - 1 then 443 else uri_port u), req_method = EVHTTP_REQ_POST,
      req_target = path @ (case uri_query u of None \<Rightarrow> [] | Some q \<Rightarrow> text_bytes ''?'' @ q),
      req_headers = [(text_bytes ''Host'', host), (text_bytes ''Connection'', text_bytes ''close'')] @
        (if data_type = TYPE_JSON then [(text_bytes ''Content-Type'', text_bytes ''application/json;charset=UTF-8'')] else []),
      req_body = data\<rparr>"

lemma takeWhile_end: "takeWhile (\<lambda>c. c \<noteq> 0) (xs @ [0]) = takeWhile (\<lambda>c. c \<noteq> 0) (xs :: byte list)"
  by (induction xs) auto

lemma result_of_finish:
  assumes "ssn_response s = []"
  shows "(let s3 = (if f \<noteq> Not_run then fst (requestFinished f es s) else s) in if ssn_status s3 \<noteq> HTTP_OK then [] else ssn_response s3) = answer f"
  using assms by (cases f) (simp_all add: requestFinished_def answer_def Let_def takeWhile_end HTTP_OK_def)

text \<open>C26. For a URI with host and path, and libevent and OpenSSL granting their objects, \<open>launchRequest\<close> hands libevent exactly
  one POST request, for path and query of the URI at its host and port (443 by default), with the caller's data and a
  content type for JSON only. It returns the body up to its first NUL when the status is 200 and the empty text otherwise,
  whatever the unassigned status field held. All objects are freed but the parsed URI.
  Without a bufferevent it frees a null connection.\<close>

theorem https_request_response:
  assumes "evhttp_uri_parse env uri = Some u" and "uri_host u = Some host" and "uri_path u = Some path"
    and "he_base env" and "he_ssl_ctx env" and "he_request env" and "he_conn env"
  shows "launchRequest env uri data data_type w =
    (if he_bev env
     then Inr (answer (he_finish env), w\<lparr>live_uris := live_uris w + 1, sent := sent w @ [post_request host u path data data_type]\<rparr>)
     else Inl NullDeref)"
proof -
  let ?s = "session_new (he_garbage env) host (if uri_port u = - 1 then 443 else uri_port u)
    (path @ (case uri_query u of None \<Rightarrow> [] | Some q \<Rightarrow> text_bytes ''?'' @ q)) data data_type"
  let ?w = "w\<lparr>live_uris := live_uris w + 1, live_sessions := live_sessions w + 1\<rparr>"
  have l: "launchRequest env uri data data_type w = run_session env ?s ?w"
    using assms(1-3) by (simp add: launchRequest_def Let_def split: option.splits)
  define s2 where "s2 = ?s\<lparr>ssn_method := Some EVHTTP_REQ_POST, ssn_base := True, ssn_ssl_ctx := True, ssn_bev := True, ssn_conn := True\<rparr>"
  have "ssn_response s2 = []" by (simp add: s2_def session_new_def)
  note r = result_of_finish [OF this, of "he_finish env" "he_errors env"]
  define s3 where "s3 = (if he_finish env \<noteq> Not_run then fst (requestFinished (he_finish env) (he_errors env) s2) else s2)"
  have s3: "ssn_conn s3" "ssn_base s3" "ssn_ssl_ctx s3"
    by (auto simp: s3_def s2_def requestFinished_def Let_def split: finish.splits)
  let ?s1 = "?s\<lparr>ssn_method := Some EVHTTP_REQ_POST, ssn_base := he_base env, ssn_ssl_ctx := he_ssl_ctx env\<rparr>"
  let ?w1 = "?w\<lparr>live_bases := live_bases ?w + (if he_base env then 1 else 0), live_ctxs := live_ctxs ?w + (if he_ssl_ctx env then 1 else 0)\<rparr>"
  let ?w2 = "?w1\<lparr>live_bevs := live_bevs w + 1, live_conns := live_conns w + 1, sent := sent w @ [post_request host u path data data_type]\<rparr>"
  show ?thesis
  proof (cases "he_bev env")
    case True
    have p: "doPostRequest env ?s1 ?w1 = Inr (s2, ?w2)"
      using True assms(4-7) by (simp add: doPostRequest_def s2_def session_new_def post_request_def Let_def)
    have "ssn_conn s2" by (simp add: s2_def)
    moreover have "evhttp_connection_free s3 ?w2 = Inr (?w2\<lparr>live_conns := live_conns w, live_bevs := live_bevs w\<rparr>)"
      using s3 by (simp add: evhttp_connection_free_def)
    ultimately show ?thesis using True assms(4,5) s3 r unfolding l run_session_def Let_def p bnd_Inr s3_def [symmetric]
      by (simp add: event_base_free_def session_destroy_def s3_def [symmetric] split: if_split_asm)
  next
    case False
    then have p: "doPostRequest env ?s1 ?w1 = Inr (?s1, ?w1)" using assms(4) by (simp add: doPostRequest_def)
    have "\<not> ssn_conn ?s1" by (simp add: session_new_def)
    then show ?thesis using False assms(5) unfolding l run_session_def Let_def p bnd_Inr by (simp add: evhttp_connection_free_def)
  qed
qed

text \<open>A POST of JSON data to \<open>https://h/p\<close>.\<close>

definition sample_https_env :: https_env where
  "sample_https_env = \<lparr>evhttp_uri_parse = (\<lambda>uri. if uri = text_bytes ''https://h/p''
       then Some \<lparr>uri_host = Some (text_bytes ''h''), uri_port = - 1, uri_path = Some (text_bytes ''/p''), uri_query = None\<rparr> else None),
     he_base = True, he_ssl_ctx = True, he_bev = True, he_request = True, he_conn = True, he_finish = Response 200 [79, 75, 0, 1],
     he_errors = [], he_garbage = 77\<rparr>"

definition sample_https_world :: https_world where
  "sample_https_world = \<lparr>live_uris = 0, live_bases = 0, live_ctxs = 0, live_bevs = 0, live_conns = 0, live_sessions = 0, sent = []\<rparr>"

theorem https_request_response_witness:
  "\<exists>w. launchRequest sample_https_env (text_bytes ''https://h/p'') [1, 2] TYPE_JSON sample_https_world = Inr ([79, 75], w) \<and>
     live_uris w = 1 \<and> live_conns w = 0 \<and> length (sent w) = 1 \<and> req_port (hd (sent w)) = 443 \<and> req_body (hd (sent w)) = [1, 2]"
proof -
  let ?u = "\<lparr>uri_host = Some (text_bytes ''h''), uri_port = - 1, uri_path = Some (text_bytes ''/p''), uri_query = None\<rparr>"
  have "evhttp_uri_parse sample_https_env (text_bytes ''https://h/p'') = Some ?u" by (simp add: sample_https_env_def)
  from https_request_response [OF this, of "text_bytes ''h''" "text_bytes ''/p''" "[1, 2]" TYPE_JSON sample_https_world]
  show ?thesis by (simp add: sample_https_env_def sample_https_world_def answer_def HTTP_OK_def post_request_def)
qed

end
