(* ===== verification/Uuid.thy ===== *)
theory Uuid
  imports Atp_Prelude
begin

text \<open>
  \<open>app/atp_uuid.h\<close>: identifiers of 16 bytes and their text form. libuuid is an argument
  (\<open>libuuid\<close>); what \<open>uuid_generate_random\<close> makes is an argument of the calls that use it.
\<close>

record libuuid =
  uuid_unparse :: "byte list \<Rightarrow> byte list"
  uuid_parse :: "byte list \<Rightarrow> byte list option"
  uuid_compare :: "byte list \<Rightarrow> byte list \<Rightarrow> int"
  uuid_clear :: "byte list \<Rightarrow> byte list"
  uuid_is_null :: "byte list \<Rightarrow> int"

record UUIDGenerator =
  has_dev_urandom :: int

text \<open>\<open>fd\<close> is the descriptor of \<open>/dev/urandom\<close>; it is closed again.\<close>

definition UUIDGenerator_new :: "int \<Rightarrow> UUIDGenerator result" where
  "UUIDGenerator_new fd = assert_that (fd \<ge> 0) (Inr \<lparr>has_dev_urandom = 1\<rparr>)"

definition UUIDGenerator_destroy :: "UUIDGenerator \<Rightarrow> UUIDGenerator" where
  "UUIDGenerator_destroy g = g\<lparr>has_dev_urandom := 0\<rparr>"

definition tolower :: "byte \<Rightarrow> byte" where
  "tolower c = (if 65 \<le> c \<and> c \<le> 90 then c + 32 else c)"

definition uuid_toString :: "libuuid \<Rightarrow> byte list \<Rightarrow> byte list result" where
  "uuid_toString lib uuid =
     bnd (mem_write (replicate 128 0) 0 (uuid_unparse lib uuid @ [0])) (\<lambda>data.
     bnd (strlen data) (\<lambda>n. Inr (map tolower (take n data))))"

text \<open>\<open>mem\<close>: whether \<open>calloc\<close> succeeds. \<open>uuid.c_str()\<close> ends at the first NUL.\<close>

definition toUUID :: "libuuid \<Rightarrow> bool \<Rightarrow> byte list \<Rightarrow> byte list option" where
  "toUUID lib mem uuid = (if \<not> mem then None else uuid_parse lib (takeWhile (\<lambda>c. c \<noteq> 0) uuid))"

definition generateUUID :: "libuuid \<Rightarrow> byte list \<Rightarrow> byte list result" where
  "generateUUID lib random = uuid_toString lib random"

definition generateUUID_from :: "libuuid \<Rightarrow> bool \<Rightarrow> byte list \<Rightarrow> byte list option" where
  "generateUUID_from lib mem uuid = toUUID lib mem uuid"

definition compareUUID :: "libuuid \<Rightarrow> byte list \<Rightarrow> byte list \<Rightarrow> int" where
  "compareUUID lib l r = uuid_compare lib l r"

definition clearUUID :: "libuuid \<Rightarrow> byte list \<Rightarrow> byte list" where
  "clearUUID lib uuid = uuid_clear lib uuid"

definition emptyUUID :: "libuuid \<Rightarrow> byte list \<Rightarrow> int" where
  "emptyUUID lib uuid = uuid_is_null lib uuid"

text \<open>The text form libuuid documents: 36 characters, read back in either case.\<close>

definition uuid_laws :: "libuuid \<Rightarrow> bool" where
  "uuid_laws lib \<longleftrightarrow> (\<forall>u. length u = 16 \<longrightarrow> length (uuid_unparse lib u) = 36 \<and> 0 \<notin> set (uuid_unparse lib u) \<and>
     uuid_parse lib (uuid_unparse lib u) = Some u) \<and>
   (\<forall>s. uuid_parse lib (map tolower s) = uuid_parse lib s)"

lemma tolower_nonzero: "c \<noteq> 0 \<Longrightarrow> tolower c \<noteq> 0"
proof -
  have "65 \<le> c \<Longrightarrow> c \<le> 90 \<Longrightarrow> unat (c + 32) = unat c + 32" by (simp add: unat_add_lem [THEN iffD1] word_le_nat_alt)
  then show "c \<noteq> 0 \<Longrightarrow> tolower c \<noteq> 0" unfolding tolower_def by (metis add_is_0 unat_0 zero_neq_numeral)
qed

lemma tolower_idem: "tolower (tolower c) = tolower c"
proof -
  have "65 \<le> c \<Longrightarrow> c \<le> 90 \<Longrightarrow> unat (c + 32) = unat c + 32" by (simp add: unat_add_lem [THEN iffD1] word_le_nat_alt)
  then show ?thesis unfolding tolower_def by (auto simp: word_le_nat_alt)
qed

text \<open>The text of an identifier fits its buffer, is in lower case and names the identifier it was made from.\<close>

lemma uuid_round_trip:
  assumes "uuid_laws lib" and "length u = 16"
  shows "\<exists>s. generateUUID lib u = Inr s \<and> length s = 36 \<and> map tolower s = s \<and> generateUUID_from lib True s = Some u"
proof -
  let ?t = "uuid_unparse lib u"
  have t: "length ?t = 36" "0 \<notin> set ?t" "uuid_parse lib (map tolower ?t) = Some u" using assms by (simp_all add: uuid_laws_def)
  have "mem_write (replicate 128 0) 0 (?t @ [0]) = Inr (?t @ replicate 92 0)"
    using t(1) by (simp add: mem_write_def flip: replicate_Suc)
  moreover have "strlen (?t @ replicate 92 0) = Inr 36" using strlen_append_zeros [OF t(2), of 92] t(1) by simp
  ultimately have g: "generateUUID lib u = Inr (map tolower ?t)" using t(1) by (simp add: generateUUID_def uuid_toString_def)
  have "takeWhile (\<lambda>c. c \<noteq> 0) (map tolower ?t) = map tolower ?t"
    using t(2) by (auto simp: takeWhile_eq_all_conv) (metis tolower_nonzero)
  then have "generateUUID_from lib True (map tolower ?t) = Some u" unfolding generateUUID_from_def toUUID_def using t(3) by metis
  then show ?thesis using g t(1) by (auto simp: tolower_idem comp_def)
qed

end
