(* ===== verification/Codec.thy ===== *)
theory Codec
  imports Atp_Prelude
begin

text \<open>
  \<open>app/atp_codec.hpp\<close>: JSON values and their text, through jsoncpp, which is an argument
  (\<open>jsoncpp\<close>; \<open>'j\<close> is the type of JSON values). The reader returns whether it succeeded, the value in
  the caller's variable afterwards and its messages.
\<close>

record 'j jsoncpp =
  json_null :: 'j
  json_write :: "'j \<Rightarrow> byte list"
  json_parse :: "byte list \<Rightarrow> 'j \<Rightarrow> bool \<times> 'j \<times> byte list"

definition codec_encode :: "'j jsoncpp \<Rightarrow> 'j \<Rightarrow> byte list" where
  "codec_encode lib table = (if table = json_null lib then [] else json_write lib table)"

definition codec_decode :: "'j jsoncpp \<Rightarrow> byte list \<Rightarrow> 'j \<Rightarrow> int \<times> 'j" where
  "codec_decode lib str table =
     (let (res, table1, errs) = json_parse lib str table in if \<not> res \<or> errs \<noteq> [] then (- 1, table1) else (0, table1))"

text \<open>What jsoncpp documents: a text it wrote is read back, the empty text is refused.\<close>

definition json_laws :: "'j jsoncpp \<Rightarrow> bool" where
  "json_laws lib \<longleftrightarrow> (\<forall>t old. json_parse lib (json_write lib t) old = (True, t, [])) \<and> (\<forall>old. \<not> fst (json_parse lib [] old))"

text \<open>Every value but null survives; null becomes the empty text, which is refused.\<close>

lemma codec_round_trip:
  assumes "json_laws lib"
  shows "if t = json_null lib then fst (codec_decode lib (codec_encode lib t) old) = - 1 else codec_decode lib (codec_encode lib t) old = (0, t)"
  using assms by (auto simp: json_laws_def codec_encode_def codec_decode_def Let_def split: prod.splits) (metis fst_conv)

end
