(* ===== verification/Spec2Isabelle.thy ===== *)
theory Spec2Isabelle
  imports Buffer_Program Memory_Pool_Safety Base64 Timing_Wheel Event_Loop_Wakeup Idle_Connections Single_Loop Dao Any Send_Helper Echo_Service Curl_Engine Rsa_Crypto Https_Client Uuid Codec
begin

text \<open>
  A verification development for libatp, a C++ network library on top of libevent. Paths below are
  relative to \<open>src/src/\<close>; the generated messages \<open>rpc.pb.*\<close> and \<open>echo_server.pb.*\<close> and the directory
  \<open>examples\<close> are in \<open>src/\<close>.

  \<^bold>\<open>The program.\<close> A \<open>Server\<close> owns a control loop with a \<open>Listener\<close> and a pool of \<open>EventLoop\<close>s, each with
  its thread. The listener accepts a socket and hands it to the server, which makes a \<open>Connection\<close>,
  enters it in a table, and sends a task to a loop of the pool; there the connection attaches its
  \<open>Channel\<close> to libevent, reads into a \<open>ByteBuffer\<close>, calls the application, and writes what the
  application sends, directly or from a second \<open>ByteBuffer\<close>. A closed connection sends a task back to
  the control loop, which removes it from the table; a timing wheel closes idle connections. Loops
  are woken through an eventfd watcher. An \<open>RpcServer\<close> is a \<open>Server\<close> whose message callback parses an
  \<open>RpcMessage\<close>, calls the service it names and sends the response back. Beside the servers stand a
  thread pool, a memory pool, and utilities: Base64, a type-erased value, thread-local storage, HTTP
  requests over libcurl and over libevent, RSA, Redis commands, identifiers, JSON texts, a client that
  sends one message.

  \<^bold>\<open>Conventions.\<close> An operation that can fail an assertion, leave an object, use a freed or null pointer
  or throw returns \<open>fault + 'a\<close>; \<open>bnd\<close> sequences such operations (\<open>Atp_Prelude\<close>). \<open>size_t\<close> is a natural
  number with the wrap-around at \<open>2 ^ 64\<close> written out, fixed-width integers that are shifted or masked
  are words. What the kernel, libevent, the allocator, the scheduler and other libraries answer is an
  argument of the operation that asks; where a property needs a particular answer (an allocation that
  succeeds, a reply in the documented form) it is a hypothesis. Assertions are checked, as in a build
  without \<open>NDEBUG\<close>. Objects that several parties share are addresses in an explicit store.

  \<^bold>\<open>Theories.\<close>
  \<^item> \<open>Atp_Prelude\<close>: faults, sequencing, \<open>size_t\<close> arithmetic, bounds-checked memory objects.
    \<open>Step_System\<close>: the locales \<open>step_invariant\<close> and \<open>step_frozen\<close>, which every component with
    interleaved operations interprets for its step relation, and \<open>step_simulation\<close>, for an application
    whose steps are sequences of steps of the component it uses. \<open>Byte_Queue\<close>: the locale \<open>byte_queue\<close>, the
    contract between a buffer and its users, interpreted for \<open>ByteBuffer\<close>.
  \<^item> \<open>Byte_Order\<close> (\<open>htonll\<close> of \<open>net/atp_config.h\<close>), \<open>Atp_Slice\<close> (\<open>app/atp_slice.hpp\<close>) and \<open>Byte_Buffer\<close>
    (\<open>net/atp_buffer.hpp\<close>). The record \<open>byte_buffer\<close> has the array and the three indices of the class.
    Any sequence of \<open>append\<close> and \<open>remove\<close>, however long, refines a list queue in an array bounded by what
    is unread at a time; integers survive a round trip except the
    value that doubles as the error code; the header is prepended by wrapping index arithmetic; what
    \<open>readv\<close>, \<open>decrease\<close> and a buffer without header lose is stated exactly. \<open>Buffer_Program\<close>
    (\<open>examples/atp_buffer_benchmark.cpp\<close>): a length-prefixed message is read back.
  \<^item> \<open>Memory_Pool\<close>, \<open>Memory_Pool_Safety\<close> (\<open>app/atp_memory_pool.cpp\<close>, \<open>app/atp_memory_policy.cpp\<close>). Regions
    handed out are aligned and disjoint; lists, counters and accounting of the pool helper are
    invariant under all operation sequences; the binary search is the least fitting class; releasing a
    grown pool faults.
  \<^item> \<open>Base64\<close> (\<open>app/atp_base64.cpp\<close>). Decoding inverts encoding; the decoder returns exactly on inputs
    inside the alphabet. \<open>Any\<close> (\<open>app/atp_any.hpp\<close>): values behind owned pointers behave as values.
    \<open>Dao\<close> (\<open>app/atp_dao.cpp\<close>): the Redis commands over an abstract \<open>redisCommand\<close>, with the server's replies
    for keys of each kind (\<open>redis_replies\<close>). \<open>Send_Helper\<close>
    (\<open>app/atp_send_helper.hpp\<close>).
  \<^item> \<open>Timing_Wheel\<close> (\<open>net/atp_ring_buffer.hpp\<close>, \<open>net/atp_timing_wheel.hpp\<close>): an entry lives exactly as
    many ticks as there are buckets.
  \<^item> \<open>Net_Base\<close> (\<open>net/atp_state_machine.hpp\<close>, \<open>net/atp_libevent.h\<close>), \<open>Channel\<close> (\<open>net/atp_channel.cpp\<close>):
    the wanted events refine two directions and libevent has registered exactly these, until the channel
    is closed; which operations fault after that.
    \<open>Event_Watcher\<close> (\<open>net/atp_event_watcher.cpp\<close>, \<open>net/atp_cycle_timer.cpp\<close>): life cycles of watchers,
    and the timer under all interleavings of cancel and expiry.
  \<^item> \<open>Event_Loop\<close> (\<open>net/atp_event_loop.cpp\<close>, one caller at a time) and \<open>Event_Loop_Wakeup\<close> (the same queue
    at the granularity of its atomic accesses): no wake-up and no task is lost.
    \<open>Event_Loop_Pool\<close> (\<open>net/atp_event_loop_thread_pool.cpp\<close>): round robin, start and stop.
    \<open>Dynamic_Thread_Pool\<close> (\<open>net/atp_dynamic_thread_pool.cpp\<close>): order, bounds, and a destructor that
    returns, for all interleavings of the critical sections.
  \<^item> \<open>Socket\<close>, \<open>Listener\<close>, \<open>Tcp_Conn\<close>, \<open>Tcp_Server\<close> (\<open>net/atp_socket.cpp\<close>, \<open>net/atp_listener.cpp\<close>,
    \<open>net/atp_tcp_conn.cpp\<close>, \<open>net/atp_tcp_server.cpp\<close>). The outgoing stream of a connection is what was
    submitted, in order. \<open>Server_Lifecycle\<close>: no order of accepts, attachments, closings, calls of \<open>close\<close>
    from any thread and removals faults or leaves a closed connection behind. \<open>Server_Start\<close> and this
    theory: starting and stopping the whole server. \<open>Single_Loop\<close> (\<open>Channel::eventHandle\<close> on a connection,
    \<open>examples/atp_tcp_multi_listener_benchmark.cpp\<close>): a connection that ends inside its own handler, without
    a pool and with a control loop that takes its tasks while the handler runs.
  \<^item> \<open>Resp200_Server\<close> (\<open>examples/atp_tcp_benchmark.cpp\<close>, with \<open>Entry\<close> of \<open>net/atp_timing_wheel.hpp\<close>) puts server,
    connections, buffers and wheel together: the callbacks of the application run inside the handlers of
    the connections, and the entries of the wheel close them. \<open>Idle_Connections\<close>: this system refines the
    server, does not fault once the wheel has turned (direct sends that fail and reads that overflow without
    a NUL, which fault by themselves, aside), and closes a connection exactly when it has been
    idle for as many turns as there are buckets.
  \<^item> \<open>Rpc_Message\<close> (\<open>rpc.pb.h\<close>, \<open>rpc.pb.cc\<close>): parser and serializers of the RPC envelope over an abstract
    libprotobuf (the record \<open>wire\<close>) whose documented behaviour, \<open>wire_laws\<close>, holds of the executable
    instance \<open>proto_wire\<close>. Serialized messages are read back, several in a row as one, up to libprotobuf's
    limit on the bytes of a stream (\<open>TotalBytesLimit\<close>, documented as 64 MB or more); sizes are \<open>int\<close>s that
    wrap around. \<open>Rpc\<close>
    (\<open>app/atp_rpc_channel.cpp\<close>, \<open>app/atp_rpc_server.cpp\<close>): one reply per read, none for what is in error.
    \<open>Echo_Service\<close> (\<open>echo_server.pb.*\<close>, \<open>examples/atp_rpc_client.cpp\<close>,
    \<open>examples/atp_rpc_server_benchmark.cpp\<close>): a call from the client's message to the answer it reads.
  \<^item> \<open>Thread_Storage\<close> (\<open>app/atp_thread_storage.hpp\<close>): a block belongs to one thread, for all interleavings of
    accesses and thread exits. \<open>Curl_Engine\<close> (\<open>app/atp_curl_engine.cpp\<close>) keeps its libcurl handle there:
    responses that fit are read back exactly, longer ones leave the buffer, and two instances of a
    thread get each other's responses.
  \<^item> \<open>Https_Client\<close> (\<open>app/atp_event_https.cpp\<close>): the request sent, the result and what is freed.
    \<open>Rsa_Crypto\<close> (\<open>app/atp_rsa_crypto.hpp\<close>): decryption of a text in pieces, every outcome of an encryption,
    keys of certificates. \<open>Uuid\<close> (\<open>app/atp_uuid.h\<close>) and \<open>Codec\<close> (\<open>app/atp_codec.hpp\<close>): round trips over
    libuuid and jsoncpp.

  \<^bold>\<open>Loops and bounds.\<close> Loops over data are structural or have a termination proof. Loops that may run
  forever are \<open>partial_function (option)\<close>: the search for a Base64 character, the draining of a task
  queue, and the parsers of the generated messages; that they return is proved, the first with the
  exact condition, the second for tasks that send nothing, the parsers for every input. Waiting loops of the thread pool
  and of the event loop are steps of a relation, with a decreasing measure where they must end. The
  length of a Base64 text is below \<open>2 ^ 30\<close>, where the \<open>int\<close> computations of the code do not overflow. A
  read takes at most 65535 bytes from a buffer, the bound of the properties about messages that arrive.

  \<^bold>\<open>Not modelled.\<close> The dispatcher of libevent, the kernel, the C heap and the pthread primitives enter
  through their answers and through the steps they allow. In the step relations of the servers a handler of a
  connection is one step; what happens when the control thread removes the connection before its handler
  has returned is treated in \<open>Single_Loop\<close>. References that
  an application keeps to a connection are not modelled. libprotobuf, libcurl, OpenSSL, evhttp, hiredis, libuuid and jsoncpp are
  parameters; the descriptors and the static registration of the generated code are calls of
  libprotobuf. The stream interfaces (\<open>net/atp_io.hpp\<close>) are abstract classes without code,
  \<open>net/atp_cbs.h\<close>, \<open>net/atp_net_error.h\<close>, \<open>app/atp_api.h\<close> and \<open>app/atp_debug.h\<close> are aliases and macros, and
  \<open>app/atp_aes_crypto.hpp\<close>, \<open>app/atp_redis_client.*\<close> and \<open>app/atp_transform_pem.hpp\<close> define no function.
  The sockets of the RPC example client, the set-up of the listeners in the multi-listener example, the
  other examples, which call one component and print, and the build files are not treated.
\<close>

section \<open>The whole server\<close>

text \<open>
  C20. A server with a pool of \<open>n\<close> loops starts when the kernel grants its socket and the workers come
  up: it listens, its loops run on other threads, and it is ready for the first connection.
  \<open>Server::stop\<close> works only on the control loop's thread: from another thread an assertion fails, and
  on it the state becomes stopped while the control loop has not been told to exit, so that
  \<open>Server::start\<close> does not return.
\<close>

theorem server_start_stop:
  assumes "Server efd tid nprocs s0 uuid name addr port (int n) = Inr sv" and "0 < n"
    and "good_listen lenv" and "good_env env" and "\<forall>i<n. good_spawn tid (spawn i) \<and> sp_entered (spawn i)"
  shows "\<exists>sv1. server_start lenv spawn env tid sv = Inr sv1 \<and> idle_server sv1 \<and>
    (\<forall>tid'. tid' \<noteq> tid \<longrightarrow> server_stop tick env tid' sv1 = Inl AssertFail) \<and>
    (\<exists>sv2. server_stop tick env tid sv1 = Inr sv2 \<and> sv_state sv2 = STATE_STOPPED \<and> \<not> el_exit (sv_ctl sv2))"
proof -
  obtain sv1 ch where sv1: "server_start lenv spawn env tid sv = Inr sv1" "idle_server sv1" "el_thread (sv_ctl sv1) = tid"
    "\<not> el_exit (sv_ctl sv1)" "ln_channel (sv_listener sv1) = Some ch" "chan_sync True False ch" "0 < sv_thread_num sv1"
    using server_starts [OF Server_new [OF assms(1,2)] assms(2-5)] by blast
  have other: "server_stop tick env tid' sv1 = Inl AssertFail" if "tid' \<noteq> tid" for tid'
    using that sv1(3) by (simp add: server_stop_def listener_stop_def threadSafety_def Let_def bnd_simps)
  have e: "env\<lparr>on_loop := True\<rparr> = env" using assms(4) by (cases env) (simp add: good_env_def)
  obtain ch1 where ch1: "disableAllEvents env ch = Inr ch1" using disable_all_sync [OF sv1(6) assms(4)] by blast
  obtain p where p: "sv_pool sv1 = Some p" "lp_state p = STATE_RUNNING" using sv1(2) by (auto simp: idle_server_def srv_ok_def)
  obtain b p' where "autoStop (\<lambda>_ lp. lp\<lparr>el_exit := True, el_state := STATE_STOPPED\<rparr>) tid StopLoop tick p = Inr (b, p')"
    using pool_stops [OF p(2)] by blast
  then have "\<exists>sv2. server_stop tick env tid sv1 = Inr sv2 \<and> sv_state sv2 = STATE_STOPPED \<and> \<not> el_exit (sv_ctl sv2)"
    using sv1(3-5,7) ch1 p(1) assms(4)
    by (simp add: e server_stop_def listener_stop_def stopEventLoopPool_def threadSafety_def good_env_def Let_def bnd_simps)
  then show ?thesis using sv1(1,2) other by blast
qed

theorem server_start_stop_witness:
  "\<exists>sv sv1. Server 5 1 4 \<lparr>s_fd = 0, s_port = 0, s_ip = [], s_closed = []\<rparr> ''u'' ''atp'' ''0.0.0.0'' 80 (int 2) = Inr sv \<and>
     server_start \<lparr>le_create = \<lparr>socket_ret = 6, nonblock_ret = 0, cloexec_ret = 0\<rparr>, le_bind = \<lambda>_ _. 0, le_listen = \<lambda>_ _. 0\<rparr>
       (\<lambda>i. \<lparr>sp_efd = 7, sp_wid = 2 + i, sp_polls = 0, sp_entered = True, sp_add_ok = True\<rparr>) sample_env 1 sv = Inr sv1 \<and>
     server_stop (\<lambda>_ p. p) sample_env 3 sv1 = Inl AssertFail"
proof -
  obtain sv where sv: "Server 5 1 4 \<lparr>s_fd = 0, s_port = 0, s_ip = [], s_closed = []\<rparr> ''u'' ''atp'' ''0.0.0.0'' 80 (int 2) = Inr sv"
    by (simp add: Server_def server_doInit_def server_blank_def EventLoop_def loop_doInit_def doInitEventWatcher_def
        EventfdWatcher_def EventWatcher_def evutil_make_internal_eventfd_def watcher_defs Let_def bnd_simps)
  from server_start_stop [OF sv, of
      "\<lparr>le_create = \<lparr>socket_ret = 6, nonblock_ret = 0, cloexec_ret = 0\<rparr>, le_bind = \<lambda>_ _. 0, le_listen = \<lambda>_ _. 0\<rparr>"
      sample_env "\<lambda>i. \<lparr>sp_efd = 7, sp_wid = 2 + i, sp_polls = 0, sp_entered = True, sp_add_ok = True\<rparr>" "\<lambda>_ p. p"] sv
  show ?thesis using sample_channel_sync(2) by (auto simp: good_listen_def good_spawn_def)
qed

end
